(* ===== verification/JsPrelude.thy ===== *)
theory JsPrelude
  imports Complex_Main "HOL-Library.Sublist" "HOL-Library.Char_ord" "HOL-Library.List_Lexorder"
begin

text \<open>
  The JavaScript values, numbers, strings and containers that the modelled TypeScript code of
  den-edge's web client uses, with the generic lemmas the component theories share.

  \<^item> A JavaScript value is a \<open>jsval\<close>. An object is the list of its own enumerable properties in
    enumeration order; reading an absent property gives \<open>JUndef\<close>, as \<open>value.key\<close> does.
  \<^item> A number is a double: \<open>Fin r\<close> for a finite one, or one of the three special values. The
    rationals contain every finite double; \<open>-0\<close> and \<open>0\<close> are one value.
  \<^item> A string is a list of code units. A code unit is a \<open>char\<close>, so the model covers strings
    whose code units are below 256; then code units and code points coincide.
  \<^item> A \<open>Map\<close> is an association list in insertion order (\<open>jm_\<close> operations).
  \<^item> What the host platform supplies and the sources only call is a field of \<open>js_env\<close>: the URL
    parser (\<open>new URL\<close>), how a non-integral number is printed, and the double nearest to a
    rational that is not a safe integer.
\<close>

named_theorems js_defs \<open>definitions of the JavaScript layer, unfolded to evaluate a closed term\<close>
named_theorems codec_defs \<open>definitions of the protocol validators\<close>

section \<open>Values\<close>

datatype jsnum = Fin rat | PosInf | NegInf | NaN

datatype jsval =
    JUndef
  | JNull
  | JBool bool
  | JNum jsnum
  | JStr string
  | JArr "jsval list"
  | JObj "(string \<times> jsval) list"

abbreviation jint :: "int \<Rightarrow> jsval" where
  "jint n \<equiv> JNum (Fin (of_int n))"

text \<open>The parts of a parsed URL the sources read.\<close>

record url_parts =
  u_protocol :: string
  u_hostname :: string
  u_pathname :: string
  u_search :: string
  u_hash :: string
  u_username :: string
  u_password :: string

record js_env =
  urlParse :: "string \<Rightarrow> url_parts option"
  numberString :: "rat \<Rightarrow> string"
  roundNumber :: "rat \<Rightarrow> jsnum"

text \<open>A platform that parses no URL, for concrete inputs without one.\<close>

definition plain_env :: js_env where
  "plain_env = \<lparr> urlParse = (\<lambda>_. None), numberString = (\<lambda>_. []), roundNumber = Fin \<rparr>"

text \<open>\<open>value.key\<close> on a value already known to be an object.\<close>

fun fld :: "jsval \<Rightarrow> string \<Rightarrow> jsval" where
  "fld (JObj kvs) k = (case map_of kvs k of Some x \<Rightarrow> x | None \<Rightarrow> JUndef)"
| "fld _ k = JUndef"

fun entriesOf :: "jsval \<Rightarrow> (string \<times> jsval) list" where
  "entriesOf (JObj kvs) = kvs"
| "entriesOf _ = []"

abbreviation keysOf :: "jsval \<Rightarrow> string list" where
  "keysOf v \<equiv> map fst (entriesOf v)"

fun arrOf :: "jsval \<Rightarrow> jsval list" where
  "arrOf (JArr xs) = xs"
| "arrOf _ = []"

fun strOf :: "jsval \<Rightarrow> string" where
  "strOf (JStr s) = s"
| "strOf _ = []"

fun ratOf :: "jsval \<Rightarrow> rat" where
  "ratOf (JNum (Fin r)) = r"
| "ratOf _ = 0"

text \<open>An object has no two properties of one name; every value reachable in it is an object too.\<close>

fun wf_js :: "jsval \<Rightarrow> bool" where
  "wf_js (JArr xs) = (\<forall>x \<in> set xs. wf_js x)"
| "wf_js (JObj kvs) = (distinct (map fst kvs) \<and> (\<forall>p \<in> set kvs. wf_js (snd p)))"
| "wf_js _ = True"

section \<open>Numbers\<close>

definition MAX_SAFE_INTEGER :: rat where
  "MAX_SAFE_INTEGER = 9007199254740991"

fun isSafeInteger :: "jsval \<Rightarrow> bool" where
  "isSafeInteger (JNum (Fin r)) = (of_int \<lfloor>r\<rfloor> = r \<and> \<bar>r\<bar> \<le> MAX_SAFE_INTEGER)"
| "isSafeInteger _ = False"

text \<open>The comparisons \<open>value >= n\<close> and \<open>value <= n\<close> of a number with a constant.\<close>

fun num_ge :: "jsval \<Rightarrow> rat \<Rightarrow> bool" where
  "num_ge (JNum (Fin r)) n = (n \<le> r)"
| "num_ge (JNum PosInf) n = True"
| "num_ge _ n = False"

fun num_gt :: "jsval \<Rightarrow> rat \<Rightarrow> bool" where
  "num_gt (JNum (Fin r)) n = (n < r)"
| "num_gt (JNum PosInf) n = True"
| "num_gt _ n = False"

fun num_le :: "jsval \<Rightarrow> rat \<Rightarrow> bool" where
  "num_le (JNum (Fin r)) n = (r \<le> n)"
| "num_le (JNum NegInf) n = True"
| "num_le _ n = False"

lemma isSafeInteger_jint [simp]:
  "isSafeInteger (jint n) \<longleftrightarrow> \<bar>n\<bar> \<le> 9007199254740991"
proof -
  have "(\<bar>rat_of_int n\<bar> \<le> 9007199254740991) = (rat_of_int \<bar>n\<bar> \<le> rat_of_int 9007199254740991)"
    by simp
  also have "\<dots> = (\<bar>n\<bar> \<le> 9007199254740991)" by (rule of_int_le_iff)
  finally show ?thesis by (simp add: MAX_SAFE_INTEGER_def)
qed

lemma isSafeIntegerE:
  assumes "isSafeInteger v"
  obtains n where "v = jint n" and "\<bar>n\<bar> \<le> 9007199254740991"
proof (cases v rule: isSafeInteger.cases)
  case (1 r)
  with assms have "v = jint \<lfloor>r\<rfloor>" by auto
  moreover have "\<bar>\<lfloor>r\<rfloor>\<bar> \<le> 9007199254740991"
    using assms isSafeInteger_jint [of "\<lfloor>r\<rfloor>"] unfolding calculation by (simp only:)
  ultimately show thesis by (rule that)
qed (use assms in simp_all)

section \<open>Decimal text of an integer\<close>

definition digit_char :: "nat \<Rightarrow> char" where
  "digit_char n = char_of (48 + n)"

fun nat_str :: "nat \<Rightarrow> string" where
  "nat_str n = (if n < 10 then [digit_char n] else nat_str (n div 10) @ [digit_char (n mod 10)])"

declare nat_str.simps [simp del]

lemma nat_str_small: "n < 10 \<Longrightarrow> nat_str n = [digit_char n]"
  by (simp add: nat_str.simps)

lemma nat_str_large: "10 \<le> n \<Longrightarrow> nat_str n = nat_str (n div 10) @ [digit_char (n mod 10)]"
  by (simp add: nat_str.simps [of n])

lemmas nat_str_eval = nat_str_small nat_str_large digit_char_def

definition int_str :: "int \<Rightarrow> string" where
  "int_str n = (if n < 0 then CHR ''-'' # nat_str (nat (- n)) else nat_str (nat n))"

text \<open>Reading decimal text back; the printed form of a number reads as that number.\<close>

definition digit_val :: "char \<Rightarrow> nat" where
  "digit_val c = of_char c - 48"

definition isDigit :: "char \<Rightarrow> bool" where
  "isDigit c \<longleftrightarrow> CHR ''0'' \<le> c \<and> c \<le> CHR ''9''"

definition dec_val :: "string \<Rightarrow> nat" where
  "dec_val s = foldl (\<lambda>a c. 10 * a + digit_val c) 0 s"

lemma digit_val_digit_char [simp]: "n < 10 \<Longrightarrow> digit_val (digit_char n) = n"
  by (simp add: digit_val_def digit_char_def)

lemma isDigit_digit_char [simp]: "n < 10 \<Longrightarrow> isDigit (digit_char n)"
  by (simp add: isDigit_def digit_char_def less_eq_char_def)

lemma dec_val_nat_str [simp]: "dec_val (nat_str n) = n"
proof (induction n rule: nat_str.induct)
  case (1 n)
  show ?case
  proof (cases "n < 10")
    case True
    then show ?thesis by (simp add: nat_str_small dec_val_def)
  next
    case False
    with 1 show ?thesis by (simp add: nat_str_large dec_val_def)
  qed
qed

lemma nat_str_inject [simp]: "nat_str m = nat_str n \<longleftrightarrow> m = n"
  by (metis dec_val_nat_str)

lemma nat_str_digits: "c \<in> set (nat_str n) \<Longrightarrow> isDigit c"
proof (induction n rule: nat_str.induct)
  case (1 n)
  then show ?case
    by (cases "n < 10") (auto simp: nat_str_small nat_str_large)
qed

lemma nat_str_nonempty [simp]: "nat_str n \<noteq> []"
  by (cases "n < 10") (simp_all add: nat_str_small nat_str_large)

lemma minus_not_digit [simp]: "\<not> isDigit CHR ''-''"
  by (simp add: isDigit_def less_eq_char_def)

lemma int_str_inject [simp]: "int_str m = int_str n \<longleftrightarrow> m = n"
proof -
  have neq: "nat_str a \<noteq> CHR ''-'' # s" for a s
    using nat_str_digits [of "CHR ''-''" a] by auto
  show ?thesis
    using neq neq [symmetric] by (auto simp: int_str_def)
qed


section \<open>Strings\<close>

text \<open>\<open>String.prototype.indexOf\<close>: the first place a string occurs, \<open>None\<close> for \<open>-1\<close>.\<close>

fun indexOf :: "string \<Rightarrow> string \<Rightarrow> nat option" where
  "indexOf [] k = (if k = [] then Some 0 else None)"
| "indexOf (c # cs) k = (if prefix k (c # cs) then Some 0 else map_option Suc (indexOf cs k))"

definition strIncludes :: "string \<Rightarrow> string \<Rightarrow> bool" where
  "strIncludes s k \<longleftrightarrow> indexOf s k \<noteq> None"

lemma indexOf_Some_prefix: "indexOf s k = Some i \<Longrightarrow> i \<le> length s \<and> prefix k (drop i s)"
proof (induction s arbitrary: i)
  case Nil
  then show ?case by (auto split: if_splits)
next
  case (Cons c cs)
  then show ?case by (auto split: if_splits)
qed

lemma indexOf_first:
  assumes "indexOf s k = Some i" and "j < i"
  shows "\<not> prefix k (drop j s)"
  using assms
proof (induction s arbitrary: i j)
  case Nil
  then show ?case by (auto split: if_splits)
next
  case (Cons c cs)
  then obtain i' where i': "indexOf cs k = Some i'" "i = Suc i'" and np: "\<not> prefix k (c # cs)"
    by (auto split: if_splits)
  then show ?case
    using Cons by (cases j) auto
qed

lemma indexOf_None: "indexOf s k = None \<Longrightarrow> j \<le> length s \<Longrightarrow> \<not> prefix k (drop j s)"
proof (induction s arbitrary: j)
  case Nil
  then show ?case by (auto split: if_splits)
next
  case (Cons c cs)
  then show ?case by (cases j) (auto split: if_splits)
qed

lemma strIncludes_single [simp]: "strIncludes s [c] \<longleftrightarrow> c \<in> set s"
  unfolding strIncludes_def by (induction s) auto

text \<open>The character classes of the sources' regular expressions.\<close>

definition isLower :: "char \<Rightarrow> bool" where
  "isLower c \<longleftrightarrow> CHR ''a'' \<le> c \<and> c \<le> CHR ''z''"

definition isUpper :: "char \<Rightarrow> bool" where
  "isUpper c \<longleftrightarrow> CHR ''A'' \<le> c \<and> c \<le> CHR ''Z''"

definition isHexLower :: "char \<Rightarrow> bool" where
  "isHexLower c \<longleftrightarrow> isDigit c \<or> CHR ''a'' \<le> c \<and> c \<le> CHR ''f''"

definition isBase64url :: "char \<Rightarrow> bool" where
  "isBase64url c \<longleftrightarrow> isUpper c \<or> isLower c \<or> isDigit c \<or> c = CHR ''_'' \<or> c = CHR ''-''"

lemmas char_classes = isDigit_def isLower_def isUpper_def isHexLower_def isBase64url_def less_eq_char_def

text \<open>\<open>^[class]{n}$\<close>.\<close>

definition re_exactly :: "(char \<Rightarrow> bool) \<Rightarrow> nat \<Rightarrow> string \<Rightarrow> bool" where
  "re_exactly p n s \<longleftrightarrow> length s = n \<and> list_all p s"

text \<open>\<open>^[class]{m,n}$\<close>.\<close>

definition re_between :: "(char \<Rightarrow> bool) \<Rightarrow> nat \<Rightarrow> nat \<Rightarrow> string \<Rightarrow> bool" where
  "re_between p m n s \<longleftrightarrow> m \<le> length s \<and> length s \<le> n \<and> list_all p s"

text \<open>A value that is a string satisfying a test: \<open>typeof value === 'string' && test(value)\<close>.\<close>

fun strWith :: "(string \<Rightarrow> bool) \<Rightarrow> jsval \<Rightarrow> bool" where
  "strWith p (JStr s) = p s"
| "strWith p _ = False"

lemma strWithE: "strWith p v \<Longrightarrow> (\<And>s. v = JStr s \<Longrightarrow> p s \<Longrightarrow> R) \<Longrightarrow> R"
  by (cases v) auto

section \<open>\<open>String(value)\<close> and \<open>JSON.stringify(value)\<close>\<close>

fun num_str :: "js_env \<Rightarrow> jsnum \<Rightarrow> string" where
  "num_str E (Fin r) =
     (if of_int \<lfloor>r\<rfloor> = r \<and> \<bar>r\<bar> < 10 ^ 21 then int_str \<lfloor>r\<rfloor> else numberString E r)"
| "num_str E PosInf = ''Infinity''"
| "num_str E NegInf = ''-Infinity''"
| "num_str E NaN = ''NaN''"

fun join_with :: "string \<Rightarrow> string list \<Rightarrow> string" where
  "join_with sep [] = []"
| "join_with sep [x] = x"
| "join_with sep (x # y # zs) = x @ sep @ join_with sep (y # zs)"

fun js_String :: "js_env \<Rightarrow> jsval \<Rightarrow> string" where
  "js_String E JUndef = ''undefined''"
| "js_String E JNull = ''null''"
| "js_String E (JBool b) = (if b then ''true'' else ''false'')"
| "js_String E (JNum n) = num_str E n"
| "js_String E (JStr s) = s"
| "js_String E (JArr xs) =
     join_with '','' (map (\<lambda>x. if x = JUndef \<or> x = JNull then [] else js_String E x) xs)"
| "js_String E (JObj kvs) = ''[object Object]''"

lemma js_String_jint [simp]: "\<bar>n\<bar> \<le> 9007199254740991 \<Longrightarrow> js_String E (jint n) = int_str n"
proof -
  assume "\<bar>n\<bar> \<le> 9007199254740991"
  then have "\<bar>n\<bar> < 10 ^ 21" by simp
  then have "rat_of_int \<bar>n\<bar> < rat_of_int (10 ^ 21)" by (simp only: of_int_less_iff)
  then show ?thesis by simp
qed

definition hex_digit :: "nat \<Rightarrow> char" where
  "hex_digit n = (if n < 10 then char_of (48 + n) else char_of (87 + n))"

text \<open>\<open>QuoteJSONString\<close> of the language specification, one code unit at a time.\<close>

definition json_char :: "char \<Rightarrow> string" where
  "json_char c =
     (let n = of_char c :: nat; bs = char_of (92::nat) in
      if n = 34 then [bs, c]
      else if n = 92 then [bs, bs]
      else if n = 8 then [bs, CHR ''b'']
      else if n = 9 then [bs, CHR ''t'']
      else if n = 10 then [bs, CHR ''n'']
      else if n = 12 then [bs, CHR ''f'']
      else if n = 13 then [bs, CHR ''r'']
      else if n < 32 then [bs, CHR ''u'', CHR ''0'', CHR ''0'', hex_digit (n div 16), hex_digit (n mod 16)]
      else [c])"

definition json_quote :: "string \<Rightarrow> string" where
  "json_quote s = [char_of (34::nat)] @ concat (map json_char s) @ [char_of (34::nat)]"

text \<open>
  The serialisation: \<open>None\<close> for \<open>undefined\<close>, which is left out of an object and written
  \<open>null\<close> in an array; a number that is not finite is written \<open>null\<close>.
\<close>

fun stringify :: "js_env \<Rightarrow> jsval \<Rightarrow> string option" where
  "stringify E JUndef = None"
| "stringify E JNull = Some ''null''"
| "stringify E (JBool b) = Some (if b then ''true'' else ''false'')"
| "stringify E (JNum n) = Some (case n of Fin r \<Rightarrow> num_str E n | _ \<Rightarrow> ''null'')"
| "stringify E (JStr s) = Some (json_quote s)"
| "stringify E (JArr xs) =
     Some (''['' @ join_with '','' (map (\<lambda>x. case stringify E x of Some t \<Rightarrow> t | None \<Rightarrow> ''null'') xs)
           @ '']'')"
| "stringify E (JObj kvs) =
     Some (''{'' @ join_with '','' (concat (map (\<lambda>p. case stringify E (snd p) of
             Some t \<Rightarrow> [json_quote (fst p) @ '':'' @ t] | None \<Rightarrow> []) kvs)) @ ''}'')"

text \<open>What a value counts as in a condition.\<close>

fun truthy :: "jsval \<Rightarrow> bool" where
  "truthy JUndef = False"
| "truthy JNull = False"
| "truthy (JBool b) = b"
| "truthy (JNum n) = (n \<noteq> Fin 0 \<and> n \<noteq> NaN)"
| "truthy (JStr s) = (s \<noteq> [])"
| "truthy _ = True"

end
