(* ===== verification/ProfilePrefs.thy ===== *)
theory ProfilePrefs
  imports JsPrelude
begin

text \<open>
  The profile preference schema of \<^verbatim>\<open>web/src/lib/profilePreferenceSchema.ts\<close> and the catalogs of
  \<^verbatim>\<open>web/src/settings/catalogs.ts\<close> it is built from: which stored setting of a profile may cross a
  client boundary, and with which type and bounds.
\<close>

section \<open>Catalogs and limits\<close>

definition PROFILE_LANGUAGE_LIMIT :: nat where [codec_defs]: "PROFILE_LANGUAGE_LIMIT = 64"
definition PROFILE_GENRE_LIMIT :: nat where [codec_defs]: "PROFILE_GENRE_LIMIT = 128"
definition PROFILE_SERVICE_LIMIT :: nat where [codec_defs]: "PROFILE_SERVICE_LIMIT = 256"
definition PROFILE_MIN_YEAR :: rat where [codec_defs]: "PROFILE_MIN_YEAR = 1880"
definition PROFILE_MAX_YEAR :: rat where [codec_defs]: "PROFILE_MAX_YEAR = 2200"
definition PROFILE_MAX_SUBTITLES_PER_LANGUAGE :: rat where [codec_defs]:
  "PROFILE_MAX_SUBTITLES_PER_LANGUAGE = 100"

definition WARNING_GROUPS :: "(string \<times> string list) list" where
  "WARNING_GROUPS =
    [(''Violence'', [''Violence'', ''Large-scale Violence'', ''Assault'', ''Abuse'',
        ''Natural Disasters'', ''Vehicular'']),
     (''Sex'', [''Sex'', ''Sexual Assault'']),
     (''Death & Loss'', [''Death'', ''Loss'', ''Family'', ''Abandonment'']),
     (''Children'', [''Children'', ''Pregnancy'']),
     (''Animals'', [''Animal Death'', ''Animal Distress'', ''Animal Phobia'']),
     (''Mental Health & Addiction'', [''Mental Health'', ''Self Harm'', ''Addiction'',
        ''Drugs/Alcohol'', ''Paranoia'', ''Relationships'']),
     (''Identity & Society'', [''LGBTQ+'', ''Race'', ''Religious'', ''Sexism'', ''Prejudice'',
        ''Disability'', ''Law Enforcement'', ''Social'']),
     (''Medical'', [''Medical'', ''Sickness'']),
     (''Fear & Disgust'', [''Fear'', ''Gross'', ''Noxious'', ''Creepy Crawly'', ''Spoiler'']),
     (''Body'', [''Whole Body'', ''Head'', ''Neck'', ''Appendages''])]"

definition RATING_SOURCES :: "(string \<times> string) list" where
  "RATING_SOURCES =
    [(''imdb'', ''IMDb''), (''tmdb'', ''TMDB''), (''rottenTomatoes'', ''Rotten Tomatoes''),
     (''metacritic'', ''Metacritic'')]"

text \<open>A \<open>Set\<close> is the list of its members in insertion order, without repetitions.\<close>

definition PROFILE_RATING_SOURCES :: "string list" where
  "PROFILE_RATING_SOURCES = remdups (map fst RATING_SOURCES)"

definition PROFILE_WARNING_CATEGORIES :: "string list" where
  "PROFILE_WARNING_CATEGORIES = remdups (concat (map snd WARNING_GROUPS))"

definition PROFILE_KEYS :: "string list" where
  "PROFILE_KEYS =
    [''den.autoSkipSegments'', ''den.autoplayTrailers'', ''den.preferredAudioLanguage'',
     ''den.preferredSubtitleLanguage'', ''den.hasExplicitSubtitlePreference'',
     ''den.interfaceLanguage'', ''den.shownSubtitleLanguages'', ''den.maxSubtitlesPerLanguage'',
     ''den.excludedGenreIDs'', ''den.excludedLanguages'', ''den.hideAnime'', ''den.hideWatched'',
     ''den.minReleaseYear'', ''den.enabledRatingSources'', ''den.shownWarningCategories'',
     ''den.watchRegion'', ''den.myServicePicks'']"

section \<open>The checks\<close>

definition isProfileLanguage :: "jsval \<Rightarrow> bool" where [codec_defs]:
  "isProfileLanguage value \<longleftrightarrow> strWith (re_exactly isLower 2) value"

definition isProfileRegion :: "jsval \<Rightarrow> bool" where [codec_defs]:
  "isProfileRegion value \<longleftrightarrow> strWith (re_exactly isUpper 2) value"

definition isProfileYear :: "jsval \<Rightarrow> bool" where [codec_defs]:
  "isProfileYear value \<longleftrightarrow>
     isSafeInteger value \<and> num_ge value PROFILE_MIN_YEAR \<and> num_le value PROFILE_MAX_YEAR"

definition isProfileSubtitleLimit :: "jsval \<Rightarrow> bool" where [codec_defs]:
  "isProfileSubtitleLimit value \<longleftrightarrow>
     isSafeInteger value \<and> num_ge value 0 \<and> num_le value PROFILE_MAX_SUBTITLES_PER_LANGUAGE"

text \<open>\<open>^(\d+)@([A-Za-z]{2})$\<close>, the digits read as a safe positive integer.\<close>

definition validProfileService :: "string \<Rightarrow> bool" where [codec_defs]:
  "validProfileService value \<longleftrightarrow>
     (let digits = takeWhile isDigit value; rest = dropWhile isDigit value in
      digits \<noteq> [] \<and> length rest = 3 \<and> rest ! 0 = CHR ''@'' \<and>
      list_all (\<lambda>c. isUpper c \<or> isLower c) (drop 1 rest) \<and>
      dec_val digits \<le> 9007199254740991 \<and> 0 < dec_val digits)"

definition validProfileServices :: "jsval list \<Rightarrow> bool" where [codec_defs]:
  "validProfileServices values \<longleftrightarrow>
     length values \<le> PROFILE_SERVICE_LIMIT \<and> list_all (strWith validProfileService) values"

definition hasKey :: "jsval \<Rightarrow> string \<Rightarrow> bool" where [codec_defs]:
  "hasKey value k \<longleftrightarrow> k \<in> set (keysOf value)"

definition acceptsProfilePreference :: "string \<Rightarrow> jsval \<Rightarrow> bool" where
  "acceptsProfilePreference key value =
    (if value = JNull then key \<in> set PROFILE_KEYS
     else if key \<in> {''den.autoSkipSegments'', ''den.autoplayTrailers'', ''den.hideAnime'',
                     ''den.hideWatched''}
       then hasKey value ''bool''
     else if key = ''den.hasExplicitSubtitlePreference''
       then hasKey value ''bool'' \<and> fld value ''bool'' = JBool True
     else if key \<in> {''den.preferredAudioLanguage'', ''den.preferredSubtitleLanguage'',
                     ''den.interfaceLanguage''}
       then hasKey value ''string'' \<and> isProfileLanguage (fld value ''string'')
     else if key \<in> {''den.shownSubtitleLanguages'', ''den.excludedLanguages''}
       then hasKey value ''strings'' \<and>
            length (arrOf (fld value ''strings'')) \<le> PROFILE_LANGUAGE_LIMIT \<and>
            list_all isProfileLanguage (arrOf (fld value ''strings''))
     else if key = ''den.maxSubtitlesPerLanguage''
       then hasKey value ''int'' \<and> isProfileSubtitleLimit (fld value ''int'')
     else if key = ''den.excludedGenreIDs''
       then hasKey value ''ints'' \<and>
            length (arrOf (fld value ''ints'')) \<le> PROFILE_GENRE_LIMIT \<and>
            list_all (\<lambda>i. isSafeInteger i \<and> num_gt i 0) (arrOf (fld value ''ints''))
     else if key = ''den.minReleaseYear''
       then hasKey value ''int'' \<and> isProfileYear (fld value ''int'')
     else if key = ''den.enabledRatingSources''
       then hasKey value ''strings'' \<and>
            length (arrOf (fld value ''strings'')) \<le> length PROFILE_RATING_SOURCES \<and>
            list_all (strWith (\<lambda>s. s \<in> set PROFILE_RATING_SOURCES)) (arrOf (fld value ''strings''))
     else if key = ''den.shownWarningCategories''
       then hasKey value ''strings'' \<and>
            length (arrOf (fld value ''strings'')) \<le> length PROFILE_WARNING_CATEGORIES \<and>
            list_all (strWith (\<lambda>s. s \<in> set PROFILE_WARNING_CATEGORIES))
              (arrOf (fld value ''strings''))
     else if key = ''den.watchRegion''
       then hasKey value ''string'' \<and> isProfileRegion (fld value ''string'')
     else if key = ''den.myServicePicks''
       then hasKey value ''strings'' \<and> validProfileServices (arrOf (fld value ''strings''))
     else False)"

text \<open>The profile-owned, canonically typed stamped values of a settings row.\<close>

definition validProfilePreferenceValues ::
    "(string \<times> jsval) list \<Rightarrow> (string \<times> jsval) list" where
  "validProfilePreferenceValues values =
     filter (\<lambda>(key, stamped). acceptsProfilePreference key (fld stamped ''value'')) values"

section \<open>What the schema guarantees\<close>

text \<open>
  Every accepted setting is one of the profile's own keys, whatever its value: the schema's
  \<open>switch\<close> and its key set name the same seventeen settings.
\<close>

lemma acceptsProfilePreference_key:
  assumes "acceptsProfilePreference key value"
  shows "key \<in> set PROFILE_KEYS"
  using assms unfolding acceptsProfilePreference_def PROFILE_KEYS_def
  by (auto split: if_splits)

lemma acceptsProfilePreference_clear:
  "acceptsProfilePreference key JNull \<longleftrightarrow> key \<in> set PROFILE_KEYS"
  by (simp add: acceptsProfilePreference_def)

lemma validProfilePreferenceValues_idem:
  "validProfilePreferenceValues (validProfilePreferenceValues values) =
   validProfilePreferenceValues values"
  by (simp add: validProfilePreferenceValues_def)

end
