(* ===== verification/CodecBase.thy ===== *)
theory CodecBase
  imports ProfilePrefs Base64
begin

text \<open>
  The primitive and shared validators of \<^verbatim>\<open>web/src/lib/libraryServiceProtocolCodec.ts\<close>, which stand
  between a page and the library service on every message, and the memory-safety limits of
  \<^verbatim>\<open>web/src/lib/libraryServiceProtocol.ts\<close>. A TypeScript type guard is a bool-valued function of the
  untyped value. The main result here is about \<open>exact\<close>, which tests property names against a
  comma-delimited string with \<open>indexOf\<close>: on a key string whose order is right it accepts exactly
  the objects whose every property is one of the listed names.
\<close>

section \<open>Limits and primitive guards\<close>

definition LIBRARY_SERVICE_PROTOCOL :: int where "LIBRARY_SERVICE_PROTOCOL = 13"

record wire_limits =
  collectionItems :: nat
  importItems :: nat
  presenceTitles :: nat
  shapeSeasons :: nat
  seasonEpisodes :: nat
  airingSeries :: nat
  airingEpisodes :: nat
  downloadSources :: nat
  retainedTitles :: nat
  routeServices :: nat
  routeEntries :: nat
  libraryMetadataTitles :: nat
  historyDetailTitles :: nat
  historyDetailEpisodes :: nat
  profileEntries :: nat

definition LIBRARY_SERVICE_WIRE_LIMITS :: wire_limits where
  "LIBRARY_SERVICE_WIRE_LIMITS =
    \<lparr> collectionItems = 100000, importItems = 100000, presenceTitles = 512, shapeSeasons = 256,
      seasonEpisodes = 2048, airingSeries = 4096, airingEpisodes = 128, downloadSources = 512,
      retainedTitles = 64, routeServices = 64, routeEntries = 32, libraryMetadataTitles = 512,
      historyDetailTitles = 48, historyDetailEpisodes = 100000, profileEntries = 64 \<rparr>"

abbreviation LIMITS :: wire_limits where "LIMITS \<equiv> LIBRARY_SERVICE_WIRE_LIMITS"

fun isRecord :: "jsval \<Rightarrow> bool" where
  "isRecord (JObj kvs) = True"
| "isRecord _ = False"

text \<open>One property name against the delimited key string.\<close>

definition exact_key :: "string \<Rightarrow> string \<Rightarrow> bool" where
  "exact_key keys key =
     (if strIncludes key '','' then False
      else case indexOf keys key of
             None \<Rightarrow> False
           | Some i \<Rightarrow> i > 0 \<and> keys ! (i - 1) = CHR '','' \<and>
               i + length key < length keys \<and> keys ! (i + length key) = CHR '','')"

definition exact :: "jsval \<Rightarrow> string \<Rightarrow> bool" where
  "exact value keys \<longleftrightarrow> list_all (exact_key keys) (keysOf value)"

definition isText :: "jsval \<Rightarrow> bool" where [codec_defs]:
  "isText value \<longleftrightarrow> strWith (\<lambda>s. length s > 0 \<and> length s \<le> 4096) value"

fun isFinite :: "jsval \<Rightarrow> bool" where
  "isFinite (JNum (Fin r)) = True"
| "isFinite _ = False"

definition isInteger :: "jsval \<Rightarrow> bool" where
  "isInteger value \<longleftrightarrow> isSafeInteger value \<and> num_ge value 0"

definition positiveInteger :: "jsval \<Rightarrow> bool" where
  "positiveInteger value \<longleftrightarrow> isInteger value \<and> num_gt value 0"

fun isBool :: "jsval \<Rightarrow> bool" where
  "isBool (JBool b) = True"
| "isBool _ = False"

text \<open>\<open>^\d{4}-\d{2}-\d{2}$\<close>.\<close>

definition re_day :: "string \<Rightarrow> bool" where [codec_defs]:
  "re_day s \<longleftrightarrow> length s = 10 \<and> list_all isDigit (take 4 s) \<and> s ! 4 = CHR ''-'' \<and>
     list_all isDigit (take 2 (drop 5 s)) \<and> s ! 7 = CHR ''-'' \<and> list_all isDigit (drop 8 s)"

definition isDay :: "jsval \<Rightarrow> bool" where [codec_defs]:
  "isDay value \<longleftrightarrow> strWith re_day value"

definition optional :: "jsval \<Rightarrow> (jsval \<Rightarrow> bool) \<Rightarrow> bool" where [codec_defs]:
  "optional value check \<longleftrightarrow> value = JUndef \<or> check value"

fun listOf :: "jsval \<Rightarrow> (jsval \<Rightarrow> bool) \<Rightarrow> nat \<Rightarrow> bool" where
  "listOf (JArr xs) check n \<longleftrightarrow> length xs \<le> n \<and> list_all check xs"
| "listOf _ check n \<longleftrightarrow> False"

text \<open>The limit a call that names none has.\<close>

abbreviation listAny :: "jsval \<Rightarrow> (jsval \<Rightarrow> bool) \<Rightarrow> bool" where
  "listAny value check \<equiv> listOf value check (collectionItems LIMITS)"

definition nullable :: "jsval \<Rightarrow> (jsval \<Rightarrow> bool) \<Rightarrow> bool" where [codec_defs]:
  "nullable value check \<longleftrightarrow> value = JNull \<or> check value"

text \<open>\<open>value === a || value === b || ...\<close> for string constants.\<close>

definition oneOf :: "string list \<Rightarrow> jsval \<Rightarrow> bool" where [codec_defs]:
  "oneOf names value \<longleftrightarrow> strWith (\<lambda>s. s \<in> set names) value"

text \<open>\<open>new Set(values.map(key)).size === values.length\<close>.\<close>

definition unique :: "jsval list \<Rightarrow> (jsval \<Rightarrow> string) \<Rightarrow> bool" where
  "unique values key \<longleftrightarrow> length (remdups (map key values)) = length values"

definition boundedText :: "nat \<Rightarrow> jsval \<Rightarrow> bool" where [codec_defs]:
  "boundedText n value \<longleftrightarrow> strWith (\<lambda>s. length s > 0 \<and> length s \<le> n) value"

text \<open>\<open>[...value].length\<close> counts code points, one per code unit in the modelled strings.\<close>

definition boundedScalarText :: "nat \<Rightarrow> jsval \<Rightarrow> bool" where [codec_defs]:
  "boundedScalarText n value \<longleftrightarrow> strWith (\<lambda>s. length s > 0 \<and> length s \<le> n) value"

lemma unique_iff_distinct: "unique values key \<longleftrightarrow> distinct (map key values)"
  unfolding unique_def
  by (metis length_map length_remdups_eq remdups_id_iff_distinct)

lemma isInteger_jint [simp]: "isInteger (jint n) \<longleftrightarrow> 0 \<le> n \<and> n \<le> 9007199254740991"
  by (auto simp: isInteger_def simp del: isSafeInteger.simps)

lemma positiveInteger_jint [simp]: "positiveInteger (jint n) \<longleftrightarrow> 0 < n \<and> n \<le> 9007199254740991"
  by (auto simp: positiveInteger_def simp del: isSafeInteger.simps)

lemma isIntegerE:
  assumes "isInteger v"
  obtains n where "v = jint n" and "0 \<le> n" and "n \<le> 9007199254740991"
  using assms isSafeIntegerE [of v] unfolding isInteger_def
  by (metis abs_le_D1 num_ge.simps(1) of_int_0_le_iff)

lemma js_String_integer_inj:
  assumes "isInteger a" and "isInteger b" and "js_String E a = js_String E b"
  shows "a = b"
  using assms by (elim isIntegerE) (auto simp del: js_String.simps)

section \<open>The delimited key strings\<close>

text \<open>A key string is a comma before every name and one after the last.\<close>

definition delim_body :: "string list \<Rightarrow> string" where
  "delim_body ks = concat (map (\<lambda>k. k @ '','') ks)"

definition delim :: "string list \<Rightarrow> string" where
  "delim ks = CHR '','' # delim_body ks"

text \<open>
  The order the codec asks of its key strings: no name contains a later one (a contained name
  precedes the longer one), and no name is empty or has a comma.
\<close>

fun names_in_order :: "string list \<Rightarrow> bool" where
  "names_in_order [] = True"
| "names_in_order (k # ks) =
     (k \<noteq> [] \<and> CHR '','' \<notin> set k \<and> list_all (\<lambda>later. \<not> sublist later k) ks \<and> names_in_order ks)"

fun split_commas :: "string \<Rightarrow> string list" where
  "split_commas [] = [[]]"
| "split_commas (c # cs) =
     (case split_commas cs of
        [] \<Rightarrow> [[c]]
      | x # xs \<Rightarrow> if c = CHR '','' then [] # x # xs else (c # x) # xs)"

definition key_names :: "string \<Rightarrow> string list" where
  "key_names keys = filter (\<lambda>k. k \<noteq> []) (split_commas keys)"

lemma delim_body_simps [simp]:
  "delim_body [] = []" "delim_body (k # ks) = k @ CHR '','' # delim_body ks"
  by (simp_all add: delim_body_def)

lemma delim_body_append [simp]: "delim_body (ks @ ls) = delim_body ks @ delim_body ls"
  by (simp add: delim_body_def)

lemma prefix_before_comma:
  assumes "prefix k (seg @ CHR '','' # rest)" and "CHR '','' \<notin> set k"
  shows "prefix k seg"
proof -
  from assms(1) consider "prefix k seg" | us where "k = seg @ us" "prefix us (CHR '','' # rest)"
    by (auto simp: prefix_append)
  then show ?thesis
  proof cases
    case 2
    with assms(2) show ?thesis by (cases us) auto
  qed
qed

lemma indexOf_skip_segment:
  assumes "\<not> sublist k seg" and "CHR '','' \<notin> set k"
  shows "indexOf (seg @ CHR '','' # rest) k = map_option (\<lambda>i. i + Suc (length seg)) (indexOf rest k)"
  using assms(1)
proof (induction seg)
  case Nil
  then have "k \<noteq> []" by auto
  with assms(2) have "\<not> prefix k (CHR '','' # rest)" by (cases k) auto
  then show ?case by simp
next
  case (Cons c seg)
  have "\<not> prefix k (c # seg @ CHR '','' # rest)"
    using prefix_before_comma [of k "c # seg" rest] assms(2) Cons.prems by auto
  moreover have "\<not> sublist k seg"
    using Cons.prems by (simp add: sublist_Cons_right)
  ultimately show ?case
    using Cons.IH by (simp add: option.map_comp comp_def)
qed

lemma indexOf_found: "indexOf (k @ rest) k = Some 0"
proof (cases "k @ rest")
  case (Cons a list)
  then have "prefix k (a # list)" by (metis prefixI)
  with Cons show ?thesis by simp
qed simp

lemma first_comma_unique:
  assumes "a @ CHR '','' # x = b @ CHR '','' # y" and "CHR '','' \<notin> set a" and "CHR '','' \<notin> set b"
  shows "a = b \<and> x = y"
proof -
  have "takeWhile (\<lambda>c. c \<noteq> CHR '','') (a @ CHR '','' # x) = a"
       "takeWhile (\<lambda>c. c \<noteq> CHR '','') (b @ CHR '','' # y) = b"
    using assms(2,3) by (auto simp: takeWhile_append)
  with assms(1) show ?thesis by auto
qed

lemma indexOf_delim_body:
  assumes "\<forall>p \<in> set pre. \<not> sublist k p" and "CHR '','' \<notin> set k"
  shows "indexOf (delim_body (pre @ k # post)) k = Some (length (delim_body pre))"
  using assms(1)
proof (induction pre)
  case Nil
  then show ?case using indexOf_found [of k] by simp
next
  case (Cons p pre)
  then show ?case
    using indexOf_skip_segment [of k p] assms(2) by simp
qed

lemma last_delim_body: "ks \<noteq> [] \<Longrightarrow> last (delim_body ks) = CHR '',''"
proof (induction ks)
  case (Cons k ks)
  then show ?case by (cases ks) auto
qed simp

lemma delim_nth_before: "delim (pre @ rest) ! length (delim_body pre) = CHR '',''"
proof (cases "pre = []")
  case False
  then have "delim_body pre \<noteq> []" by (cases pre) auto
  with False show ?thesis
    using last_delim_body [of pre]
    by (simp add: delim_def nth_Cons' nth_append last_conv_nth)
qed (simp add: delim_def)

lemma exact_key_listed:
  assumes "\<forall>p \<in> set pre. \<not> sublist k p" and "CHR '','' \<notin> set k" and "k \<noteq> []"
  shows "exact_key (delim (pre @ k # post)) k"
proof -
  let ?d = "delim (pre @ k # post)"
  let ?n = "length (delim_body pre)"
  have "\<not> prefix k ?d"
    using assms(2,3) by (cases k) (auto simp: delim_def)
  then have at: "indexOf ?d k = Some (Suc ?n)"
    using indexOf_delim_body [OF assms(1,2), of post] by (simp add: delim_def)
  have "?d ! (Suc ?n + length k) = CHR '',''" "Suc ?n + length k < length ?d"
    by (simp_all add: delim_def nth_append)
  then show ?thesis
    using at delim_nth_before [of pre "k # post"] assms(2) by (simp add: exact_key_def)
qed

text \<open>A comma-free string that stands between two commas of the key string is one of its names.\<close>

lemma delimited_is_name:
  assumes "delim_body ks = u @ key @ CHR '','' # w" and "CHR '','' \<notin> set key"
    and "u = [] \<or> last u = CHR '',''" and "\<forall>k \<in> set ks. CHR '','' \<notin> set k"
  shows "key \<in> set ks"
  using assms
proof (induction ks arbitrary: u)
  case Nil
  then show ?case by simp
next
  case (Cons k ks)
  have eq: "k @ CHR '','' # delim_body ks = u @ key @ CHR '','' # w"
    using Cons.prems(1) by simp
  show ?case
  proof (cases "u = []")
    case True
    with eq Cons.prems(2,4) have "k = key"
      using first_comma_unique [of k "delim_body ks" key w] by simp
    then show ?thesis by simp
  next
    case False
    then obtain u' where u: "u = u' @ [CHR '','']"
      using Cons.prems(3) by (metis append_butlast_last_id)
    with eq have eq': "k @ CHR '','' # delim_body ks = u' @ CHR '','' # key @ CHR '','' # w" by simp
    show ?thesis
    proof (cases "CHR '','' \<in> set u'")
      case True
      then obtain p v where p: "u' = p @ CHR '','' # v" "CHR '','' \<notin> set p"
        using split_list_first by fastforce
      then have "delim_body ks = (v @ [CHR '','']) @ key @ CHR '','' # w"
        using eq' Cons.prems(4) first_comma_unique [of k "delim_body ks" p] by simp
      then show ?thesis
        using Cons.IH [of "v @ [CHR '','']"] Cons.prems by simp
    next
      case False
      then have "delim_body ks = [] @ key @ CHR '','' # w"
        using eq' Cons.prems(4) first_comma_unique [of k "delim_body ks" u'] by simp
      then show ?thesis
        using Cons.IH [of "[]"] Cons.prems by simp
    qed
  qed
qed

lemma exact_key_only_listed:
  assumes "exact_key (delim ks) key" and "\<forall>k \<in> set ks. CHR '','' \<notin> set k"
  shows "key \<in> set ks"
proof -
  let ?b = "delim_body ks"
  from assms(1) obtain i where nc: "CHR '','' \<notin> set key" and i: "indexOf (delim ks) key = Some i"
    "0 < i" "delim ks ! (i - 1) = CHR '',''" "i + length key < length (delim ks)"
    "delim ks ! (i + length key) = CHR '',''"
    by (auto simp: exact_key_def split: if_splits option.splits)
  from i(2) obtain j where j: "i = Suc j" using gr0_implies_Suc by blast
  have "prefix key (drop j ?b)"
    using indexOf_Some_prefix [OF i(1)] j by (simp add: delim_def)
  then obtain rest where rest: "drop j ?b = key @ rest" by (auto simp: prefix_def)
  have "rest ! 0 = CHR '',''" and "rest \<noteq> []"
  proof -
    have len: "j + length key < length ?b" using i(4) j by (simp add: delim_def)
    then show "rest \<noteq> []"
      using rest by (metis add.right_neutral append_Nil2 length_drop less_diff_conv
          add.commute nat_less_le)
    have "?b ! (j + length key) = (key @ rest) ! length key"
      using rest len by (metis add_leD1 less_imp_le_nat nth_drop)
    then show "rest ! 0 = CHR '',''"
      using i(5) j by (simp add: delim_def nth_append)
  qed
  then obtain w where "rest = CHR '','' # w" by (cases rest) auto
  with rest have split: "?b = take j ?b @ key @ CHR '','' # w"
    by (metis append_take_drop_id)
  have jlen: "j \<le> length ?b" using i(4) j by (simp add: delim_def)
  have "take j ?b = [] \<or> last (take j ?b) = CHR '',''"
  proof (cases j)
    case (Suc m)
    then have "last (take j ?b) = ?b ! m"
      using jlen by (metis Suc_le_lessD last_snoc take_Suc_conv_app_nth)
    with i(3) j Suc show ?thesis by (simp add: delim_def)
  qed simp
  with split nc assms(2) show ?thesis
    using delimited_is_name [of ks "take j ?b" key w] by simp
qed

lemma names_in_order_clean: "names_in_order ks \<Longrightarrow> \<forall>k \<in> set ks. k \<noteq> [] \<and> CHR '','' \<notin> set k"
  by (induction ks) auto

lemma names_in_order_first:
  assumes "names_in_order ks" and "k \<in> set ks"
  obtains pre post where "ks = pre @ k # post" and "\<forall>p \<in> set pre. \<not> sublist k p"
  using assms
proof (induction ks arbitrary: thesis)
  case (Cons x ks)
  show ?case
  proof (cases "x = k")
    case True
    then show ?thesis using Cons.prems(1) [of "[]" ks] by simp
  next
    case False
    with Cons.prems(2,3) obtain pre post where
      "ks = pre @ k # post" "\<forall>p \<in> set pre. \<not> sublist k p"
      using Cons.IH by auto
    moreover have "\<not> sublist k x"
      using Cons.prems(2,3) False by (auto simp: list_all_iff)
    ultimately show ?thesis using Cons.prems(1) [of "x # pre" post] by simp
  qed
qed simp

lemma exact_delim:
  assumes "names_in_order ks"
  shows "exact value (delim ks) \<longleftrightarrow> set (keysOf value) \<subseteq> set ks"
proof -
  have "exact_key (delim ks) key \<longleftrightarrow> key \<in> set ks" for key
  proof
    assume "exact_key (delim ks) key"
    then show "key \<in> set ks"
      using exact_key_only_listed names_in_order_clean [OF assms] by blast
  next
    assume key: "key \<in> set ks"
    then obtain pre post where "ks = pre @ key # post" "\<forall>p \<in> set pre. \<not> sublist key p"
      using names_in_order_first [OF assms] by blast
    then show "exact_key (delim ks) key"
      using exact_key_listed names_in_order_clean [OF assms] key by blast
  qed
  then show ?thesis by (auto simp: exact_def list_all_iff)
qed

end
