(* ===== verification/CodecClient.thy ===== *)
theory CodecClient
  imports CodecBase
begin

text \<open>
  The validators of what a page sends to the library service
  (\<^verbatim>\<open>web/src/lib/libraryServiceProtocolCodec.ts\<close>): commands, selections, queries, tasks and
  observations, and \<open>decodeLibraryServiceClientMessage\<close>, in the order and with the conditions of
  the source. A \<open>switch\<close> on \<open>value.kind\<close> is a chain of tests in the order of its cases.
\<close>

section \<open>Titles, text and small enumerations\<close>

definition titleRef :: "jsval \<Rightarrow> bool" where
  "titleRef value \<longleftrightarrow>
     isRecord value \<and> exact value '',type,id,'' \<and>
     (fld value ''type'' = JStr ''movie'' \<or> fld value ''type'' = JStr ''tv'') \<and>
     isInteger (fld value ''id'') \<and> num_gt (fld value ''id'') 0"

definition titleIdentity :: "js_env \<Rightarrow> jsval \<Rightarrow> string" where
  "titleIdentity E title = js_String E (fld title ''type'') @ '':'' @ js_String E (fld title ''id'')"

definition languageCode :: "jsval \<Rightarrow> bool" where [codec_defs]:
  "languageCode value \<longleftrightarrow> strWith (re_exactly isLower 2) value"

definition countryCode :: "jsval \<Rightarrow> bool" where [codec_defs]:
  "countryCode value \<longleftrightarrow> strWith (re_exactly isUpper 2) value"

definition locator :: "jsval \<Rightarrow> bool" where [codec_defs]:
  "locator value \<longleftrightarrow> strWith (re_exactly isHexLower 32) value"

definition base64url32 :: "jsval \<Rightarrow> bool" where [codec_defs]:
  "base64url32 value \<longleftrightarrow> strWith (re_exactly isBase64url 43) value"

definition hexId :: "jsval \<Rightarrow> bool" where [codec_defs]:
  "hexId value \<longleftrightarrow> strWith (re_exactly isHexLower 32) value"

definition libraryKey :: "jsval \<Rightarrow> bool" where
  "libraryKey value \<longleftrightarrow>
     strWith (\<lambda>s. length s = 44 \<and>
       (case atob s of Some bytes \<Rightarrow> length bytes = 32 | None \<Rightarrow> False)) value"

definition ratingSource :: "jsval \<Rightarrow> bool" where [codec_defs]:
  "ratingSource value \<longleftrightarrow> oneOf [''imdb'', ''tmdb'', ''rottenTomatoes'', ''metacritic''] value"

definition reaction :: "jsval \<Rightarrow> bool" where [codec_defs]:
  "reaction value \<longleftrightarrow> oneOf [''seen'', ''dislike'', ''like'', ''love''] value"

definition standing :: "jsval \<Rightarrow> bool" where [codec_defs]:
  "standing value \<longleftrightarrow> oneOf [''watchlist'', ''in-progress'', ''watched''] value"

definition apiKeyService :: "jsval \<Rightarrow> bool" where [codec_defs]:
  "apiKeyService value \<longleftrightarrow> oneOf [''tmdb'', ''omdb'', ''content-warnings''] value"

definition mediaServer :: "jsval \<Rightarrow> bool" where [codec_defs]:
  "mediaServer value \<longleftrightarrow> oneOf [''jellyfin'', ''plex''] value"

definition isPin :: "jsval \<Rightarrow> bool" where [codec_defs]:
  "isPin value \<longleftrightarrow> strWith (re_exactly isDigit 4) value"

definition webUrl :: "js_env \<Rightarrow> jsval \<Rightarrow> bool" where
  "webUrl E value \<longleftrightarrow>
     boundedText 4096 value \<and>
     (case urlParse E (strOf value) of
        None \<Rightarrow> False
      | Some parsed \<Rightarrow> u_protocol parsed = ''http:'' \<or> u_protocol parsed = ''https:'')"

definition serviceBase :: "js_env \<Rightarrow> jsval \<Rightarrow> bool" where
  "serviceBase E value \<longleftrightarrow>
     boundedText 4096 value \<and> (prefix ''/'' (strOf value) \<or> webUrl E value)"

definition smallText :: "jsval \<Rightarrow> bool" where [codec_defs]:
  "smallText value \<longleftrightarrow> boundedText 1024 value"

definition positiveIntegerList :: "js_env \<Rightarrow> jsval \<Rightarrow> bool" where
  "positiveIntegerList E value \<longleftrightarrow>
     listOf value positiveInteger 256 \<and> unique (arrOf value) (js_String E)"

text \<open>\<open>^tt\d+$\<close>.\<close>

definition re_imdb :: "string \<Rightarrow> bool" where [codec_defs]:
  "re_imdb s \<longleftrightarrow> prefix ''tt'' s \<and> length s > 2 \<and> list_all isDigit (drop 2 s)"

definition isLibraryMetadataTitle :: "js_env \<Rightarrow> jsval \<Rightarrow> bool" where
  "isLibraryMetadataTitle E value \<longleftrightarrow>
     isRecord value \<and>
     exact value '',type,id,title,posterPath,backdropPath,year,releaseDate,rating,ratingSource,votes,popularity,countries,people,collectionId,genreIds,originalLanguage,adult,imdbId,'' \<and>
     titleRef (JObj [(''type'', fld value ''type''), (''id'', fld value ''id'')]) \<and>
     boundedText 1024 (fld value ''title'') \<and>
     optional (fld value ''posterPath'') smallText \<and>
     optional (fld value ''backdropPath'') smallText \<and>
     optional (fld value ''year'') isInteger \<and>
     optional (fld value ''releaseDate'') (strWith re_day) \<and>
     optional (fld value ''rating'') isFinite \<and>
     optional (fld value ''ratingSource'') (\<lambda>c. c = JStr ''tmdb'') \<and>
     optional (fld value ''votes'') isInteger \<and>
     optional (fld value ''popularity'') isFinite \<and>
     optional (fld value ''countries'')
       (\<lambda>c. listOf c countryCode 32 \<and> unique (arrOf c) (js_String E)) \<and>
     optional (fld value ''people'') (positiveIntegerList E) \<and>
     optional (fld value ''collectionId'') positiveInteger \<and>
     optional (fld value ''genreIds'') (positiveIntegerList E) \<and>
     optional (fld value ''originalLanguage'') languageCode \<and>
     optional (fld value ''adult'') isBool \<and>
     optional (fld value ''imdbId'') (strWith re_imdb)"

text \<open>\<open>seasons.find(({ season }) => season === lastAired.season)?.episodes\<close>, then the comparison.\<close>

definition airedWithin :: "jsval list \<Rightarrow> jsval \<Rightarrow> bool" where
  "airedWithin seasons lastAired \<longleftrightarrow>
     (case find (\<lambda>c. fld c ''season'' = fld lastAired ''season'') seasons of
        None \<Rightarrow> False
      | Some c \<Rightarrow> fld c ''episodes'' \<noteq> JUndef \<and>
          ratOf (fld lastAired ''episode'') \<le> ratOf (fld c ''episodes''))"

definition libraryMetadataShape :: "js_env \<Rightarrow> jsval \<Rightarrow> bool" where
  "libraryMetadataShape E value =
     (if \<not> isRecord value \<or>
         \<not> exact value '',title,seasons,lastAired,'' \<or>
         \<not> titleRef (fld value ''title'') \<or>
         fld (fld value ''title'') ''type'' \<noteq> JStr ''tv'' \<or>
         \<not> listOf (fld value ''seasons'')
             (\<lambda>c. isRecord c \<and> exact c '',season,episodes,'' \<and>
                  isInteger (fld c ''season'') \<and> isInteger (fld c ''episodes''))
             (shapeSeasons LIMITS) \<or>
         \<not> unique (arrOf (fld value ''seasons'')) (\<lambda>c. js_String E (fld c ''season'')) \<or>
         \<not> optional (fld value ''lastAired'')
             (\<lambda>c. isRecord c \<and> exact c '',season,episode,'' \<and>
                  positiveInteger (fld c ''season'') \<and> positiveInteger (fld c ''episode''))
      then False
      else if fld value ''lastAired'' = JUndef then True
      else airedWithin (arrOf (fld value ''seasons'')) (fld value ''lastAired''))"

definition episodeRef :: "jsval \<Rightarrow> bool" where
  "episodeRef value \<longleftrightarrow>
     isRecord value \<and> exact value '',type,id,season,episode,'' \<and>
     fld value ''type'' = JStr ''tv'' \<and>
     isInteger (fld value ''id'') \<and> num_gt (fld value ''id'') 0 \<and>
     isInteger (fld value ''season'') \<and>
     isInteger (fld value ''episode'') \<and> num_gt (fld value ''episode'') 0"

definition downloadTarget :: "jsval \<Rightarrow> bool" where
  "downloadTarget value \<longleftrightarrow>
     titleRef value \<and> fld value ''type'' = JStr ''movie'' \<or> episodeRef value"

section \<open>What the page retains for its next start\<close>

definition retainedBillboardScope :: "jsval \<Rightarrow> bool" where
  "retainedBillboardScope value \<longleftrightarrow>
     isRecord value \<and> exact value '',kind,facet,fresh,'' \<and>
     oneOf [''shared'', ''personal''] (fld value ''kind'') \<and>
     (fld value ''facet'' = JNull \<or> oneOf [''movie'', ''tv''] (fld value ''facet'')) \<and>
     isBool (fld value ''fresh'')"

definition retainedBillboardWhy :: "jsval \<Rightarrow> bool" where
  "retainedBillboardWhy why \<longleftrightarrow>
     isRecord why \<and>
     exact why '',score,fit,similar,profile,people,confidence,fresh,arrived,quality,buzz,reason,'' \<and>
     optional (fld why ''score'') isFinite \<and>
     optional (fld why ''fit'') isFinite \<and>
     optional (fld why ''similar'') (\<lambda>c. nullable c isFinite) \<and>
     optional (fld why ''profile'') isFinite \<and>
     optional (fld why ''people'') isFinite \<and>
     optional (fld why ''confidence'') isFinite \<and>
     optional (fld why ''fresh'') isFinite \<and>
     optional (fld why ''arrived'') isFinite \<and>
     optional (fld why ''quality'') isFinite \<and>
     optional (fld why ''buzz'') isFinite \<and>
     optional (fld why ''reason'') smallText"

definition retainedBillboardTitle :: "js_env \<Rightarrow> jsval \<Rightarrow> bool" where
  "retainedBillboardTitle E value =
     (if \<not> isRecord value \<or>
         \<not> exact value '',type,id,title,posterPath,posterUrl,backdropPath,year,releaseDate,rating,ratingSource,votes,popularity,countries,people,collectionId,genreIds,primaryGenreName,likely,originalLanguage,adult,imdbId,arrivesAt,services,why,'' \<or>
         \<not> titleRef (JObj [(''type'', fld value ''type''), (''id'', fld value ''id'')]) \<or>
         \<not> smallText (fld value ''title'') \<or>
         \<not> optional (fld value ''posterPath'') smallText \<or>
         \<not> optional (fld value ''posterUrl'') (webUrl E) \<or>
         \<not> optional (fld value ''backdropPath'') smallText \<or>
         \<not> optional (fld value ''year'') isInteger \<or>
         \<not> optional (fld value ''releaseDate'') (strWith re_day) \<or>
         \<not> optional (fld value ''rating'') isFinite \<or>
         \<not> optional (fld value ''ratingSource'') (oneOf [''tmdb'', ''justwatch-imdb'']) \<or>
         \<not> optional (fld value ''votes'') isInteger \<or>
         \<not> optional (fld value ''popularity'') isFinite \<or>
         \<not> optional (fld value ''countries'')
             (\<lambda>c. listOf c countryCode 32 \<and> unique (arrOf c) (js_String E)) \<or>
         \<not> optional (fld value ''people'') (positiveIntegerList E) \<or>
         \<not> optional (fld value ''collectionId'') positiveInteger \<or>
         \<not> optional (fld value ''genreIds'') (positiveIntegerList E) \<or>
         \<not> optional (fld value ''primaryGenreName'') smallText \<or>
         \<not> optional (fld value ''likely'') isBool \<or>
         \<not> optional (fld value ''originalLanguage'') languageCode \<or>
         \<not> optional (fld value ''adult'') isBool \<or>
         \<not> optional (fld value ''imdbId'') (strWith re_imdb) \<or>
         \<not> optional (fld value ''arrivesAt'') isInteger \<or>
         \<not> optional (fld value ''services'')
             (\<lambda>c. listOf c smallText 64 \<and> unique (arrOf c) (js_String E))
      then False
      else if fld value ''why'' = JUndef then True
      else retainedBillboardWhy (fld value ''why''))"

definition isRetainedBillboard :: "js_env \<Rightarrow> jsval \<Rightarrow> bool" where
  "isRetainedBillboard E value \<longleftrightarrow>
     isRecord value \<and>
     (fld value ''kind'' = JStr ''shared'' \<and> exact value '',kind,titles,'' \<or>
      fld value ''kind'' = JStr ''personal'' \<and> exact value '',kind,at,titles,'' \<and>
        isInteger (fld value ''at'')) \<and>
     listOf (fld value ''titles'') (retainedBillboardTitle E) (retainedTitles LIMITS)"

text \<open>\<open>^[a-z][a-z0-9-]*$\<close>.\<close>

definition re_service :: "string \<Rightarrow> bool" where [codec_defs]:
  "re_service s \<longleftrightarrow>
     (case s of [] \<Rightarrow> False
      | c # cs \<Rightarrow> isLower c \<and> list_all (\<lambda>x. isLower x \<or> isDigit x \<or> x = CHR ''-'') cs)"

definition retainedAddon :: "js_env \<Rightarrow> jsval \<Rightarrow> bool" where
  "retainedAddon E candidate \<longleftrightarrow>
     isRecord candidate \<and> exact candidate '',install,base,'' \<and>
     webUrl E (fld candidate ''install'') \<and> serviceBase E (fld candidate ''base'')"

definition isRetainedServices :: "js_env \<Rightarrow> jsval \<Rightarrow> bool" where
  "isRetainedServices E value =
     (if \<not> isRecord value \<or>
         \<not> exact value '',routes,scout,atlas,reel,remux,'' \<or>
         \<not> isRecord (fld value ''routes'') \<or>
         length (keysOf (fld value ''routes'')) > routeServices LIMITS
      then False
      else
        list_all (\<lambda>(name, entries).
            re_service name \<and>
            listOf entries
              (\<lambda>entry. isRecord entry \<and> exact entry '',url,access,'' \<and>
                 webUrl E (fld entry ''url'') \<and> optional (fld entry ''access'') isBool)
              (routeEntries LIMITS))
          (entriesOf (fld value ''routes'')) \<and>
        nullable (fld value ''scout'') (retainedAddon E) \<and>
        nullable (fld value ''atlas'') (serviceBase E) \<and>
        nullable (fld value ''reel'') (serviceBase E) \<and>
        nullable (fld value ''remux'') (serviceBase E))"

section \<open>Downloads, stamps and settings\<close>

definition downloadTitle :: "jsval \<Rightarrow> bool" where
  "downloadTitle value \<longleftrightarrow>
     isRecord value \<and>
     exact value '',target,name,imdbId,posterPath,stillPath,originalLanguage,airDate,'' \<and>
     downloadTarget (fld value ''target'') \<and>
     boundedText 1024 (fld value ''name'') \<and>
     optional (fld value ''imdbId'') (boundedText 128) \<and>
     optional (fld value ''posterPath'') (boundedText 2048) \<and>
     optional (fld value ''stillPath'') (boundedText 2048) \<and>
     optional (fld value ''originalLanguage'') languageCode \<and>
     optional (fld value ''airDate'') (\<lambda>c. isInteger c \<and> num_ge c 0)"

definition downloadRelease :: "jsval \<Rightarrow> bool" where
  "downloadRelease value \<longleftrightarrow>
     isRecord value \<and>
     exact value '',identity,label,sizeBytes,cached,'' \<and>
     boundedText 4096 (fld value ''identity'') \<and>
     boundedText 4096 (fld value ''label'') \<and>
     optional (fld value ''sizeBytes'') (\<lambda>c. isInteger c \<and> num_gt c 0) \<and>
     optional (fld value ''cached'') isBool"

definition serviceRef :: "jsval \<Rightarrow> bool" where
  "serviceRef value \<longleftrightarrow>
     isRecord value \<and> exact value '',id,country,'' \<and>
     isInteger (fld value ''id'') \<and> num_gt (fld value ''id'') 0 \<and>
     countryCode (fld value ''country'')"

definition serviceKey :: "js_env \<Rightarrow> jsval \<Rightarrow> string" where
  "serviceKey E service =
     js_String E (fld service ''id'') @ ''@'' @ js_String E (fld service ''country'')"

definition legacyClock :: "jsval \<Rightarrow> bool" where
  "legacyClock value \<longleftrightarrow>
     isRecord value \<and> exact value '',device,last,'' \<and>
     optional (fld value ''device'') (strWith (re_exactly isHexLower 16)) \<and>
     optional (fld value ''last'')
       (\<lambda>c. case c of
              JArr [t, n, d] \<Rightarrow> isInteger t \<and> isInteger n \<and> isText d
            | _ \<Rightarrow> False)"

definition configValue :: "jsval \<Rightarrow> bool" where
  "configValue value =
     (if value = JNull then True
      else if \<not> isRecord value then False
      else if exact value '',bool,'' then isBool (fld value ''bool'')
      else if exact value '',int,'' then isSafeInteger (fld value ''int'')
      else if exact value '',string,'' then strWith (\<lambda>_. True) (fld value ''string'')
      else if exact value '',ints,'' then listOf (fld value ''ints'') isSafeInteger 256
      else exact value '',strings,'' \<and> listOf (fld value ''strings'') (strWith (\<lambda>_. True)) 256)"

definition libraryStamp :: "jsval \<Rightarrow> bool" where
  "libraryStamp value \<longleftrightarrow>
     (case value of
        JArr [t, n, d] \<Rightarrow> isInteger t \<and> isInteger n \<and> strWith (\<lambda>s. length s \<le> 256) d
      | _ \<Rightarrow> False)"

definition storedPreferenceValues :: "jsval \<Rightarrow> bool" where
  "storedPreferenceValues value \<longleftrightarrow>
     isRecord value \<and>
     length (keysOf value) \<le> 256 \<and>
     list_all (\<lambda>(key, stamped).
         boundedText 256 (JStr key) \<and>
         isRecord stamped \<and>
         exact stamped '',value,at,'' \<and>
         configValue (fld stamped ''value'') \<and>
         acceptsProfilePreference key (fld stamped ''value'') \<and>
         libraryStamp (fld stamped ''at''))
       (entriesOf value)"

definition subtitlePreference :: "jsval \<Rightarrow> bool" where
  "subtitlePreference candidate \<longleftrightarrow>
     isRecord candidate \<and>
     (exact candidate '',mode,'' \<and> oneOf [''automatic'', ''off''] (fld candidate ''mode'') \<or>
      exact candidate '',mode,language,'' \<and> fld candidate ''mode'' = JStr ''language'' \<and>
        languageCode (fld candidate ''language''))"

definition preferencesPatch :: "js_env \<Rightarrow> jsval \<Rightarrow> bool" where
  "preferencesPatch E value =
     (if \<not> isRecord value \<or>
         \<not> list_ex (\<lambda>p. snd p \<noteq> JUndef) (entriesOf value) \<or>
         \<not> exact value '',interfaceLanguage,excludedGenres,excludedLanguages,hideAnime,hideWatched,minReleaseYear,audioLanguage,subtitlePreference,shownSubtitleLanguages,subtitlesPerLanguage,autoSkipSegments,autoplayTrailers,ratingSources,shownWarnings,watchRegion,services,maturityCeiling,''
      then False
      else
        (let genres = fld value ''excludedGenres'';
             excludedLanguages = fld value ''excludedLanguages'';
             shownSubtitleLanguages = fld value ''shownSubtitleLanguages'';
             shownWarnings = fld value ''shownWarnings'';
             sources = fld value ''ratingSources'';
             services = fld value ''services'' in
         optional (fld value ''interfaceLanguage'') (oneOf [''en'', ''es'', ''sv'']) \<and>
         (genres = JUndef \<or>
            listOf genres (\<lambda>c. isInteger c \<and> num_gt c 0) PROFILE_GENRE_LIMIT \<and>
            unique (arrOf genres) (js_String E)) \<and>
         (excludedLanguages = JUndef \<or>
            listOf excludedLanguages languageCode PROFILE_LANGUAGE_LIMIT \<and>
            unique (arrOf excludedLanguages) (js_String E)) \<and>
         optional (fld value ''hideAnime'') isBool \<and>
         optional (fld value ''hideWatched'') isBool \<and>
         (fld value ''minReleaseYear'' = JUndef \<or> fld value ''minReleaseYear'' = JNull \<or>
            isInteger (fld value ''minReleaseYear'') \<and>
            num_ge (fld value ''minReleaseYear'') PROFILE_MIN_YEAR \<and>
            num_le (fld value ''minReleaseYear'') PROFILE_MAX_YEAR) \<and>
         optional (fld value ''audioLanguage'') (\<lambda>c. nullable c languageCode) \<and>
         optional (fld value ''subtitlePreference'') subtitlePreference \<and>
         (shownSubtitleLanguages = JUndef \<or>
            listOf shownSubtitleLanguages languageCode PROFILE_LANGUAGE_LIMIT \<and>
            unique (arrOf shownSubtitleLanguages) (js_String E)) \<and>
         (fld value ''subtitlesPerLanguage'' = JUndef \<or>
            isProfileSubtitleLimit (fld value ''subtitlesPerLanguage'')) \<and>
         optional (fld value ''autoSkipSegments'') isBool \<and>
         optional (fld value ''autoplayTrailers'') isBool \<and>
         (sources = JUndef \<or>
            isRecord sources \<and>
            (exact sources '',kind,'' \<and> fld sources ''kind'' = JStr ''default'' \<or>
             exact sources '',kind,values,'' \<and> fld sources ''kind'' = JStr ''values'' \<and>
             listOf (fld sources ''values'') ratingSource (length PROFILE_RATING_SOURCES) \<and>
             unique (arrOf (fld sources ''values'')) (js_String E))) \<and>
         (shownWarnings = JUndef \<or>
            listOf shownWarnings (strWith (\<lambda>s. s \<in> set PROFILE_WARNING_CATEGORIES))
              (length PROFILE_WARNING_CATEGORIES) \<and>
            unique (arrOf shownWarnings) (js_String E)) \<and>
         optional (fld value ''watchRegion'') (\<lambda>c. nullable c countryCode) \<and>
         (services = JUndef \<or>
            isRecord services \<and>
            (exact services '',kind,'' \<and> fld services ''kind'' = JStr ''default'' \<or>
             exact services '',kind,values,'' \<and> fld services ''kind'' = JStr ''values'' \<and>
             listOf (fld services ''values'') serviceRef PROFILE_SERVICE_LIMIT \<and>
             unique (arrOf (fld services ''values'')) (serviceKey E))) \<and>
         (fld value ''maturityCeiling'' = JUndef \<or> fld value ''maturityCeiling'' = JNull \<or>
            oneOf [''pg13'', ''r''] (fld value ''maturityCeiling''))))"

section \<open>Commands, selections and queries\<close>

text \<open>An episode named beside a title belongs to that title, which is a series.\<close>

definition episodeOfTitle :: "jsval \<Rightarrow> bool" where
  "episodeOfTitle value \<longleftrightarrow>
     fld value ''episode'' = JUndef \<or>
     fld (fld value ''title'') ''type'' = JStr ''tv'' \<and>
     fld (fld value ''episode'') ''id'' = fld (fld value ''title'') ''id''"

definition seasonWatched :: "js_env \<Rightarrow> jsval \<Rightarrow> bool" where
  "seasonWatched E value =
     (if \<not> exact value '',kind,title,season,episodes,watched,'' \<or>
         \<not> titleRef (fld value ''title'') \<or>
         fld (fld value ''title'') ''type'' \<noteq> JStr ''tv'' \<or>
         \<not> isInteger (fld value ''season'') \<or>
         \<not> listOf (fld value ''episodes'') (\<lambda>c. isInteger c \<and> num_gt c 0) (seasonEpisodes LIMITS) \<or>
         \<not> unique (arrOf (fld value ''episodes'')) (js_String E) \<or>
         \<not> isBool (fld value ''watched'')
      then False else True)"

definition progressRecord :: "jsval \<Rightarrow> bool" where
  "progressRecord value \<longleftrightarrow>
     exact value '',kind,title,episode,fraction,seconds,playing,observedAt,'' \<and>
     titleRef (fld value ''title'') \<and>
     optional (fld value ''episode'') episodeRef \<and>
     episodeOfTitle value \<and>
     isFinite (fld value ''fraction'') \<and>
     num_ge (fld value ''fraction'') 0 \<and> num_le (fld value ''fraction'') 1 \<and>
     isFinite (fld value ''seconds'') \<and> num_ge (fld value ''seconds'') 0 \<and>
     optional (fld value ''playing'') isBool \<and>
     isInteger (fld value ''observedAt'')"

definition serverPatch :: "js_env \<Rightarrow> jsval \<Rightarrow> bool" where
  "serverPatch E value \<longleftrightarrow>
     exact value '',kind,server,value,'' \<and>
     mediaServer (fld value ''server'') \<and>
     nullable (fld value ''value'')
       (\<lambda>c. isRecord c \<and> exact c '',url,user,credential,'' \<and>
            webUrl E (fld c ''url'') \<and>
            optional (fld c ''user'') (boundedText 4096) \<and>
            optional (fld c ''credential'') (boundedText 16384) \<and>
            (fld value ''server'' = JStr ''jellyfin'' \<or> fld c ''user'' = JUndef))"

definition deviceHeartbeat :: "jsval \<Rightarrow> bool" where
  "deviceHeartbeat value \<longleftrightarrow>
     exact value '',kind,name,deviceKind,playKey,controlVersion,'' \<and>
     boundedText 256 (fld value ''name'') \<and>
     optional (fld value ''deviceKind'') (oneOf [''tv'', ''browser'']) \<and>
     optional (fld value ''playKey'') (strWith (re_exactly isBase64url 43)) \<and>
     optional (fld value ''controlVersion'') (\<lambda>c. isInteger c \<and> num_gt c 0)"

definition command :: "js_env \<Rightarrow> jsval \<Rightarrow> bool" where
  "command E value =
    (if \<not> isRecord value \<or> \<not> isText (fld value ''kind'') then False
     else let kind = strOf (fld value ''kind'') in
     if kind = ''watchlist.add'' \<or> kind = ''library.remove'' then
       exact value '',kind,title,'' \<and> titleRef (fld value ''title'')
     else if kind = ''watched.set'' then
       exact value '',kind,title,watched,'' \<and> titleRef (fld value ''title'') \<and>
       isBool (fld value ''watched'')
     else if kind = ''reaction.set'' then
       exact value '',kind,title,reaction,'' \<and> titleRef (fld value ''title'') \<and>
       nullable (fld value ''reaction'') reaction
     else if kind = ''episode-watched.set'' then
       exact value '',kind,episode,watched,'' \<and> episodeRef (fld value ''episode'') \<and>
       isBool (fld value ''watched'')
     else if kind = ''season-watched.set'' then seasonWatched E value
     else if kind = ''continue-dismissed.set'' then
       exact value '',kind,title,dismissed,'' \<and> titleRef (fld value ''title'') \<and>
       isBool (fld value ''dismissed'')
     else if kind = ''progress.record'' then progressRecord value
     else if kind = ''preferences.patch'' then
       exact value '',kind,patch,'' \<and> preferencesPatch E (fld value ''patch'')
     else if kind = ''preferences.seed'' then
       exact value '',kind,household,'' \<and> storedPreferenceValues (fld value ''household'')
     else if kind = ''api-key.set'' then
       exact value '',kind,service,value,'' \<and> apiKeyService (fld value ''service'') \<and>
       nullable (fld value ''value'') (boundedText 16384)
     else if kind = ''parental-pin.set'' then
       exact value '',kind,pin,'' \<and> nullable (fld value ''pin'') isPin
     else if kind = ''remote-access.set'' then
       exact value '',kind,credentials,'' \<and>
       nullable (fld value ''credentials'')
         (\<lambda>c. isRecord c \<and> exact c '',clientId,clientSecret,'' \<and>
              boundedText 4096 (fld c ''clientId'') \<and> boundedText 4096 (fld c ''clientSecret''))
     else if kind = ''plugin.install'' \<or> kind = ''plugin.remove'' then
       exact value '',kind,manifestUrl,'' \<and> webUrl E (fld value ''manifestUrl'')
     else if kind = ''plugin-trust.set'' then
       exact value '',kind,manifestUrl,publicKey,'' \<and> webUrl E (fld value ''manifestUrl'') \<and>
       nullable (fld value ''publicKey'') (boundedText 256)
     else if kind = ''server.patch'' then serverPatch E value
     else if kind = ''device.heartbeat'' then deviceHeartbeat value
     else if kind = ''device.played'' then exact value '',kind,''
     else if kind = ''device.remove'' then
       exact value '',kind,deviceId,'' \<and>
       strWith (re_between (\<lambda>c. isDigit c \<or> isLower c \<or> isUpper c) 1 128) (fld value ''deviceId'')
     else if kind = ''simkl.connect'' then
       exact value '',kind,token,'' \<and> boundedText 16384 (fld value ''token'')
     else if kind = ''simkl.disconnect'' then exact value '',kind,''
     else if kind = ''simkl.removals.approve'' then
       exact value '',kind,approvalId,'' \<and> boundedText 256 (fld value ''approvalId'')
     else if kind = ''discovery.remux.remember'' then
       exact value '',kind,url,'' \<and> webUrl E (fld value ''url'')
     else if kind = ''retained.services.set'' then
       exact value '',kind,value,'' \<and> isRetainedServices E (fld value ''value'')
     else if kind = ''retained.home-continue.set'' then
       exact value '',kind,present,'' \<and> isBool (fld value ''present'')
     else if kind = ''retained.billboard.set'' then
       exact value '',kind,scope,value,'' \<and> retainedBillboardScope (fld value ''scope'') \<and>
       isRetainedBillboard E (fld value ''value'') \<and>
       fld (fld value ''scope'') ''kind'' = fld (fld value ''value'') ''kind''
     else if kind = ''download.enqueue'' then
       exact value '',kind,title,release,candidates,'' \<and> downloadTitle (fld value ''title'') \<and>
       downloadRelease (fld value ''release'') \<and>
       optional (fld value ''candidates'') (\<lambda>c. isInteger c \<and> num_gt c 0)
     else if kind = ''download.want'' then
       exact value '',kind,title,'' \<and> downloadTitle (fld value ''title'')
     else if kind = ''download.remove'' then
       exact value '',kind,target,'' \<and> downloadTarget (fld value ''target'')
     else if kind = ''download.release.try'' then
       exact value '',kind,target,identity,'' \<and> downloadTarget (fld value ''target'') \<and>
       boundedText 4096 (fld value ''identity'')
     else False)"

definition selection :: "js_env \<Rightarrow> jsval \<Rightarrow> bool" where
  "selection E value =
    (if \<not> isRecord value \<or> \<not> isText (fld value ''kind'') then False
     else let kind = strOf (fld value ''kind'') in
     if kind \<in> {''overview'', ''watchlist'', ''recommendations'', ''continue'', ''history'',
                ''settings'', ''devices'', ''connections'', ''simkl'', ''recovery'', ''runtime'',
                ''profiles'', ''downloads''}
     then exact value '',kind,''
     else if kind = ''title'' then exact value '',kind,title,'' \<and> titleRef (fld value ''title'')
     else if kind = ''presence'' then
       (if \<not> exact value '',kind,titles,'' \<or>
           \<not> listOf (fld value ''titles'') titleRef (presenceTitles LIMITS)
        then False
        else unique (arrOf (fld value ''titles'')) (titleIdentity E))
     else False)"

definition historyFilter :: "jsval \<Rightarrow> bool" where
  "historyFilter value \<longleftrightarrow>
     isRecord value \<and> exact value '',type,year,'' \<and>
     optional (fld value ''type'') (oneOf [''movie'', ''tv'']) \<and>
     optional (fld value ''year'') (strWith (\<lambda>s. s = ''unknown'' \<or> re_between isDigit 4 6 s))"

text \<open>\<open>^[0-9a-f]{8}\.[A-Za-z0-9_-]{22}$\<close>.\<close>

definition re_grantTicket :: "string \<Rightarrow> bool" where [codec_defs]:
  "re_grantTicket s \<longleftrightarrow>
     length s = 31 \<and> list_all isHexLower (take 8 s) \<and> s ! 8 = CHR ''.'' \<and>
     list_all isBase64url (drop 9 s)"

definition pairingHandover :: "jsval \<Rightarrow> bool" where
  "pairingHandover value \<longleftrightarrow>
     exact value '',kind,handoverKey,host,linkKey,grantTicket,'' \<and>
     base64url32 (fld value ''handoverKey'') \<and>
     boundedText 256 (fld value ''host'') \<and>
     optional (fld value ''linkKey'') base64url32 \<and>
     optional (fld value ''grantTicket'') (\<lambda>t. isText t \<and> strWith re_grantTicket t)"

definition query :: "js_env \<Rightarrow> jsval \<Rightarrow> bool" where
  "query E value =
    (if \<not> isRecord value \<or> \<not> isText (fld value ''kind'') then False
     else let kind = strOf (fld value ''kind'') in
     if kind = ''parental-pin.verify'' then exact value '',kind,pin,'' \<and> isPin (fld value ''pin'')
     else if kind = ''relay.membership'' then exact value '',kind,''
     else if kind = ''key-reset.prepare'' then exact value '',kind,''
     else if kind = ''history.export'' then exact value '',kind,''
     else if kind = ''history.page'' then
       exact value '',kind,revision,filter,cursor,limit,'' \<and>
       isText (fld value ''revision'') \<and>
       historyFilter (fld value ''filter'') \<and>
       optional (fld value ''cursor'') isText \<and>
       optional (fld value ''limit'') (\<lambda>c. positiveInteger c \<and> num_le c 96)
     else if kind = ''history.episodes'' then
       exact value '',kind,revision,titles,'' \<and>
       isText (fld value ''revision'') \<and>
       listOf (fld value ''titles'') titleRef (historyDetailTitles LIMITS) \<and>
       list_all (\<lambda>t. fld t ''type'' = JStr ''tv'') (arrOf (fld value ''titles'')) \<and>
       unique (arrOf (fld value ''titles'')) (titleIdentity E)
     else if kind = ''assistant.grants'' then exact value '',kind,''
     else if kind = ''assistant.connection'' then exact value '',kind,''
     else if kind = ''profile-create.status'' then exact value '',kind,''
     else if kind = ''recovery.seal'' then
       exact value '',kind,locator,wrapKey,createdAt,'' \<and>
       locator (fld value ''locator'') \<and>
       base64url32 (fld value ''wrapKey'') \<and>
       isInteger (fld value ''createdAt'')
     else if kind = ''pairing.handover'' then pairingHandover value
     else if kind = ''download.refresh'' then
       exact value '',kind,target,'' \<and> optional (fld value ''target'') downloadTarget
     else if kind = ''download.sources'' then
       exact value '',kind,title,fresh,refresh,early,'' \<and>
       downloadTitle (fld value ''title'') \<and>
       optional (fld value ''refresh'') isBool \<and>
       optional (fld value ''fresh'') isBool \<and>
       optional (fld value ''early'') isBool
     else if kind = ''download.artwork'' then
       exact value '',kind,target,'' \<and> downloadTarget (fld value ''target'')
     else if kind = ''preferences.raw'' \<or> kind = ''retained.services.get'' \<or>
             kind = ''retained.home-continue.get''
       then exact value '',kind,''
     else if kind = ''retained.billboard.get'' then
       exact value '',kind,scope,'' \<and> retainedBillboardScope (fld value ''scope'')
     else if kind = ''library.metadata'' then
       exact value '',kind,titles,'' \<and>
       listOf (fld value ''titles'') titleRef (libraryMetadataTitles LIMITS) \<and>
       unique (arrOf (fld value ''titles'')) (titleIdentity E)
     else
       kind = ''playback.prepare'' \<and>
       exact value '',kind,title,episode,'' \<and>
       titleRef (fld value ''title'') \<and>
       optional (fld value ''episode'') episodeRef \<and>
       episodeOfTitle value)"

section \<open>Tasks and observations\<close>

definition relayMembership :: "jsval \<Rightarrow> bool" where
  "relayMembership value \<longleftrightarrow>
     nullable value
       (\<lambda>c. isRecord c \<and> exact c '',libraryId,memberToken,'' \<and>
            strWith (re_exactly isHexLower 32) (fld c ''libraryId'') \<and>
            strWith (re_exactly isHexLower 64) (fld c ''memberToken''))"

definition ASSISTANT_CONNECTION_ROWS :: "string list" where
  "ASSISTANT_CONNECTION_ROWS =
     [''assistant'', ''assistant-grants'', ''assistant-read'', ''assistant-play'']"

definition assistantConnectionValues :: "js_env \<Rightarrow> jsval \<Rightarrow> bool" where
  "assistantConnectionValues E value \<longleftrightarrow>
     isRecord value \<and>
     length (keysOf value) \<le> collectionItems LIMITS \<and>
     list_all (\<lambda>(key, stamped).
         boundedText 256 (JStr key) \<and>
         isRecord stamped \<and>
         hasKey stamped ''value'' \<and>
         (case fld stamped ''at'' of JArr _ \<Rightarrow> True | _ \<Rightarrow> False) \<and>
         (case stringify E stamped of Some t \<Rightarrow> length t \<le> 16384 | None \<Rightarrow> False))
       (entriesOf value)"

definition assistantConnection :: "js_env \<Rightarrow> jsval \<Rightarrow> bool" where
  "assistantConnection E value \<longleftrightarrow>
     isRecord value \<and>
     exact value '',member,rows,revoked,'' \<and>
     fld value ''member'' \<noteq> JNull \<and>
     relayMembership (fld value ''member'') \<and>
     listOf (fld value ''rows'')
       (\<lambda>row. isRecord row \<and> exact row '',kind,schema,name,values,'' \<and>
          fld row ''kind'' = JStr ''set'' \<and>
          isInteger (fld row ''schema'') \<and>
          strWith (\<lambda>s. s \<in> set ASSISTANT_CONNECTION_ROWS) (fld row ''name'') \<and>
          assistantConnectionValues E (fld row ''values''))
       (length ASSISTANT_CONNECTION_ROWS) \<and>
     unique (arrOf (fld value ''rows'')) (\<lambda>row. js_String E (fld row ''name'')) \<and>
     listOf (fld value ''revoked'') hexId (collectionItems LIMITS)"

definition ASSISTANT_DRAIN_MAX :: nat where [codec_defs]: "ASSISTANT_DRAIN_MAX = 200"

definition importItem :: "jsval \<Rightarrow> bool" where
  "importItem candidate \<longleftrightarrow>
     isRecord candidate \<and>
     exact candidate '',title,watchedAt,episodes,complete,'' \<and>
     titleRef (fld candidate ''title'') \<and>
     optional (fld candidate ''watchedAt'') isInteger \<and>
     optional (fld candidate ''episodes'')
       (\<lambda>episodes. listAny episodes
          (\<lambda>episode. isRecord episode \<and> exact episode '',season,episode,watchedAt,'' \<and>
             isInteger (fld episode ''season'') \<and>
             isInteger (fld episode ''episode'') \<and> num_gt (fld episode ''episode'') 0 \<and>
             isInteger (fld episode ''watchedAt''))) \<and>
     optional (fld candidate ''complete'') isBool \<and>
     (if fld (fld candidate ''title'') ''type'' = JStr ''movie''
      then fld candidate ''watchedAt'' \<noteq> JUndef \<and> fld candidate ''episodes'' = JUndef
      else fld candidate ''watchedAt'' = JUndef \<and> fld candidate ''episodes'' \<noteq> JUndef)"

text \<open>\<open>item.episodes?.length ?? 1\<close>, summed.\<close>

definition importSize :: "jsval list \<Rightarrow> nat" where
  "importSize items =
     foldl (\<lambda>total item. total + (case fld item ''episodes'' of
              JArr episodes \<Rightarrow> length episodes | _ \<Rightarrow> 1)) 0 items"

definition historyImport :: "jsval \<Rightarrow> bool" where
  "historyImport value =
     (if \<not> exact value '',kind,items,'' \<or>
         \<not> listOf (fld value ''items'') importItem (importItems LIMITS)
      then False
      else importSize (arrOf (fld value ''items'')) \<le> importItems LIMITS)"

definition isTrue :: "jsval \<Rightarrow> bool" where [codec_defs]:
  "isTrue value \<longleftrightarrow> value = JBool True"

definition ageUpTo18 :: "jsval \<Rightarrow> bool" where [codec_defs]:
  "ageUpTo18 value \<longleftrightarrow> isInteger value \<and> num_ge value 0 \<and> num_le value 18"

definition assistantApply :: "js_env \<Rightarrow> jsval \<Rightarrow> bool" where
  "assistantApply E value \<longleftrightarrow>
     exact value '',kind,messages,connection,tv,'' \<and>
     optional (fld value ''connection'') (assistantConnection E) \<and>
     optional (fld value ''tv'')
       (\<lambda>tv. isRecord tv \<and> exact tv '',awakeSince,'' \<and> isInteger (fld tv ''awakeSince'')) \<and>
     listOf (fld value ''messages'')
       (\<lambda>m. isRecord m \<and> exact m '',seq,sealed,'' \<and> isInteger (fld m ''seq'') \<and>
            boundedText 4096 (fld m ''sealed''))
       ASSISTANT_DRAIN_MAX"

definition task :: "js_env \<Rightarrow> jsval \<Rightarrow> bool" where
  "task E value =
    (if \<not> isRecord value \<or> \<not> isText (fld value ''kind'') then False
     else let kind = strOf (fld value ''kind'') in
     if kind = ''recovery.begin'' then
       exact value '',kind,locator,sealed,createdAt,'' \<and> locator (fld value ''locator'') \<and>
       boundedText 4096 (fld value ''sealed'') \<and> isInteger (fld value ''createdAt'')
     else if kind = ''recovery.confirm'' \<or> kind = ''recovery.abandon'' then
       exact value '',kind,locator,'' \<and> locator (fld value ''locator'')
     else if kind = ''recovery.disable'' then exact value '',kind,''
     else if kind = ''history.import'' then historyImport value
     else if kind = ''local-library.merge'' then
       exact value '',kind,sourceLibraryKey,scope,keep,verify,'' \<and>
       libraryKey (fld value ''sourceLibraryKey'') \<and>
       optional (fld value ''scope'') (oneOf [''household'', ''profile'']) \<and>
       optional (fld value ''keep'') isTrue \<and>
       optional (fld value ''verify'') isTrue
     else if kind = ''household.create'' then
       exact value '',kind,householdKey,attempt,ownerProfile,ownerKey,createdAt,ifKept,'' \<and>
       libraryKey (fld value ''householdKey'') \<and>
       hexId (fld value ''attempt'') \<and>
       hexId (fld value ''ownerProfile'') \<and>
       libraryKey (fld value ''ownerKey'') \<and>
       fld value ''ownerKey'' \<noteq> fld value ''householdKey'' \<and>
       isInteger (fld value ''createdAt'') \<and>
       optional (fld value ''ifKept'') isTrue
     else if kind = ''profile.create-default'' then exact value '',kind,''
     else if kind = ''household.join'' then
       exact value '',kind,sourceLibraryKey,pin,'' \<and>
       libraryKey (fld value ''sourceLibraryKey'') \<and> optional (fld value ''pin'') isPin
     else if kind = ''key-reset.move'' \<or> kind = ''key-reset.settle'' \<or> kind = ''key-reset.adopt'' then
       exact value '',kind,destinationLibraryKey,'' \<and> libraryKey (fld value ''destinationLibraryKey'')
     else if kind = ''assistant.consent'' then
       exact value '',kind,client,write,read,'' \<and> boundedText 80 (fld value ''client'') \<and>
       isBool (fld value ''write'') \<and> isBool (fld value ''read'')
     else if kind = ''assistant.revoke'' then
       exact value '',kind,grant,'' \<and> hexId (fld value ''grant'')
     else if kind = ''assistant.publish'' then
       exact value '',kind,connection,'' \<and> optional (fld value ''connection'') (assistantConnection E)
     else if kind = ''assistant.renew'' then
       exact value '',kind,grants,'' \<and>
       listOf (fld value ''grants'') hexId (collectionItems LIMITS)
     else if kind = ''assistant.apply'' then assistantApply E value
     else if kind = ''profile.create'' then
       exact value '',kind,name,maximumAge,pin,'' \<and> boundedScalarText 64 (fld value ''name'') \<and>
       ageUpTo18 (fld value ''maximumAge'') \<and> isPin (fld value ''pin'')
     else if kind = ''profile.create.ack'' then
       exact value '',kind,receipt,'' \<and> boundedText 256 (fld value ''receipt'')
     else if kind = ''profile.policy.set'' then
       exact value '',kind,profile,maximumAge,unknownRatings,pin,'' \<and>
       hexId (fld value ''profile'') \<and>
       (fld value ''maximumAge'' = JNull \<or> ageUpTo18 (fld value ''maximumAge'')) \<and>
       oneOf [''allow'', ''block''] (fld value ''unknownRatings'') \<and>
       isPin (fld value ''pin'')
     else if kind = ''kid-title-approval.set'' then
       exact value '',kind,profile,title,allow,pin,'' \<and> hexId (fld value ''profile'') \<and>
       titleRef (fld value ''title'') \<and> isBool (fld value ''allow'') \<and> isPin (fld value ''pin'')
     else if kind = ''profile-key-reset.start'' then
       exact value '',kind,pin,destinationLibraryKey,'' \<and> isPin (fld value ''pin'') \<and>
       libraryKey (fld value ''destinationLibraryKey'')
     else if kind = ''profile-key-reset.resume'' then exact value '',kind,''
     else if kind = ''profile-key-reset.confirm'' then
       exact value '',kind,destinationLibraryKey,'' \<and> libraryKey (fld value ''destinationLibraryKey'')
     else if kind = ''profile-key-reset.recover'' then
       exact value '',kind,pin,recoveryAttempt,successorKey,'' \<and> isPin (fld value ''pin'') \<and>
       hexId (fld value ''recoveryAttempt'') \<and> nullable (fld value ''successorKey'') libraryKey
     else False)"

definition titleShape :: "js_env \<Rightarrow> jsval \<Rightarrow> bool" where
  "titleShape E value =
     (if \<not> exact value '',kind,title,seasons,lastAired,'' \<or>
         \<not> titleRef (fld value ''title'') \<or>
         fld (fld value ''title'') ''type'' \<noteq> JStr ''tv'' \<or>
         \<not> listOf (fld value ''seasons'')
             (\<lambda>c. isRecord c \<and> exact c '',season,episodes,'' \<and>
                  isInteger (fld c ''season'') \<and> isInteger (fld c ''episodes''))
             (shapeSeasons LIMITS) \<or>
         \<not> unique (arrOf (fld value ''seasons'')) (\<lambda>c. js_String E (fld c ''season'')) \<or>
         \<not> optional (fld value ''lastAired'')
             (\<lambda>c. isRecord c \<and> exact c '',season,episode,'' \<and>
                  isInteger (fld c ''season'') \<and> num_gt (fld c ''season'') 0 \<and>
                  isInteger (fld c ''episode'') \<and> num_gt (fld c ''episode'') 0)
      then False
      else let lastAired = fld value ''lastAired'' in
        if lastAired = JUndef then True
        else if \<not> isRecord lastAired \<or> \<not> isInteger (fld lastAired ''season'') \<or>
                \<not> isInteger (fld lastAired ''episode'')
          then False
        else airedWithin (arrOf (fld value ''seasons'')) lastAired)"

definition airing :: "js_env \<Rightarrow> jsval \<Rightarrow> bool" where
  "airing E value \<longleftrightarrow>
     exact value '',kind,today,series,'' \<and>
     isDay (fld value ''today'') \<and>
     listOf (fld value ''series'')
       (\<lambda>c. isRecord c \<and> exact c '',title,episodes,ended,'' \<and>
            titleRef (fld c ''title'') \<and>
            fld (fld c ''title'') ''type'' = JStr ''tv'' \<and>
            isBool (fld c ''ended'') \<and>
            listOf (fld c ''episodes'')
              (\<lambda>e. isRecord e \<and> exact e '',season,episode,date,'' \<and>
                   isInteger (fld e ''season'') \<and> isInteger (fld e ''episode'') \<and>
                   isDay (fld e ''date''))
              (airingEpisodes LIMITS))
       (airingSeries LIMITS) \<and>
     unique (arrOf (fld value ''series'')) (\<lambda>c. js_String E (fld (fld c ''title'') ''id''))"

definition observation :: "js_env \<Rightarrow> jsval \<Rightarrow> bool" where
  "observation E value =
    (if \<not> isRecord value \<or> \<not> isText (fld value ''kind'') then False
     else let kind = strOf (fld value ''kind'') in
     if kind = ''title-shape'' then titleShape E value
     else if kind = ''airing'' then airing E value
     else if kind = ''lifecycle'' then
       exact value '',kind,visible,online,playbackActive,playerOpen,'' \<and>
       isBool (fld value ''visible'') \<and> isBool (fld value ''online'') \<and>
       isBool (fld value ''playbackActive'') \<and>
       (fld value ''playerOpen'' = JUndef \<or> isBool (fld value ''playerOpen''))
     else if kind = ''foreground-ready'' then exact value '',kind,''
     else False)"

section \<open>Decoding a client message\<close>

text \<open>\<open>LibraryServiceFailure\<close>, and its object form on the wire.\<close>

record service_failure =
  f_code :: string
  f_message :: string
  f_retryable :: bool
  f_expectedProtocol :: "int option"
  f_requiredWire :: "int option"

definition opt_field :: "string \<Rightarrow> jsval option \<Rightarrow> (string \<times> jsval) list" where
  "opt_field k v = (case v of None \<Rightarrow> [] | Some x \<Rightarrow> [(k, x)])"

definition enc_failure :: "service_failure \<Rightarrow> jsval" where
  "enc_failure f = JObj
     ([(''code'', JStr (f_code f)), (''message'', JStr (f_message f)),
       (''retryable'', JBool (f_retryable f))]
      @ opt_field ''expectedProtocol'' (map_option jint (f_expectedProtocol f))
      @ opt_field ''requiredWire'' (map_option jint (f_requiredWire f)))"

type_synonym 'a decode_result = "service_failure + 'a"

definition invalid :: "string \<Rightarrow> 'a decode_result" where
  "invalid message = Inl \<lparr> f_code = ''invalid-request'', f_message = message, f_retryable = False,
     f_expectedProtocol = None, f_requiredWire = None \<rparr>"

definition protocolMismatch :: "js_env \<Rightarrow> jsval \<Rightarrow> service_failure option" where
  "protocolMismatch E value =
     (if fld value ''protocol'' = jint LIBRARY_SERVICE_PROTOCOL then None
      else Some \<lparr> f_code = ''protocol-mismatch'',
        f_message = ''library service protocol '' @ js_String E (fld value ''protocol'')
          @ '' is not supported'',
        f_retryable = False,
        f_expectedProtocol = Some LIBRARY_SERVICE_PROTOCOL, f_requiredWire = None \<rparr>)"

definition decodeLibraryServiceClientMessage :: "js_env \<Rightarrow> jsval \<Rightarrow> jsval decode_result" where
  "decodeLibraryServiceClientMessage E input =
    (if \<not> isRecord input then invalid ''library service request must be an object''
     else case protocolMismatch E input of Some mismatch \<Rightarrow> Inl mismatch | None \<Rightarrow>
     if \<not> isText (fld input ''type'') \<or> \<not> isText (fld input ''requestId'')
       then invalid ''request type and requestId are required''
     else let type = strOf (fld input ''type'') in
     if type = ''hello'' then
       (if \<not> exact input '',type,protocol,requestId,clientId,libraryKey,wire,mode,legacyClock,'' \<or>
           \<not> isText (fld input ''clientId'') \<or>
           \<not> libraryKey (fld input ''libraryKey'') \<or>
           fld input ''wire'' \<noteq> jint 4 \<and> fld input ''wire'' \<noteq> jint 5 \<or>
           fld input ''mode'' \<noteq> JStr ''online'' \<and> fld input ''mode'' \<noteq> JStr ''local'' \<or>
           \<not> optional (fld input ''legacyClock'') legacyClock
        then invalid ''hello is incomplete'' else Inr input)
     else if type = ''command'' then
       (if \<not> exact input '',type,protocol,requestId,operationId,command,'' \<or>
           \<not> isText (fld input ''operationId'') \<or>
           \<not> command E (fld input ''command'')
        then invalid ''command is invalid'' else Inr input)
     else if type = ''query'' then
       (if \<not> exact input '',type,protocol,requestId,query,'' \<or> \<not> query E (fld input ''query'')
        then invalid ''query is invalid'' else Inr input)
     else if type = ''task'' then
       (if \<not> exact input '',type,protocol,requestId,operationId,task,'' \<or>
           \<not> isText (fld input ''operationId'') \<or>
           \<not> task E (fld input ''task'')
        then invalid ''task is invalid'' else Inr input)
     else if type = ''subscribe'' then
       (if \<not> exact input '',type,protocol,requestId,subscriptionId,selection,'' \<or>
           \<not> isText (fld input ''subscriptionId'') \<or>
           \<not> selection E (fld input ''selection'')
        then invalid ''subscription is invalid'' else Inr input)
     else if type = ''unsubscribe'' then
       (if \<not> exact input '',type,protocol,requestId,subscriptionId,'' \<or>
           \<not> isText (fld input ''subscriptionId'')
        then invalid ''subscriptionId is required'' else Inr input)
     else if type = ''observe'' then
       (if \<not> exact input '',type,protocol,requestId,observation,'' \<or>
           \<not> observation E (fld input ''observation'')
        then invalid ''observation is invalid'' else Inr input)
     else invalid (''unknown request type '' @ type))"

end
