(* ===== verification/CodecServer.thy ===== *)
theory CodecServer
  imports CodecClient
begin

text \<open>
  The validators of what the library service sends to a page
  (\<^verbatim>\<open>web/src/lib/libraryServiceProtocolCodec.ts\<close>): versions, selection values, query and task
  results, failures and session statuses, and \<open>decodeLibraryServiceServerMessage\<close>.
\<close>

section \<open>Versions, progress and history\<close>

definition version :: "jsval \<Rightarrow> bool" where
  "version value \<longleftrightarrow>
     isRecord value \<and> exact value '',instance,generation,revision,'' \<and>
     isText (fld value ''instance'') \<and>
     nullable (fld value ''generation'') isText \<and>
     isInteger (fld value ''revision'')"

text \<open>\<open>finite(c) && c >= 0 && c <= 1\<close>, and an episode number within a season.\<close>

definition isFraction :: "jsval \<Rightarrow> bool" where [codec_defs]:
  "isFraction c \<longleftrightarrow> isFinite c \<and> num_ge c 0 \<and> num_le c 1"

definition seasonEpisode :: "jsval \<Rightarrow> bool" where
  "seasonEpisode c \<longleftrightarrow>
     isRecord c \<and> exact c '',season,episode,'' \<and>
     isInteger (fld c ''season'') \<and>
     isInteger (fld c ''episode'') \<and> num_gt (fld c ''episode'') 0"

definition progress :: "jsval \<Rightarrow> bool" where
  "progress value \<longleftrightarrow>
     isRecord value \<and> exact value '',fraction,seconds,playing,updatedAt,'' \<and>
     isFraction (fld value ''fraction'') \<and>
     optional (fld value ''seconds'') isFinite \<and>
     optional (fld value ''playing'') isBool \<and>
     optional (fld value ''updatedAt'') isInteger"

definition continueItem :: "jsval \<Rightarrow> bool" where
  "continueItem value \<longleftrightarrow>
     isRecord value \<and>
     exact value '',title,fraction,episode,upcoming,seconds,playing,updatedAt,liveEpisode,liveFraction,device,deviceId,here,'' \<and>
     titleRef (fld value ''title'') \<and>
     optional (fld value ''upcoming'') isDay \<and>
     (fld value ''upcoming'' = JUndef \<or> fld value ''episode'' \<noteq> JUndef) \<and>
     (fld value ''here'' = JUndef \<or> fld value ''here'' = JBool True) \<and>
     isFraction (fld value ''fraction'') \<and>
     optional (fld value ''episode'') seasonEpisode \<and>
     (fld value ''episode'' = JUndef \<or> fld (fld value ''title'') ''type'' = JStr ''tv'') \<and>
     optional (fld value ''liveEpisode'') seasonEpisode \<and>
     (fld value ''liveEpisode'' = JUndef \<or> fld (fld value ''title'') ''type'' = JStr ''tv'') \<and>
     optional (fld value ''liveFraction'') isFraction \<and>
     optional (fld value ''seconds'') isFinite \<and>
     optional (fld value ''playing'') isBool \<and>
     optional (fld value ''updatedAt'') isInteger \<and>
     optional (fld value ''device'') isText \<and>
     optional (fld value ''deviceId'') (strWith (re_exactly isHexLower 16))"

definition historyItem :: "jsval \<Rightarrow> bool" where
  "historyItem value =
     (if \<not> isRecord value \<or> \<not> titleRef (fld value ''title'') then False
      else let title = fld value ''title'' in
        exact value '',title,watchedAt,episode,episodes,'' \<and>
        isInteger (fld value ''watchedAt'') \<and>
        optional (fld value ''episode'') seasonEpisode \<and>
        (fld value ''episode'' = JUndef \<or> fld title ''type'' = JStr ''tv'') \<and>
        isInteger (fld value ''episodes'') \<and>
        (fld title ''type'' = JStr ''tv'' \<or> fld value ''episodes'' = jint 0))"

definition historyPage :: "js_env \<Rightarrow> jsval \<Rightarrow> bool" where
  "historyPage E value =
     (if \<not> isRecord value then False
      else let facets = fld value ''facets'' in
        exact value '',kind,total,items,filter,facets,revision,nextCursor,'' \<and>
        isText (fld value ''revision'') \<and>
        historyFilter (fld value ''filter'') \<and>
        isInteger (fld value ''total'') \<and>
        isRecord facets \<and> exact facets '',all,movie,tv,years,'' \<and>
        isInteger (fld facets ''all'') \<and> isInteger (fld facets ''movie'') \<and>
        isInteger (fld facets ''tv'') \<and>
        listAny (fld facets ''years'')
          (\<lambda>c. isRecord c \<and> exact c '',year,all,movie,tv,'' \<and>
               strWith (\<lambda>s. s = ''unknown'' \<or> re_between isDigit 4 6 s) (fld c ''year'') \<and>
               isInteger (fld c ''all'') \<and> isInteger (fld c ''movie'') \<and>
               isInteger (fld c ''tv'')) \<and>
        listOf (fld value ''items'') historyItem 96 \<and>
        unique (arrOf (fld value ''items'')) (\<lambda>i. titleIdentity E (fld i ''title'')) \<and>
        optional (fld value ''nextCursor'') isText)"

section \<open>Downloads and preferences\<close>

definition downloadViewRelease :: "jsval \<Rightarrow> bool" where
  "downloadViewRelease c \<longleftrightarrow>
     isRecord c \<and> exact c '',identity,label,sizeBytes,cached,'' \<and>
     boundedText 4096 (fld c ''identity'') \<and>
     boundedText 4096 (fld c ''label'') \<and>
     optional (fld c ''sizeBytes'') (\<lambda>i. isInteger i \<and> num_gt i 0) \<and>
     optional (fld c ''cached'') isBool"

definition downloadFetch :: "jsval \<Rightarrow> bool" where
  "downloadFetch c \<longleftrightarrow>
     isRecord c \<and> exact c '',state,seeds,peers,service,'' \<and>
     optional (fld c ''state'')
       (oneOf [''queued'', ''fetching'', ''downloading'', ''stalled'', ''failed'']) \<and>
     optional (fld c ''seeds'') (\<lambda>i. isInteger i \<and> num_ge i 0) \<and>
     optional (fld c ''peers'') (\<lambda>i. isInteger i \<and> num_ge i 0) \<and>
     optional (fld c ''service'') (boundedText 256)"

definition downloadStatus :: "jsval \<Rightarrow> bool" where
  "downloadStatus status \<longleftrightarrow>
     isRecord status \<and>
     exact status '',state,phase,fraction,progressAt,etaSeconds,bytesPerSecond,fetch,service,until,stalled,'' \<and>
     oneOf [''starting'', ''fetching'', ''not-started'', ''refused'', ''paused'', ''unreachable'',
            ''ready'', ''no-working-release'', ''awaiting-air'', ''release-gone'']
       (fld status ''state'') \<and>
     oneOf [''queued'', ''downloading'', ''trouble'', ''ready''] (fld status ''phase'') \<and>
     optional (fld status ''fraction'') isFraction \<and>
     optional (fld status ''progressAt'') (\<lambda>i. isInteger i \<and> num_ge i 0) \<and>
     optional (fld status ''etaSeconds'') (\<lambda>i. isFinite i \<and> num_ge i 0) \<and>
     optional (fld status ''bytesPerSecond'') (\<lambda>i. isFinite i \<and> num_ge i 0) \<and>
     optional (fld status ''fetch'') downloadFetch \<and>
     optional (fld status ''service'') (boundedText 256) \<and>
     optional (fld status ''until'') (\<lambda>i. isInteger i \<and> num_ge i 0) \<and>
     isBool (fld status ''stalled'')"

definition download :: "jsval \<Rightarrow> bool" where
  "download value \<longleftrightarrow>
     isRecord value \<and>
     exact value '',content,title,name,imdbId,season,episode,posterPath,stillPath,queuedAt,queuedBy,release,alternate,status,tried,candidates,announced,'' \<and>
     isText (fld value ''content'') \<and>
     titleRef (fld value ''title'') \<and>
     boundedText 1024 (fld value ''name'') \<and>
     optional (fld value ''imdbId'') (boundedText 128) \<and>
     optional (fld value ''season'') isInteger \<and>
     optional (fld value ''episode'') isInteger \<and>
     (fld value ''season'' = JUndef) = (fld value ''episode'' = JUndef) \<and>
     (fld value ''season'' = JUndef \<or> fld (fld value ''title'') ''type'' = JStr ''tv'') \<and>
     optional (fld value ''posterPath'') (boundedText 2048) \<and>
     optional (fld value ''stillPath'') (boundedText 2048) \<and>
     isInteger (fld value ''queuedAt'') \<and> num_ge (fld value ''queuedAt'') 0 \<and>
     isRecord (fld value ''queuedBy'') \<and>
     exact (fld value ''queuedBy'') '',device,name,isSelf,'' \<and>
     boundedText 256 (fld (fld value ''queuedBy'') ''device'') \<and>
     isBool (fld (fld value ''queuedBy'') ''isSelf'') \<and>
     optional (fld (fld value ''queuedBy'') ''name'') (boundedText 256) \<and>
     optional (fld value ''release'') downloadViewRelease \<and>
     optional (fld value ''alternate'') downloadViewRelease \<and>
     downloadStatus (fld value ''status'') \<and>
     isInteger (fld value ''tried'') \<and> num_ge (fld value ''tried'') 0 \<and>
     optional (fld value ''candidates'') (\<lambda>i. isInteger i \<and> num_gt i 0) \<and>
     isBool (fld value ''announced'')"

definition preferencesView :: "js_env \<Rightarrow> jsval \<Rightarrow> bool" where
  "preferencesView E value =
     (if \<not> isRecord value \<or>
         \<not> exact value '',interfaceLanguage,excludedGenres,excludedLanguages,hideAnime,hideWatched,minReleaseYear,audioLanguage,subtitleLanguage,hasExplicitSubtitlePreference,shownSubtitleLanguages,subtitlesPerLanguage,autoSkipSegments,autoplayTrailers,ratingSources,shownWarnings,watchRegion,services,servicesConfigured,maturityCeiling,''
      then False
      else
        (let genres = fld value ''excludedGenres'';
             excludedLanguages = fld value ''excludedLanguages'';
             shownSubtitleLanguages = fld value ''shownSubtitleLanguages'';
             sources = fld value ''ratingSources'';
             shownWarnings = fld value ''shownWarnings'';
             services = fld value ''services'' in
         optional (fld value ''interfaceLanguage'') (oneOf [''en'', ''es'', ''sv'']) \<and>
         listOf genres (\<lambda>c. isInteger c \<and> num_gt c 0) PROFILE_GENRE_LIMIT \<and>
         unique (arrOf genres) (js_String E) \<and>
         listOf excludedLanguages languageCode PROFILE_LANGUAGE_LIMIT \<and>
         unique (arrOf excludedLanguages) (js_String E) \<and>
         isBool (fld value ''hideAnime'') \<and>
         isBool (fld value ''hideWatched'') \<and>
         (fld value ''minReleaseYear'' = JUndef \<or>
            isInteger (fld value ''minReleaseYear'') \<and>
            num_ge (fld value ''minReleaseYear'') PROFILE_MIN_YEAR \<and>
            num_le (fld value ''minReleaseYear'') PROFILE_MAX_YEAR) \<and>
         optional (fld value ''audioLanguage'') languageCode \<and>
         optional (fld value ''subtitleLanguage'') languageCode \<and>
         optional (fld value ''hasExplicitSubtitlePreference'') isBool \<and>
         listOf shownSubtitleLanguages languageCode PROFILE_LANGUAGE_LIMIT \<and>
         unique (arrOf shownSubtitleLanguages) (js_String E) \<and>
         isProfileSubtitleLimit (fld value ''subtitlesPerLanguage'') \<and>
         isBool (fld value ''autoSkipSegments'') \<and>
         isBool (fld value ''autoplayTrailers'') \<and>
         listOf sources ratingSource (length PROFILE_RATING_SOURCES) \<and>
         unique (arrOf sources) (js_String E) \<and>
         listOf shownWarnings (strWith (\<lambda>s. s \<in> set PROFILE_WARNING_CATEGORIES))
           (length PROFILE_WARNING_CATEGORIES) \<and>
         unique (arrOf shownWarnings) (js_String E) \<and>
         optional (fld value ''watchRegion'') countryCode \<and>
         listOf services serviceRef PROFILE_SERVICE_LIMIT \<and>
         unique (arrOf services) (serviceKey E) \<and>
         isBool (fld value ''servicesConfigured'') \<and>
         (fld value ''servicesConfigured'' = JBool True \<or> arrOf services = []) \<and>
         (fld value ''maturityCeiling'' = JUndef \<or>
            oneOf [''pg13'', ''r''] (fld value ''maturityCeiling''))))"

section \<open>Connections, devices and Simkl\<close>

definition playKey :: "jsval \<Rightarrow> bool" where [codec_defs]:
  "playKey value \<longleftrightarrow> strWith (re_exactly isBase64url 43) value"

definition libraryDevice :: "jsval \<Rightarrow> bool" where
  "libraryDevice c \<longleftrightarrow>
     isRecord c \<and>
     exact c '',id,name,kind,lastSeenAt,libraryFormat,playKey,controlVersion,playedAt,'' \<and>
     boundedText 128 (fld c ''id'') \<and>
     boundedText 256 (fld c ''name'') \<and>
     oneOf [''tv'', ''browser''] (fld c ''kind'') \<and>
     optional (fld c ''lastSeenAt'') isInteger \<and>
     optional (fld c ''libraryFormat'') isInteger \<and>
     optional (fld c ''playKey'') playKey \<and>
     optional (fld c ''controlVersion'') (\<lambda>v. isInteger v \<and> num_gt v 0) \<and>
     optional (fld c ''playedAt'') isInteger"

definition pluginView :: "js_env \<Rightarrow> jsval \<Rightarrow> bool" where
  "pluginView E c \<longleftrightarrow>
     isRecord c \<and> exact c '',manifestUrl,signingKey,pendingApprovalOn,'' \<and>
     webUrl E (fld c ''manifestUrl'') \<and>
     optional (fld c ''signingKey'') (boundedText 256) \<and>
     listOf (fld c ''pendingApprovalOn'')
       (\<lambda>d. isRecord d \<and> exact d '',id,name,'' \<and>
            boundedText 128 (fld d ''id'') \<and> boundedText 256 (fld d ''name'')) 512 \<and>
     unique (arrOf (fld c ''pendingApprovalOn'')) (\<lambda>d. js_String E (fld d ''id''))"

definition serverView :: "js_env \<Rightarrow> jsval \<Rightarrow> bool" where
  "serverView E c \<longleftrightarrow>
     isRecord c \<and> exact c '',kind,url,user,'' \<and>
     mediaServer (fld c ''kind'') \<and>
     webUrl E (fld c ''url'') \<and>
     optional (fld c ''user'') (boundedText 4096) \<and>
     (fld c ''kind'' = JStr ''jellyfin'' \<or> fld c ''user'' = JUndef)"

definition connectionsView :: "js_env \<Rightarrow> jsval \<Rightarrow> bool" where
  "connectionsView E value =
     (if \<not> isRecord value \<or>
         \<not> exact value '',kind,apiKeys,parentalPinConfigured,parentalPinDelivery,remoteAccessConfigured,plugins,servers,devices,diagnostics,'' \<or>
         fld value ''kind'' \<noteq> JStr ''connections'' \<or>
         \<not> isRecord (fld value ''apiKeys'') \<or>
         \<not> exact (fld value ''apiKeys'') '',tmdb,omdb,content-warnings,'' \<or>
         \<not> list_all (\<lambda>(_, c). isRecord c \<and> exact c '',configured,masked,'' \<and>
               fld c ''configured'' = JBool True \<and> boundedText 32 (fld c ''masked''))
             (entriesOf (fld value ''apiKeys'')) \<or>
         \<not> isBool (fld value ''parentalPinConfigured'') \<or>
         \<not> oneOf [''synced'', ''queued'', ''local''] (fld value ''parentalPinDelivery'') \<or>
         \<not> isBool (fld value ''remoteAccessConfigured'')
      then False
      else
        (let plugins = fld value ''plugins''; servers = fld value ''servers'';
             devices = fld value ''devices''; diagnostics = fld value ''diagnostics'' in
         listOf plugins (pluginView E) 10000 \<and>
         unique (arrOf plugins) (\<lambda>p. js_String E (fld p ''manifestUrl'')) \<and>
         listOf servers (serverView E) 2 \<and>
         unique (arrOf servers) (\<lambda>s. js_String E (fld s ''kind'')) \<and>
         listOf devices libraryDevice 512 \<and>
         unique (arrOf devices) (\<lambda>d. js_String E (fld d ''id'')) \<and>
         isRecord diagnostics \<and>
         exact diagnostics '',libraryFormat,pendingChanges,selfDeviceId,profileTopology,'' \<and>
         optional (fld diagnostics ''profileTopology'') isBool \<and>
         isInteger (fld diagnostics ''libraryFormat'') \<and>
         isInteger (fld diagnostics ''pendingChanges'') \<and>
         boundedText 128 (fld diagnostics ''selfDeviceId'')))"

definition devicesView :: "js_env \<Rightarrow> jsval \<Rightarrow> bool" where
  "devicesView E value \<longleftrightarrow>
     isRecord value \<and> exact value '',kind,devices,'' \<and>
     fld value ''kind'' = JStr ''devices'' \<and>
     listOf (fld value ''devices'') libraryDevice 512 \<and>
     unique (arrOf (fld value ''devices'')) (\<lambda>d. js_String E (fld d ''id''))"

definition simklView :: "js_env \<Rightarrow> jsval \<Rightarrow> bool" where
  "simklView E value \<longleftrightarrow>
     isRecord value \<and> exact value '',kind,connected,account,heldRemovals,approvalId,'' \<and>
     fld value ''kind'' = JStr ''simkl'' \<and>
     isBool (fld value ''connected'') \<and>
     optional (fld value ''account'') (boundedText 256) \<and>
     listOf (fld value ''heldRemovals'') titleRef 10000 \<and>
     unique (arrOf (fld value ''heldRemovals'')) (titleIdentity E) \<and>
     optional (fld value ''approvalId'') (boundedText 256) \<and>
     (fld value ''connected'' = JBool True \<or>
        fld value ''account'' = JUndef \<and>
        arrOf (fld value ''heldRemovals'') = [] \<and>
        fld value ''approvalId'' = JUndef) \<and>
     (length (arrOf (fld value ''heldRemovals'')) > 0) = (fld value ''approvalId'' \<noteq> JUndef)"

section \<open>Selection values\<close>

definition episodeProgress :: "jsval \<Rightarrow> bool" where
  "episodeProgress value \<longleftrightarrow>
     isRecord value \<and> exact value '',season,episode,watched,fraction,seconds,updatedAt,'' \<and>
     isInteger (fld value ''season'') \<and>
     isInteger (fld value ''episode'') \<and> num_gt (fld value ''episode'') 0 \<and>
     isBool (fld value ''watched'') \<and>
     isFraction (fld value ''fraction'') \<and>
     optional (fld value ''seconds'') isFinite \<and>
     optional (fld value ''updatedAt'') isInteger"

definition recommendationFields :: "jsval \<Rightarrow> bool" where
  "recommendationFields value \<longleftrightarrow>
     listAny (fld value ''owned'') titleRef \<and>
     listAny (fld value ''watched'') titleRef \<and>
     listAny (fld value ''standings'')
       (\<lambda>c. isRecord c \<and> exact c '',title,standing,'' \<and> titleRef (fld c ''title'') \<and>
            standing (fld c ''standing'')) \<and>
     listAny (fld value ''weighted'')
       (\<lambda>c. isRecord c \<and> exact c '',title,weight,updatedAt,'' \<and> titleRef (fld c ''title'') \<and>
            isFinite (fld c ''weight'') \<and> isInteger (fld c ''updatedAt'')) \<and>
     isRecord (fld value ''seeds'') \<and>
     exact (fld value ''seeds'') '',watched,watchlisted,'' \<and>
     listAny (fld (fld value ''seeds'') ''watched'') titleRef \<and>
     listAny (fld (fld value ''seeds'') ''watchlisted'') titleRef"

text \<open>\<open>`${season}:${episode}`\<close>.\<close>

definition episodeKey :: "js_env \<Rightarrow> jsval \<Rightarrow> string" where
  "episodeKey E c = js_String E (fld c ''season'') @ '':'' @ js_String E (fld c ''episode'')"

definition profileView :: "js_env \<Rightarrow> jsval \<Rightarrow> bool" where
  "profileView E profile \<longleftrightarrow>
     isRecord profile \<and>
     exact profile '',id,role,name,avatar,libraryKey,keyVersion,policy,approvals,deleted,'' \<and>
     strWith (re_exactly isHexLower 32) (fld profile ''id'') \<and>
     oneOf [''owner'', ''kid'', ''adult''] (fld profile ''role'') \<and>
     boundedText 256 (fld profile ''name'') \<and>
     optional (fld profile ''avatar'') (strWith (re_between isBase64url 1 64)) \<and>
     libraryKey (fld profile ''libraryKey'') \<and>
     isInteger (fld profile ''keyVersion'') \<and> num_gt (fld profile ''keyVersion'') 0 \<and>
     isRecord (fld profile ''policy'') \<and>
     exact (fld profile ''policy'') '',maximumAge,unknownRatings,'' \<and>
     nullable (fld (fld profile ''policy'') ''maximumAge'') ageUpTo18 \<and>
     oneOf [''allow'', ''block''] (fld (fld profile ''policy'') ''unknownRatings'') \<and>
     optional (fld profile ''approvals'')
       (\<lambda>a. listOf a titleRef 10000 \<and> unique (arrOf a) (titleIdentity E)) \<and>
     isBool (fld profile ''deleted'')"

definition profileDirectoryView :: "js_env \<Rightarrow> jsval \<Rightarrow> bool" where
  "profileDirectoryView E value =
     (if \<not> isRecord value \<or>
         \<not> exact value '',kind,state,owner,profiles,'' \<or>
         fld value ''kind'' \<noteq> JStr ''profiles'' \<or>
         \<not> oneOf [''absent'', ''invalid'', ''present'', ''pending''] (fld value ''state'') \<or>
         \<not> nullable (fld value ''owner'') (strWith (re_exactly isHexLower 32)) \<or>
         \<not> listOf (fld value ''profiles'') (profileView E) (profileEntries LIMITS)
      then False
      else
        (let profiles = arrOf (fld value ''profiles'') in
         unique profiles (\<lambda>p. js_String E (fld p ''id'')) \<and>
         (fld value ''owner'' = JNull \<or>
            list_ex (\<lambda>p. fld p ''id'' = fld value ''owner'') profiles)))"

definition recoveryLive :: "jsval \<Rightarrow> bool" where
  "recoveryLive c \<longleftrightarrow>
     isRecord c \<and> exact c '',createdAt,by,byName,opens,lastOpenedAt,reposted,'' \<and>
     isInteger (fld c ''createdAt'') \<and>
     boundedText 128 (fld c ''by'') \<and>
     boundedText 256 (fld c ''byName'') \<and>
     isInteger (fld c ''opens'') \<and>
     nullable (fld c ''lastOpenedAt'') isInteger \<and>
     isBool (fld c ''reposted'')"

definition selectionValue :: "js_env \<Rightarrow> jsval \<Rightarrow> bool" where
  "selectionValue E value =
    (if \<not> isRecord value \<or> \<not> isText (fld value ''kind'') then False
     else let kind = strOf (fld value ''kind'') in
     if kind = ''watchlist'' then
       exact value '',kind,titles,'' \<and> listAny (fld value ''titles'') titleRef
     else if kind = ''recommendations'' then
       exact value '',kind,owned,watched,standings,weighted,seeds,'' \<and> recommendationFields value
     else if kind = ''overview'' then
       exact value '',kind,owned,watched,watchlist,standings,weighted,seeds,'' \<and>
       listAny (fld value ''watchlist'') titleRef \<and> recommendationFields value
     else if kind = ''continue'' then
       exact value '',kind,items,needsShapes,caughtUp,dismissed,'' \<and>
       listAny (fld value ''items'') continueItem \<and>
       listAny (fld value ''needsShapes'') titleRef \<and>
       list_all (\<lambda>t. fld t ''type'' = JStr ''tv'') (arrOf (fld value ''needsShapes'')) \<and>
       (fld value ''caughtUp'' = JUndef \<or> listAny (fld value ''caughtUp'') titleRef) \<and>
       (fld value ''dismissed'' = JUndef \<or> listAny (fld value ''dismissed'') titleRef) \<and>
       unique (arrOf (fld value ''items'')) (\<lambda>i. titleIdentity E (fld i ''title'')) \<and>
       unique (arrOf (fld value ''needsShapes'')) (titleIdentity E)
     else if kind = ''history'' then
       exact value '',kind,total,items,filter,facets,revision,nextCursor,'' \<and> historyPage E value
     else if kind = ''title'' then
       exact value '',kind,title,listed,watched,reaction,standing,progress,episodes,'' \<and>
       titleRef (fld value ''title'') \<and>
       isBool (fld value ''listed'') \<and>
       isBool (fld value ''watched'') \<and>
       nullable (fld value ''reaction'') reaction \<and>
       nullable (fld value ''standing'') standing \<and>
       nullable (fld value ''progress'') progress \<and>
       listAny (fld value ''episodes'') episodeProgress \<and>
       unique (arrOf (fld value ''episodes'')) (episodeKey E)
     else if kind = ''presence'' then
       exact value '',kind,items,'' \<and>
       listOf (fld value ''items'')
         (\<lambda>c. isRecord c \<and> exact c '',title,standing,reaction,'' \<and> titleRef (fld c ''title'') \<and>
              nullable (fld c ''standing'') standing \<and> nullable (fld c ''reaction'') reaction)
         (presenceTitles LIMITS) \<and>
       unique (arrOf (fld value ''items'')) (\<lambda>i. titleIdentity E (fld i ''title''))
     else if kind = ''settings'' then
       exact value '',kind,preferences,assistant,'' \<and>
       preferencesView E (fld value ''preferences'') \<and>
       isRecord (fld value ''assistant'') \<and>
       exact (fld value ''assistant'') '',write,read,'' \<and>
       isBool (fld (fld value ''assistant'') ''write'') \<and>
       isBool (fld (fld value ''assistant'') ''read'')
     else if kind = ''devices'' then devicesView E value
     else if kind = ''profiles'' then profileDirectoryView E value
     else if kind = ''connections'' then connectionsView E value
     else if kind = ''simkl'' then simklView E value
     else if kind = ''recovery'' then
       exact value '',kind,availability,live,broken,notices,'' \<and>
       oneOf [''ready'', ''waits''] (fld value ''availability'') \<and>
       nullable (fld value ''live'') recoveryLive \<and>
       isBool (fld value ''broken'') \<and>
       listOf (fld value ''notices'') (boundedText 4096) 32
     else if kind = ''runtime'' then
       exact value '',kind,pluginManifestUrls,privateRemuxUrl,'' \<and>
       listOf (fld value ''pluginManifestUrls'') (webUrl E) 10000 \<and>
       unique (arrOf (fld value ''pluginManifestUrls'')) (js_String E) \<and>
       nullable (fld value ''privateRemuxUrl'') (webUrl E)
     else if kind = ''downloads'' then
       exact value '',kind,items,'' \<and> listAny (fld value ''items'') download
     else False)"

section \<open>Query results\<close>

definition assistantGrant :: "jsval \<Rightarrow> bool" where
  "assistantGrant value \<longleftrightarrow>
     isRecord value \<and>
     exact value '',grant,client,ops,cap,createdAt,expiresAt,revokedAt,state,'' \<and>
     hexId (fld value ''grant'') \<and>
     oneOf [''active'', ''expired'', ''revoked'', ''newer'', ''malformed''] (fld value ''state'') \<and>
     optional (fld value ''client'') (boundedText 256) \<and>
     optional (fld value ''ops'') (\<lambda>ops. listOf ops (boundedText 64) 16) \<and>
     optional (fld value ''cap'') isInteger \<and>
     optional (fld value ''createdAt'') isInteger \<and>
     optional (fld value ''expiresAt'') isInteger \<and>
     optional (fld value ''revokedAt'') (\<lambda>t. t = JNull \<or> isInteger t)"

definition assistantApplied :: "jsval \<Rightarrow> bool" where
  "assistantApplied value =
     (if \<not> isRecord value \<or> \<not> isInteger (fld value ''seq'') then False
      else if fld value ''outcome'' = JStr ''rejected'' then
        exact value '',seq,outcome,reason,'' \<and> boundedText 64 (fld value ''reason'')
      else
        fld value ''outcome'' = JStr ''accepted'' \<and>
        exact value '',seq,outcome,op,title,season,episode,detail,'' \<and>
        oneOf [''watchlist_add'', ''watchlist_remove'', ''seen'', ''rate'', ''play'', ''play_trailer'']
          (fld value ''op'') \<and>
        titleRef (fld value ''title'') \<and>
        optional (fld value ''season'') isInteger \<and>
        optional (fld value ''episode'') isInteger \<and>
        boundedText 256 (fld value ''detail''))"

definition exportPlays :: "jsval \<Rightarrow> bool" where
  "exportPlays value \<longleftrightarrow>
     listAny value
       (\<lambda>play. isRecord play \<and> exact play '',watchedAt,rewatch,source,'' \<and>
          nullable (fld play ''watchedAt'') (boundedText 64) \<and>
          isBool (fld play ''rewatch'') \<and>
          oneOf [''den'', ''import''] (fld play ''source''))"

definition exportTitle :: "jsval \<Rightarrow> bool" where
  "exportTitle c \<longleftrightarrow>
     isRecord c \<and> exact c '',type,tmdbId,status,reaction,addedAt,plays,episodes,'' \<and>
     oneOf [''movie'', ''tv''] (fld c ''type'') \<and>
     isInteger (fld c ''tmdbId'') \<and> num_gt (fld c ''tmdbId'') 0 \<and>
     oneOf [''none'', ''watchlist'', ''inProgress'', ''watched''] (fld c ''status'') \<and>
     nullable (fld c ''reaction'') reaction \<and>
     nullable (fld c ''addedAt'') (boundedText 64) \<and>
     optional (fld c ''plays'') exportPlays \<and>
     optional (fld c ''episodes'')
       (\<lambda>episodes. listAny episodes
          (\<lambda>e. isRecord e \<and> exact e '',season,episode,plays,'' \<and>
               isInteger (fld e ''season'') \<and> isInteger (fld e ''episode'') \<and>
               exportPlays (fld e ''plays'')))"

definition profileCreateStatus :: "jsval \<Rightarrow> bool" where
  "profileCreateStatus value =
     (if \<not> exact value '',kind,phase,profile,name,maximumAge,receipt,'' then False
      else if fld value ''phase'' = JStr ''idle'' then
        fld value ''profile'' = JUndef \<and> fld value ''name'' = JUndef \<and>
        fld value ''maximumAge'' = JUndef \<and> fld value ''receipt'' = JUndef
      else
        fld value ''phase'' = JStr ''created'' \<and>
        hexId (fld value ''profile'') \<and>
        boundedScalarText 64 (fld value ''name'') \<and>
        ageUpTo18 (fld value ''maximumAge'') \<and>
        boundedText 256 (fld value ''receipt''))"

definition metadataResult :: "js_env \<Rightarrow> jsval \<Rightarrow> bool" where
  "metadataResult E value \<longleftrightarrow>
     exact value '',kind,titles,shapes,retryable,retryAfterMs,'' \<and>
     listOf (fld value ''titles'') (isLibraryMetadataTitle E) (libraryMetadataTitles LIMITS) \<and>
     unique (arrOf (fld value ''titles'')) (titleIdentity E) \<and>
     listOf (fld value ''shapes'') (libraryMetadataShape E) (libraryMetadataTitles LIMITS) \<and>
     unique (arrOf (fld value ''shapes'')) (\<lambda>s. titleIdentity E (fld s ''title'')) \<and>
     listOf (fld value ''retryable'') titleRef (libraryMetadataTitles LIMITS) \<and>
     unique (arrOf (fld value ''retryable'')) (titleIdentity E) \<and>
     optional (fld value ''retryAfterMs'') positiveInteger"

text \<open>\<open>items.reduce((total, item) => total + item.seen.length, 0)\<close>.\<close>

definition seenTotal :: "jsval list \<Rightarrow> nat" where
  "seenTotal items = foldl (\<lambda>total item. total + length (arrOf (fld item ''seen''))) 0 items"

definition historyEpisodesResult :: "js_env \<Rightarrow> jsval \<Rightarrow> bool" where
  "historyEpisodesResult E value =
     (if \<not> exact value '',kind,revision,stale,items,'' \<or>
         \<not> isText (fld value ''revision'') \<or>
         \<not> isBool (fld value ''stale'') \<or>
         \<not> listOf (fld value ''items'')
             (\<lambda>c. isRecord c \<and> exact c '',title,seen,'' \<and>
                  titleRef (fld c ''title'') \<and>
                  fld (fld c ''title'') ''type'' = JStr ''tv'' \<and>
                  listOf (fld c ''seen'') seasonEpisode (historyDetailEpisodes LIMITS) \<and>
                  unique (arrOf (fld c ''seen'')) (episodeKey E))
             (historyDetailTitles LIMITS) \<or>
         \<not> unique (arrOf (fld value ''items'')) (\<lambda>i. titleIdentity E (fld i ''title''))
      then False
      else seenTotal (arrOf (fld value ''items'')) \<le> historyDetailEpisodes LIMITS)"

definition downloadSource :: "jsval \<Rightarrow> bool" where
  "downloadSource c \<longleftrightarrow>
     isRecord c \<and>
     exact c '',identity,label,filename,sizeBytes,cached,seeders,packSizeBytes,badges,languages,probed,'' \<and>
     boundedText 4096 (fld c ''identity'') \<and>
     boundedText 4096 (fld c ''label'') \<and>
     boundedText 4096 (fld c ''filename'') \<and>
     optional (fld c ''sizeBytes'') (\<lambda>i. isInteger i \<and> num_gt i 0) \<and>
     optional (fld c ''cached'') isBool \<and>
     optional (fld c ''seeders'') (\<lambda>i. isInteger i \<and> num_ge i 0) \<and>
     optional (fld c ''packSizeBytes'') (\<lambda>i. isInteger i \<and> num_gt i 0) \<and>
     listOf (fld c ''badges'') (boundedText 256) 32 \<and>
     listOf (fld c ''languages'') (boundedText 64) 64 \<and>
     isBool (fld c ''probed'')"

definition sourcesAnswer :: "jsval \<Rightarrow> bool" where
  "sourcesAnswer c \<longleftrightarrow>
     isRecord c \<and> exact c '',kind,missing,late,outageBuiltAt,'' \<and>
     oneOf [''live'', ''partial'', ''empty'', ''unknown'', ''stale''] (fld c ''kind'') \<and>
     isInteger (fld c ''missing'') \<and> num_ge (fld c ''missing'') 0 \<and>
     optional (fld c ''late'') isInteger \<and>
     optional (fld c ''outageBuiltAt'') (\<lambda>i. isInteger i \<and> num_ge i 0)"

definition downloadSourcesResult :: "jsval \<Rightarrow> bool" where
  "downloadSourcesResult value \<longleftrightarrow>
     exact value '',kind,sources,answer,fresh,failure,'' \<and>
     (fld value ''sources'' = JNull \<or>
        listOf (fld value ''sources'') downloadSource (downloadSources LIMITS)) \<and>
     optional (fld value ''answer'') sourcesAnswer \<and>
     optional (fld value ''fresh'') (oneOf [''rebuilt'', ''limited'']) \<and>
     optional (fld value ''failure'') (oneOf [''not-configured'', ''unmatched'', ''unreachable'']) \<and>
     (fld value ''failure'' = JUndef \<or> fld value ''sources'' = JNull)"

definition playbackPrepared :: "jsval \<Rightarrow> bool" where
  "playbackPrepared value \<longleftrightarrow>
     exact value '',kind,action,target,resume,'' \<and>
     fld value ''kind'' = JStr ''playback.prepare'' \<and>
     oneOf [''start'', ''resume'', ''next''] (fld value ''action'') \<and>
     (titleRef (fld value ''target'') \<and> fld (fld value ''target'') ''type'' = JStr ''movie'' \<or>
      episodeRef (fld value ''target'')) \<and>
     nullable (fld value ''resume'')
       (\<lambda>c. isRecord c \<and> exact c '',fraction,seconds,'' \<and> isFraction (fld c ''fraction'') \<and>
            optional (fld c ''seconds'') isFinite \<and> fld c ''updatedAt'' = JUndef)"

definition queryResult :: "js_env \<Rightarrow> jsval \<Rightarrow> bool" where
  "queryResult E value =
    (if \<not> isRecord value \<or> \<not> isText (fld value ''kind'') then False
     else let kind = strOf (fld value ''kind'') in
     if kind = ''parental-pin.verify'' then
       exact value '',kind,matches,'' \<and> isBool (fld value ''matches'')
     else if kind = ''profile-create.status'' then profileCreateStatus value
     else if kind = ''assistant.grants'' then
       exact value '',kind,grants,reads,plays,'' \<and>
       listOf (fld value ''grants'') assistantGrant (collectionItems LIMITS) \<and>
       listOf (fld value ''reads'') assistantGrant (collectionItems LIMITS) \<and>
       listOf (fld value ''plays'') assistantGrant (collectionItems LIMITS)
     else if kind = ''library.metadata'' then metadataResult E value
     else if kind = ''relay.membership'' then
       exact value '',kind,capability,'' \<and> relayMembership (fld value ''capability'')
     else if kind = ''assistant.connection'' then
       exact value '',kind,connection,'' \<and>
       nullable (fld value ''connection'') (assistantConnection E)
     else if kind = ''key-reset.prepare'' then
       exact value '',kind,destinationLibraryKey,device,'' \<and>
       libraryKey (fld value ''destinationLibraryKey'') \<and>
       strWith (re_exactly isHexLower 16) (fld value ''device'')
     else if kind = ''recovery.seal'' then
       exact value '',kind,sealed,'' \<and> boundedText 4096 (fld value ''sealed'')
     else if kind = ''pairing.handover'' then
       exact value '',kind,sealed,linkKey,inboxKey,'' \<and>
       boundedText 4096 (fld value ''sealed'') \<and>
       base64url32 (fld value ''linkKey'') \<and>
       boundedText 256 (fld value ''inboxKey'')
     else if kind = ''history.export'' then
       exact value '',kind,exportedAt,titles,'' \<and>
       boundedText 64 (fld value ''exportedAt'') \<and>
       listAny (fld value ''titles'') exportTitle
     else if kind = ''history.page'' then
       exact value '',kind,restarted,page,'' \<and> isBool (fld value ''restarted'') \<and>
       historyPage E (fld value ''page'')
     else if kind = ''history.episodes'' then historyEpisodesResult E value
     else if kind = ''download.refresh'' then
       exact value '',kind,refreshed,'' \<and> isBool (fld value ''refreshed'')
     else if kind = ''download.sources'' then downloadSourcesResult value
     else if kind = ''download.artwork'' then
       exact value '',kind,stillPath,'' \<and>
       (fld value ''stillPath'' = JNull \<or> boundedText 2048 (fld value ''stillPath''))
     else if kind = ''preferences.raw'' then
       exact value '',kind,values,'' \<and> storedPreferenceValues (fld value ''values'')
     else if kind = ''retained.services'' then
       exact value '',kind,value,'' \<and> nullable (fld value ''value'') (isRetainedServices E)
     else if kind = ''retained.home-continue'' then
       exact value '',kind,present,'' \<and> nullable (fld value ''present'') isBool
     else if kind = ''retained.billboard'' then
       exact value '',kind,scope,value,'' \<and>
       retainedBillboardScope (fld value ''scope'') \<and>
       nullable (fld value ''value'') (isRetainedBillboard E) \<and>
       (fld value ''value'' = JNull \<or>
          fld (fld value ''scope'') ''kind'' = fld (fld value ''value'') ''kind'')
     else playbackPrepared value)"

section \<open>Task results, failures and session status\<close>

definition joinResult :: "jsval \<Rightarrow> bool" where
  "joinResult value \<longleftrightarrow>
     exact value '',kind,outcome,owner,kids,'' \<and>
     (if fld value ''outcome'' = JStr ''joined'' then
        nullable (fld value ''owner'') hexId \<and>
        isRecord (fld value ''kids'') \<and>
        length (keysOf (fld value ''kids'')) \<le> 64 \<and>
        list_all (\<lambda>(from, to). hexId (JStr from) \<and> hexId to) (entriesOf (fld value ''kids''))
      else
        oneOf [''pin-required'', ''pin-wrong'', ''refused-kids'', ''unavailable'']
          (fld value ''outcome'') \<and>
        fld value ''owner'' = JUndef \<and> fld value ''kids'' = JUndef)"

definition assistantApplyResult :: "jsval \<Rightarrow> bool" where
  "assistantApplyResult value \<longleftrightarrow>
     exact value '',kind,results,ack,dropbox,'' \<and>
     listOf (fld value ''results'') assistantApplied ASSISTANT_DRAIN_MAX \<and>
     nullable (fld value ''ack'') isInteger \<and>
     nullable (fld value ''dropbox'')
       (\<lambda>key. isRecord key \<and> exact key '',kid,public,'' \<and> hexId (fld key ''kid'') \<and>
              boundedText 2048 (fld key ''public''))"

text \<open>\<open>exact(value, ',kind,outcome,')\<close> and the outcomes a kind may have.\<close>

definition outcomeOf :: "string list \<Rightarrow> jsval \<Rightarrow> bool" where
  "outcomeOf names value \<longleftrightarrow>
     exact value '',kind,outcome,'' \<and> oneOf names (fld value ''outcome'')"

definition taskResult :: "jsval \<Rightarrow> bool" where
  "taskResult value =
    (if \<not> isRecord value \<or> \<not> isText (fld value ''kind'') then False
     else let kind = strOf (fld value ''kind'') in
     if kind = ''recovery.begin'' then
       outcomeOf [''begun'', ''full'', ''taken'', ''waits'', ''failed''] value
     else if kind = ''recovery.confirm'' \<or> kind = ''recovery.abandon'' then
       exact value '',kind,outcome,'' \<and>
       (oneOf [''confirmed'', ''lost'', ''failed''] (fld value ''outcome'') \<or>
        kind = ''recovery.abandon'' \<and> fld value ''outcome'' = JStr ''abandoned'')
     else if kind = ''recovery.disable'' then outcomeOf [''disabled''] value
     else if kind = ''history.import'' then
       exact value '',kind,written,total,complete,'' \<and>
       isInteger (fld value ''written'') \<and> isInteger (fld value ''total'') \<and>
       ratOf (fld value ''written'') \<le> ratOf (fld value ''total'') \<and>
       isBool (fld value ''complete'')
     else if kind = ''local-library.merge'' then
       exact value '',kind,outcome,retryAfterMs,held,'' \<and>
       oneOf [''merged'', ''absent'', ''unavailable'', ''unverified''] (fld value ''outcome'') \<and>
       optional (fld value ''retryAfterMs'') isInteger \<and>
       optional (fld value ''held'') isInteger
     else if kind = ''household.create'' then
       exact value '',kind,outcome,retryAfterMs,'' \<and>
       oneOf [''created'', ''refused'', ''throttled'', ''unavailable'', ''empty'']
         (fld value ''outcome'') \<and>
       optional (fld value ''retryAfterMs'') isInteger
     else if kind = ''profile.create-default'' then outcomeOf [''created'', ''present''] value
     else if kind = ''household.join'' then joinResult value
     else if kind = ''key-reset.move'' \<or> kind = ''key-reset.settle'' \<or> kind = ''key-reset.adopt'' then
       outcomeOf [''moved'', ''adopted'', ''undone'', ''held'', ''foreign'', ''unknown'',
                  ''update-required'', ''profiles-active'', ''unavailable''] value
     else if kind = ''assistant.consent'' then
       exact value '',kind,grant,key,readKey,'' \<and> hexId (fld value ''grant'') \<and>
       boundedText 64 (fld value ''key'') \<and> optional (fld value ''readKey'') (boundedText 64)
     else if kind = ''assistant.revoke'' then outcomeOf [''revoked'', ''absent''] value
     else if kind = ''assistant.publish'' then
       exact value '',kind,published,'' \<and> isInteger (fld value ''published'')
     else if kind = ''assistant.renew'' then
       exact value '',kind,renewed,'' \<and> isInteger (fld value ''renewed'')
     else if kind = ''assistant.apply'' then assistantApplyResult value
     else if kind = ''profile.create'' then
       exact value '',kind,outcome,profile,name,maximumAge,receipt,'' \<and>
       fld value ''outcome'' = JStr ''created'' \<and>
       hexId (fld value ''profile'') \<and>
       boundedScalarText 64 (fld value ''name'') \<and>
       ageUpTo18 (fld value ''maximumAge'') \<and>
       boundedText 256 (fld value ''receipt'')
     else if kind = ''profile.create.ack'' then outcomeOf [''acknowledged''] value
     else if kind = ''profile.policy.set'' \<or> kind = ''kid-title-approval.set'' then
       outcomeOf [''changed'', ''unchanged''] value
     else if kind = ''profile-key-reset.start'' \<or> kind = ''profile-key-reset.resume'' \<or>
             kind = ''profile-key-reset.confirm'' \<or> kind = ''profile-key-reset.recover'' then
       outcomeOf [''install'', ''complete'', ''aborted'', ''waiting'', ''none'', ''retired'',
                  ''blocked'', ''unavailable''] value
     else False)"

definition FAILURE_CODES :: "string list" where [codec_defs]:
  "FAILURE_CODES =
     [''protocol-mismatch'', ''invalid-request'', ''not-ready'', ''conflict'', ''unauthorized'',
      ''not-found'', ''refused'', ''read-only'', ''moved'', ''storage'', ''update-required'',
      ''unavailable'', ''cancelled'', ''internal'']"

definition failure :: "jsval \<Rightarrow> bool" where
  "failure value \<longleftrightarrow>
     isRecord value \<and>
     exact value '',code,message,retryable,expectedProtocol,requiredWire,'' \<and>
     oneOf FAILURE_CODES (fld value ''code'') \<and>
     isText (fld value ''message'') \<and>
     isBool (fld value ''retryable'') \<and>
     optional (fld value ''expectedProtocol'') isInteger \<and>
     optional (fld value ''requiredWire'') isInteger"

definition sessionStatus :: "jsval \<Rightarrow> bool" where
  "sessionStatus value =
    (if \<not> isRecord value \<or> \<not> isText (fld value ''kind'') then False
     else let kind = strOf (fld value ''kind'') in
     if kind = ''ready'' then exact value '',kind,version,'' \<and> version (fld value ''version'')
     else if kind = ''reconnecting'' then
       exact value '',kind,version,'' \<and> nullable (fld value ''version'') version
     else if kind = ''read-only'' then
       exact value '',kind,version,reason,'' \<and> version (fld value ''version'') \<and>
       isText (fld value ''reason'')
     else if kind = ''moved'' then
       exact value '',kind,successor,'' \<and> optional (fld value ''successor'') isText
     else if kind = ''failed'' then
       exact value '',kind,error,'' \<and> failure (fld value ''error'')
     else False)"

section \<open>Decoding a server message\<close>

definition decodeLibraryServiceServerMessage :: "js_env \<Rightarrow> jsval \<Rightarrow> jsval decode_result" where
  "decodeLibraryServiceServerMessage E input =
    (if \<not> isRecord input then invalid ''library service reply must be an object''
     else case protocolMismatch E input of Some mismatch \<Rightarrow> Inl mismatch | None \<Rightarrow>
     if \<not> isText (fld input ''type'') then invalid ''reply type is required''
     else let type = strOf (fld input ''type'') in
     if type = ''ready'' then
       (if \<not> exact input '',type,protocol,requestId,relayMembership,version,'' \<or>
           \<not> isText (fld input ''requestId'') \<or>
           \<not> relayMembership (fld input ''relayMembership'') \<or>
           \<not> version (fld input ''version'')
        then invalid ''ready reply is invalid'' else Inr input)
     else if type = ''command-result'' then
       (if \<not> exact input '',type,protocol,requestId,operationId,outcome,delivery,version,'' \<or>
           \<not> isText (fld input ''requestId'') \<or>
           \<not> isText (fld input ''operationId'') \<or>
           fld input ''outcome'' \<noteq> JStr ''applied'' \<and> fld input ''outcome'' \<noteq> JStr ''unchanged'' \<or>
           fld input ''delivery'' \<noteq> JStr ''synced'' \<and> fld input ''delivery'' \<noteq> JStr ''queued'' \<and>
             fld input ''delivery'' \<noteq> JStr ''local'' \<or>
           \<not> version (fld input ''version'')
        then invalid ''command result is invalid'' else Inr input)
     else if type = ''task-result'' then
       (if \<not> exact input '',type,protocol,requestId,operationId,result,version,'' \<or>
           \<not> isText (fld input ''requestId'') \<or>
           \<not> isText (fld input ''operationId'') \<or>
           \<not> taskResult (fld input ''result'') \<or>
           \<not> version (fld input ''version'')
        then invalid ''task result is invalid'' else Inr input)
     else if type = ''query-result'' then
       (if \<not> exact input '',type,protocol,requestId,result,version,'' \<or>
           \<not> isText (fld input ''requestId'') \<or>
           \<not> queryResult E (fld input ''result'') \<or>
           \<not> version (fld input ''version'')
        then invalid ''query result is invalid'' else Inr input)
     else if type = ''subscribed'' then
       (if \<not> exact input '',type,protocol,requestId,subscriptionId,version,'' \<or>
           \<not> isText (fld input ''requestId'') \<or>
           \<not> isText (fld input ''subscriptionId'') \<or>
           \<not> version (fld input ''version'')
        then invalid ''subscribed reply is invalid'' else Inr input)
     else if type = ''unsubscribed'' then
       (if \<not> exact input '',type,protocol,requestId,subscriptionId,'' \<or>
           \<not> isText (fld input ''requestId'') \<or>
           \<not> isText (fld input ''subscriptionId'')
        then invalid ''unsubscribed reply is invalid'' else Inr input)
     else if type = ''observed'' then
       (if \<not> exact input '',type,protocol,requestId,version,'' \<or>
           \<not> isText (fld input ''requestId'') \<or>
           \<not> version (fld input ''version'')
        then invalid ''observed reply is invalid'' else Inr input)
     else if type = ''status'' then
       (if \<not> exact input '',type,protocol,status,'' \<or> \<not> sessionStatus (fld input ''status'')
        then invalid ''session status is invalid'' else Inr input)
     else if type = ''opening'' then
       (if \<not> exact input '',type,protocol,requestId,progress,'' \<or>
           \<not> isText (fld input ''requestId'') \<or>
           (case fld input ''progress'' of JNum _ \<Rightarrow> False | _ \<Rightarrow> True) \<or>
           \<not> (num_ge (fld input ''progress'') 0 \<and> num_le (fld input ''progress'') 1)
        then invalid ''opening progress is invalid'' else Inr input)
     else if type = ''update'' then
       (if \<not> exact input '',type,protocol,subscriptionId,version,value,'' \<or>
           \<not> isText (fld input ''subscriptionId'') \<or>
           \<not> version (fld input ''version'') \<or>
           \<not> selectionValue E (fld input ''value'')
        then invalid ''subscription update is invalid'' else Inr input)
     else if type = ''error'' then
       (if \<not> exact input '',type,protocol,requestId,subscriptionId,error,'' \<or>
           \<not> optional (fld input ''requestId'') isText \<or>
           \<not> optional (fld input ''subscriptionId'') isText \<or>
           \<not> failure (fld input ''error'')
        then invalid ''error reply is invalid'' else Inr input)
     else invalid (''unknown reply type '' @ type))"

end
