(* ===== verification/CodecKeys.thy ===== *)
theory CodecKeys
  imports CodecBase
begin

text \<open>
  The key strings of \<^verbatim>\<open>web/src/lib/libraryServiceProtocolCodec.ts\<close>, every one the codec passes to
  \<open>exact\<close>, in the order of their first use, and the proof that each respects the order \<open>exact\<close>
  depends on. The facts are given as rewrite rules that turn a test with a literal key string into
  a test of property names.
\<close>

definition codec_key_strings :: "string list" where
  "codec_key_strings =
     ['',type,id,'',
      '',type,id,title,posterPath,backdropPath,year,releaseDate,rating,ratingSource,votes,popularity,countries,people,collectionId,genreIds,originalLanguage,adult,imdbId,'',
      '',title,seasons,lastAired,'',
      '',season,episodes,'',
      '',season,episode,'',
      '',type,id,season,episode,'',
      '',kind,facet,fresh,'',
      '',type,id,title,posterPath,posterUrl,backdropPath,year,releaseDate,rating,ratingSource,votes,popularity,countries,people,collectionId,genreIds,primaryGenreName,likely,originalLanguage,adult,imdbId,arrivesAt,services,why,'',
      '',score,fit,similar,profile,people,confidence,fresh,arrived,quality,buzz,reason,'',
      '',kind,titles,'',
      '',kind,at,titles,'',
      '',routes,scout,atlas,reel,remux,'',
      '',install,base,'',
      '',url,access,'',
      '',target,name,imdbId,posterPath,stillPath,originalLanguage,airDate,'',
      '',identity,label,sizeBytes,cached,'',
      '',id,country,'',
      '',device,last,'',
      '',value,at,'',
      '',bool,'',
      '',int,'',
      '',string,'',
      '',ints,'',
      '',strings,'',
      '',interfaceLanguage,excludedGenres,excludedLanguages,hideAnime,hideWatched,minReleaseYear,audioLanguage,subtitlePreference,shownSubtitleLanguages,subtitlesPerLanguage,autoSkipSegments,autoplayTrailers,ratingSources,shownWarnings,watchRegion,services,maturityCeiling,'',
      '',mode,'',
      '',mode,language,'',
      '',kind,'',
      '',kind,values,'',
      '',kind,title,'',
      '',kind,title,watched,'',
      '',kind,title,reaction,'',
      '',kind,episode,watched,'',
      '',kind,title,season,episodes,watched,'',
      '',kind,title,dismissed,'',
      '',kind,title,episode,fraction,seconds,playing,observedAt,'',
      '',kind,patch,'',
      '',kind,household,'',
      '',kind,service,value,'',
      '',kind,pin,'',
      '',kind,credentials,'',
      '',clientId,clientSecret,'',
      '',kind,manifestUrl,'',
      '',kind,manifestUrl,publicKey,'',
      '',kind,server,value,'',
      '',url,user,credential,'',
      '',kind,name,deviceKind,playKey,controlVersion,'',
      '',kind,deviceId,'',
      '',kind,token,'',
      '',kind,approvalId,'',
      '',kind,url,'',
      '',kind,value,'',
      '',kind,present,'',
      '',kind,scope,value,'',
      '',kind,title,release,candidates,'',
      '',kind,target,'',
      '',kind,target,identity,'',
      '',kind,revision,filter,cursor,limit,'',
      '',kind,revision,titles,'',
      '',kind,locator,wrapKey,createdAt,'',
      '',kind,handoverKey,host,linkKey,grantTicket,'',
      '',kind,title,fresh,refresh,early,'',
      '',kind,scope,'',
      '',kind,title,episode,'',
      '',kind,locator,sealed,createdAt,'',
      '',kind,locator,'',
      '',kind,items,'',
      '',title,watchedAt,episodes,complete,'',
      '',season,episode,watchedAt,'',
      '',kind,sourceLibraryKey,scope,keep,verify,'',
      '',kind,householdKey,attempt,ownerProfile,ownerKey,createdAt,ifKept,'',
      '',kind,sourceLibraryKey,pin,'',
      '',kind,destinationLibraryKey,'',
      '',kind,client,write,read,'',
      '',kind,grant,'',
      '',kind,connection,'',
      '',kind,grants,'',
      '',kind,messages,connection,tv,'',
      '',awakeSince,'',
      '',seq,sealed,'',
      '',kind,name,maximumAge,pin,'',
      '',kind,receipt,'',
      '',kind,profile,maximumAge,unknownRatings,pin,'',
      '',kind,profile,title,allow,pin,'',
      '',kind,pin,destinationLibraryKey,'',
      '',kind,pin,recoveryAttempt,successorKey,'',
      '',grant,client,ops,cap,createdAt,expiresAt,revokedAt,state,'',
      '',seq,outcome,reason,'',
      '',seq,outcome,op,title,season,episode,detail,'',
      '',kind,title,seasons,lastAired,'',
      '',kind,today,series,'',
      '',title,episodes,ended,'',
      '',season,episode,date,'',
      '',kind,visible,online,playbackActive,playerOpen,'',
      '',instance,generation,revision,'',
      '',fraction,seconds,playing,updatedAt,'',
      '',title,fraction,episode,upcoming,seconds,playing,updatedAt,liveEpisode,liveFraction,device,deviceId,here,'',
      '',title,watchedAt,episode,episodes,'',
      '',type,year,'',
      '',kind,total,items,filter,facets,revision,nextCursor,'',
      '',all,movie,tv,years,'',
      '',year,all,movie,tv,'',
      '',state,seeds,peers,service,'',
      '',content,title,name,imdbId,season,episode,posterPath,stillPath,queuedAt,queuedBy,release,alternate,status,tried,candidates,announced,'',
      '',device,name,isSelf,'',
      '',state,phase,fraction,progressAt,etaSeconds,bytesPerSecond,fetch,service,until,stalled,'',
      '',interfaceLanguage,excludedGenres,excludedLanguages,hideAnime,hideWatched,minReleaseYear,audioLanguage,subtitleLanguage,hasExplicitSubtitlePreference,shownSubtitleLanguages,subtitlesPerLanguage,autoSkipSegments,autoplayTrailers,ratingSources,shownWarnings,watchRegion,services,servicesConfigured,maturityCeiling,'',
      '',id,name,kind,lastSeenAt,libraryFormat,playKey,controlVersion,playedAt,'',
      '',kind,apiKeys,parentalPinConfigured,parentalPinDelivery,remoteAccessConfigured,plugins,servers,devices,diagnostics,'',
      '',tmdb,omdb,content-warnings,'',
      '',configured,masked,'',
      '',manifestUrl,signingKey,pendingApprovalOn,'',
      '',id,name,'',
      '',kind,url,user,'',
      '',libraryFormat,pendingChanges,selfDeviceId,profileTopology,'',
      '',kind,devices,'',
      '',kind,connected,account,heldRemovals,approvalId,'',
      '',season,episode,watched,fraction,seconds,updatedAt,'',
      '',title,standing,'',
      '',title,weight,updatedAt,'',
      '',watched,watchlisted,'',
      '',kind,owned,watched,standings,weighted,seeds,'',
      '',kind,owned,watched,watchlist,standings,weighted,seeds,'',
      '',kind,items,needsShapes,caughtUp,dismissed,'',
      '',kind,title,listed,watched,reaction,standing,progress,episodes,'',
      '',title,standing,reaction,'',
      '',kind,preferences,assistant,'',
      '',write,read,'',
      '',kind,availability,live,broken,notices,'',
      '',createdAt,by,byName,opens,lastOpenedAt,reposted,'',
      '',kind,pluginManifestUrls,privateRemuxUrl,'',
      '',kind,state,owner,profiles,'',
      '',id,role,name,avatar,libraryKey,keyVersion,policy,approvals,deleted,'',
      '',maximumAge,unknownRatings,'',
      '',kind,matches,'',
      '',kind,phase,profile,name,maximumAge,receipt,'',
      '',kind,grants,reads,plays,'',
      '',kind,titles,shapes,retryable,retryAfterMs,'',
      '',kind,capability,'',
      '',kind,destinationLibraryKey,device,'',
      '',kind,sealed,'',
      '',kind,sealed,linkKey,inboxKey,'',
      '',kind,exportedAt,titles,'',
      '',type,tmdbId,status,reaction,addedAt,plays,episodes,'',
      '',season,episode,plays,'',
      '',kind,restarted,page,'',
      '',kind,revision,stale,items,'',
      '',title,seen,'',
      '',kind,refreshed,'',
      '',identity,label,filename,sizeBytes,cached,seeders,packSizeBytes,badges,languages,probed,'',
      '',kind,missing,late,outageBuiltAt,'',
      '',kind,sources,answer,fresh,failure,'',
      '',kind,stillPath,'',
      '',kind,action,target,resume,'',
      '',fraction,seconds,'',
      '',libraryId,memberToken,'',
      '',member,rows,revoked,'',
      '',kind,schema,name,values,'',
      '',watchedAt,rewatch,source,'',
      '',kind,outcome,'',
      '',kind,written,total,complete,'',
      '',kind,outcome,retryAfterMs,held,'',
      '',kind,outcome,retryAfterMs,'',
      '',kind,outcome,owner,kids,'',
      '',kind,grant,key,readKey,'',
      '',kind,published,'',
      '',kind,renewed,'',
      '',kind,results,ack,dropbox,'',
      '',kid,public,'',
      '',kind,outcome,profile,name,maximumAge,receipt,'',
      '',code,message,retryable,expectedProtocol,requiredWire,'',
      '',kind,version,'',
      '',kind,version,reason,'',
      '',kind,successor,'',
      '',kind,error,'',
      '',type,protocol,requestId,clientId,libraryKey,wire,mode,legacyClock,'',
      '',type,protocol,requestId,operationId,command,'',
      '',type,protocol,requestId,query,'',
      '',type,protocol,requestId,operationId,task,'',
      '',type,protocol,requestId,subscriptionId,selection,'',
      '',type,protocol,requestId,subscriptionId,'',
      '',type,protocol,requestId,observation,'',
      '',type,protocol,requestId,relayMembership,version,'',
      '',type,protocol,requestId,operationId,outcome,delivery,version,'',
      '',type,protocol,requestId,operationId,result,version,'',
      '',type,protocol,requestId,result,version,'',
      '',type,protocol,requestId,subscriptionId,version,'',
      '',type,protocol,requestId,version,'',
      '',type,protocol,status,'',
      '',type,protocol,requestId,progress,'',
      '',type,protocol,subscriptionId,version,value,'',
      '',type,protocol,requestId,subscriptionId,error,'']"

text \<open>Whether a key string is its own names, delimited, in an order \<open>exact\<close> can search.\<close>

definition well_ordered :: "string \<Rightarrow> bool" where
  "well_ordered keys \<longleftrightarrow> delim (key_names keys) = keys \<and> names_in_order (key_names keys)"

lemma codec_key_strings_well_ordered: "list_all well_ordered codec_key_strings"
  by code_simp

lemma exact_well_ordered:
  "well_ordered keys \<Longrightarrow> exact value keys \<longleftrightarrow> set (keysOf value) \<subseteq> set (key_names keys)"
  using exact_delim [of "key_names keys"] by (simp add: well_ordered_def)

end
