(* ===== verification/CodecFacts.thy ===== *)
theory CodecFacts
  imports CodecServer CodecKeys
begin

text \<open>
  What the codec guarantees to the code behind it. A message that decodes is the object received,
  unchanged, with the protocol version of this build and no property its type does not name; a
  refusal is never retryable and says which of two things was wrong; and the limits, uniqueness
  tests and cross-field tests of the payload validators mean what their comments say.
\<close>

section \<open>Shared lemmas\<close>

lemmas decode_client_defs =
  decodeLibraryServiceClientMessage_def protocolMismatch_def LIBRARY_SERVICE_PROTOCOL_def invalid_def

lemmas codec_eval =
  codec_defs js_defs exact_def exact_key_def LIBRARY_SERVICE_WIRE_LIMITS_def unique_def
  re_exactly_def re_between_def char_classes

lemma guarded: "(if P then False else Q) \<longleftrightarrow> \<not> P \<and> Q"
  by simp

lemma titleRefE:
  assumes "titleRef t"
  obtains kind n where "fld t ''type'' = JStr kind" and "kind = ''movie'' \<or> kind = ''tv''"
    and "fld t ''id'' = jint n" and "0 < n" and "n \<le> 9007199254740991"
proof -
  from assms have "isInteger (fld t ''id'')" and gt: "num_gt (fld t ''id'') 0"
    and ty: "fld t ''type'' = JStr ''movie'' \<or> fld t ''type'' = JStr ''tv''"
    by (auto simp: titleRef_def)
  from this(1) obtain n where "fld t ''id'' = jint n" "n \<le> 9007199254740991"
    by (rule isIntegerE)
  with gt ty show thesis by (auto intro: that)
qed

text \<open>The text \<open>type:id\<close> the codec compares titles by tells any two title references apart.\<close>

lemma titleIdentity_inj:
  assumes "titleRef s" and "titleRef t" and "titleIdentity E s = titleIdentity E t"
  shows "fld s ''type'' = fld t ''type'' \<and> fld s ''id'' = fld t ''id''"
proof -
  from assms(1) obtain a m where s: "fld s ''type'' = JStr a" "a = ''movie'' \<or> a = ''tv''"
    "fld s ''id'' = jint m" "0 < m" "m \<le> 9007199254740991" by (rule titleRefE)
  from assms(2) obtain b n where t: "fld t ''type'' = JStr b" "b = ''movie'' \<or> b = ''tv''"
    "fld t ''id'' = jint n" "0 < n" "n \<le> 9007199254740991" by (rule titleRefE)
  have "js_String E (jint m) = int_str m" "js_String E (jint n) = int_str n"
    using s(4,5) t(4,5) by (simp_all del: js_String.simps)
  then have "a @ '':'' @ int_str m = b @ '':'' @ int_str n"
    using assms(3) s(1,3) t(1,3) by (simp add: titleIdentity_def)
  then have "a = b \<and> m = n" using s(2) t(2) by auto
  then show ?thesis using s(1,3) t(1,3) by simp
qed

lemma unique_titles_distinct:
  assumes "list_all titleRef ts" and "unique ts (titleIdentity E)"
  shows "distinct (map (\<lambda>t. (fld t ''type'', fld t ''id'')) ts)"
proof -
  have "distinct ts" "inj_on (titleIdentity E) (set ts)"
    using assms(2) by (auto simp: unique_iff_distinct distinct_map)
  moreover have "inj_on (\<lambda>t. (fld t ''type'', fld t ''id'')) (set ts)"
  proof (rule inj_onI)
    fix s t assume st: "s \<in> set ts" "t \<in> set ts"
      and "(fld s ''type'', fld s ''id'') = (fld t ''type'', fld t ''id'')"
    then have "titleIdentity E s = titleIdentity E t" by (simp add: titleIdentity_def)
    then show "s = t" using calculation(2) st by (auto dest: inj_onD)
  qed
  ultimately show ?thesis by (simp add: distinct_map)
qed

lemma positive_integers:
  assumes "list_all (\<lambda>c. isInteger c \<and> num_gt c 0) xs"
  shows "\<exists>ns. xs = map jint ns \<and> (\<forall>n \<in> set ns. 0 < n)"
  using assms
proof (induction xs)
  case (Cons x xs)
  then obtain ns where ns: "xs = map jint ns" "\<forall>n \<in> set ns. 0 < n" by auto
  from Cons.prems have "isInteger x" "num_gt x 0" by auto
  from this(1) obtain n where "x = jint n" by (rule isIntegerE)
  with ns \<open>num_gt x 0\<close> have "x # xs = map jint (n # ns)" "\<forall>m \<in> set (n # ns). 0 < m" by auto
  then show ?case by (intro exI [of _ "n # ns"]) simp
qed simp

section \<open>Key strings\<close>

text \<open>C15: On every key string of the codec, the substring search of \<open>exact\<close> accepts exactly the
  objects whose every property is one of the names the string lists: no unknown property passes,
  however it is spelled, and no listed one is refused.\<close>

theorem exact_iff_listed:
  assumes "keys \<in> set codec_key_strings"
  shows "exact value keys \<longleftrightarrow> set (keysOf value) \<subseteq> set (key_names keys)"
  using assms codec_key_strings_well_ordered
  by (intro exact_well_ordered) (simp add: list_all_iff)

theorem exact_iff_listed_witness:
  "exact (JObj [(''episode'', jint 3)]) '',season,episode,'' \<and>
   \<not> exact (JObj [(''son,epi'', jint 3)]) '',season,episode,''"
proof -
  have listed: "'',season,episode,'' \<in> set codec_key_strings"
    by (simp add: codec_key_strings_def)
  have names: "key_names '',season,episode,'' = [''season'', ''episode'']"
    by (simp add: key_names_def)
  show ?thesis
    using exact_iff_listed [OF listed, of "JObj [(''episode'', jint 3)]"]
      exact_iff_listed [OF listed, of "JObj [(''son,epi'', jint 3)]"]
    by (simp add: names)
qed

section \<open>Client messages\<close>

text \<open>The properties a client message of each type may have.\<close>

definition client_keys :: "string \<Rightarrow> string list" where
  "client_keys type =
     (if type = ''hello'' then [''type'', ''protocol'', ''requestId'', ''clientId'', ''libraryKey'',
                                ''wire'', ''mode'', ''legacyClock'']
      else if type = ''command'' then [''type'', ''protocol'', ''requestId'', ''operationId'', ''command'']
      else if type = ''query'' then [''type'', ''protocol'', ''requestId'', ''query'']
      else if type = ''task'' then [''type'', ''protocol'', ''requestId'', ''operationId'', ''task'']
      else if type = ''subscribe'' then [''type'', ''protocol'', ''requestId'', ''subscriptionId'', ''selection'']
      else if type = ''unsubscribe'' then [''type'', ''protocol'', ''requestId'', ''subscriptionId'']
      else if type = ''observe'' then [''type'', ''protocol'', ''requestId'', ''observation'']
      else [])"

lemma client_exact:
  "exact v '',type,protocol,requestId,clientId,libraryKey,wire,mode,legacyClock,'' \<longleftrightarrow>
     set (keysOf v) \<subseteq> set (client_keys ''hello'')"
  "exact v '',type,protocol,requestId,operationId,command,'' \<longleftrightarrow>
     set (keysOf v) \<subseteq> set (client_keys ''command'')"
  "exact v '',type,protocol,requestId,query,'' \<longleftrightarrow> set (keysOf v) \<subseteq> set (client_keys ''query'')"
  "exact v '',type,protocol,requestId,operationId,task,'' \<longleftrightarrow>
     set (keysOf v) \<subseteq> set (client_keys ''task'')"
  "exact v '',type,protocol,requestId,subscriptionId,selection,'' \<longleftrightarrow>
     set (keysOf v) \<subseteq> set (client_keys ''subscribe'')"
  "exact v '',type,protocol,requestId,subscriptionId,'' \<longleftrightarrow>
     set (keysOf v) \<subseteq> set (client_keys ''unsubscribe'')"
  "exact v '',type,protocol,requestId,observation,'' \<longleftrightarrow>
     set (keysOf v) \<subseteq> set (client_keys ''observe'')"
  by (subst exact_well_ordered, code_simp, simp add: key_names_def client_keys_def)+

text \<open>The payload test of each type.\<close>

definition client_payload :: "js_env \<Rightarrow> string \<Rightarrow> jsval \<Rightarrow> bool" where
  "client_payload E type m =
     (if type = ''hello'' then
        isText (fld m ''clientId'') \<and> libraryKey (fld m ''libraryKey'') \<and>
        (fld m ''wire'' = jint 4 \<or> fld m ''wire'' = jint 5) \<and>
        oneOf [''online'', ''local''] (fld m ''mode'') \<and>
        optional (fld m ''legacyClock'') legacyClock
      else if type = ''command'' then isText (fld m ''operationId'') \<and> command E (fld m ''command'')
      else if type = ''query'' then query E (fld m ''query'')
      else if type = ''task'' then isText (fld m ''operationId'') \<and> task E (fld m ''task'')
      else if type = ''subscribe'' then
        isText (fld m ''subscriptionId'') \<and> selection E (fld m ''selection'')
      else if type = ''unsubscribe'' then isText (fld m ''subscriptionId'')
      else type = ''observe'' \<and> observation E (fld m ''observation''))"

text \<open>A client message: what the decoder lets through, with the validators of the codec for the payload of each type. It
  names the requests the theorems about the actor are stated for.\<close>

definition client_message :: "js_env \<Rightarrow> jsval \<Rightarrow> bool" where
  "client_message E m \<longleftrightarrow>
     isRecord m \<and> fld m ''protocol'' = jint 13 \<and> isText (fld m ''type'') \<and> isText (fld m ''requestId'') \<and>
     set (keysOf m) \<subseteq> set (client_keys (strOf (fld m ''type''))) \<and>
     client_payload E (strOf (fld m ''type'')) m"

lemma oneOf_mode: "oneOf [''online'', ''local''] v \<longleftrightarrow> v = JStr ''online'' \<or> v = JStr ''local''"
  by (cases v) (auto simp: oneOf_def)

lemma decode_client_iff:
  "decodeLibraryServiceClientMessage E input = Inr m \<longleftrightarrow> m = input \<and> client_message E input"
proof -
  let ?t = "strOf (fld input ''type'')"
  note defs = decode_client_defs client_message_def client_payload_def
  consider "?t = ''hello''" | "?t = ''command''" | "?t = ''query''" | "?t = ''task''"
    | "?t = ''subscribe''" | "?t = ''unsubscribe''" | "?t = ''observe''"
    | "?t \<notin> {''hello'', ''command'', ''query'', ''task'', ''subscribe'', ''unsubscribe'', ''observe''}"
    by blast
  then show ?thesis
    by cases (simp_all only: defs Let_def client_exact oneOf_mode, auto)
qed

text \<open>A refused client message is never offered for retry, and the failure separates the two
  causes: \<open>protocol-mismatch\<close>, with the version this build speaks, for an object of another
  version whatever else it holds; \<open>invalid-request\<close>, with no version, for everything else.\<close>

theorem decodeClient_refusal:
  assumes "decodeLibraryServiceClientMessage E input = Inl f"
  shows "\<not> f_retryable f \<and> f_requiredWire f = None \<and>
     (if isRecord input \<and> fld input ''protocol'' \<noteq> jint 13
      then f_code f = ''protocol-mismatch'' \<and> f_expectedProtocol f = Some 13
      else f_code f = ''invalid-request'' \<and> f_expectedProtocol f = None)"
proof -
  let ?t = "strOf (fld input ''type'')"
  consider "?t = ''hello''" | "?t = ''command''" | "?t = ''query''" | "?t = ''task''"
    | "?t = ''subscribe''" | "?t = ''unsubscribe''" | "?t = ''observe''"
    | "?t \<notin> {''hello'', ''command'', ''query'', ''task'', ''subscribe'', ''unsubscribe'', ''observe''}"
    by blast
  then show ?thesis
    using assms
    by cases (simp_all only: decode_client_defs Let_def client_exact,
        simp_all split: if_split_asm, auto)
qed

text \<open>A greeting of an older build.\<close>

definition stale_hello :: jsval where
  "stale_hello = JObj [(''type'', JStr ''hello''), (''protocol'', jint 12)]"

theorem decodeClient_refusal_witness:
  "\<exists>f. decodeLibraryServiceClientMessage plain_env stale_hello = Inl f \<and>
       f_code f = ''protocol-mismatch'' \<and> f_expectedProtocol f = Some 13"
proof -
  have "isRecord stale_hello \<and> fld stale_hello ''protocol'' \<noteq> jint 13"
    by (simp add: stale_hello_def)
  moreover obtain f where "decodeLibraryServiceClientMessage plain_env stale_hello = Inl f"
    by (simp add: stale_hello_def decode_client_defs)
  ultimately show ?thesis using decodeClient_refusal [of plain_env stale_hello f] by auto
qed

section \<open>Payloads\<close>

text \<open>A \<open>season-watched.set\<close> command that passes names a series and at most 2048 episodes of it,
  as pairwise different positive integers: comparing the printed numbers finds every repeat.\<close>

theorem seasonWatched_episodes:
  assumes "command E v" and "fld v ''kind'' = JStr ''season-watched.set''"
  shows "fld (fld v ''title'') ''type'' = JStr ''tv'' \<and>
     (\<exists>ns. fld v ''episodes'' = JArr (map jint ns) \<and> distinct ns \<and> length ns \<le> 2048 \<and>
           (\<forall>n \<in> set ns. 0 < n))"
proof -
  from assms have sw: "seasonWatched E v"
    by (simp add: command_def Let_def guarded)
  then obtain xs where xs: "fld v ''episodes'' = JArr xs" "length xs \<le> 2048"
    "list_all (\<lambda>c. isInteger c \<and> num_gt c 0) xs"
    by (cases "fld v ''episodes''")
      (simp_all add: seasonWatched_def guarded LIBRARY_SERVICE_WIRE_LIMITS_def)
  then obtain ns where ns: "xs = map jint ns" "\<forall>n \<in> set ns. 0 < n"
    using positive_integers by blast
  have "distinct (map (js_String E) xs)"
    using sw xs(1) by (simp add: seasonWatched_def guarded unique_iff_distinct)
  then have "distinct xs" by (simp add: distinct_map)
  then have "distinct ns" using ns(1) by (simp add: distinct_map)
  moreover have "fld (fld v ''title'') ''type'' = JStr ''tv''"
    using sw by (simp add: seasonWatched_def guarded)
  ultimately show ?thesis
    using xs ns by (intro conjI exI [of _ ns]) simp_all
qed

definition season_command :: jsval where
  "season_command = JObj [(''kind'', JStr ''season-watched.set''),
     (''title'', JObj [(''type'', JStr ''tv''), (''id'', jint 7)]), (''season'', jint 1),
     (''episodes'', JArr [jint 1, jint 2]), (''watched'', JBool True)]"

theorem seasonWatched_episodes_witness:
  "\<exists>ns. fld season_command ''episodes'' = JArr (map jint ns) \<and> distinct ns \<and> length ns \<le> 2048"
proof -
  have "command plain_env season_command"
    by (simp add: command_def season_command_def seasonWatched_def titleRef_def isInteger_def
        MAX_SAFE_INTEGER_def codec_eval)
  moreover have "fld season_command ''kind'' = JStr ''season-watched.set''"
    by (simp add: season_command_def)
  ultimately show ?thesis using seasonWatched_episodes by blast
qed

text \<open>A presence subscription that passes names at most 512 titles, no two of them the same
  title: the text keys the codec compares are as fine as the pair of type and id.\<close>

theorem presence_titles_distinct:
  assumes "selection E v" and "fld v ''kind'' = JStr ''presence''"
  shows "\<exists>ts. fld v ''titles'' = JArr ts \<and> length ts \<le> 512 \<and> list_all titleRef ts \<and>
     distinct (map (\<lambda>t. (fld t ''type'', fld t ''id'')) ts)"
proof -
  from assms have "listOf (fld v ''titles'') titleRef 512"
    "unique (arrOf (fld v ''titles'')) (titleIdentity E)"
    by (simp_all add: selection_def Let_def guarded LIBRARY_SERVICE_WIRE_LIMITS_def)
  then show ?thesis
    using unique_titles_distinct by (cases "fld v ''titles''") auto
qed

definition presence_selection :: jsval where
  "presence_selection = JObj [(''kind'', JStr ''presence''),
     (''titles'', JArr [JObj [(''type'', JStr ''tv''), (''id'', jint 7)],
                        JObj [(''type'', JStr ''movie''), (''id'', jint 7)]])]"

theorem presence_titles_distinct_witness:
  "\<exists>ts. fld presence_selection ''titles'' = JArr ts \<and> length ts \<le> 512 \<and>
     distinct (map (\<lambda>t. (fld t ''type'', fld t ''id'')) ts)"
proof -
  have "selection plain_env presence_selection"
    by (simp add: selection_def presence_selection_def titleRef_def titleIdentity_def isInteger_def
        MAX_SAFE_INTEGER_def codec_eval)
  moreover have "fld presence_selection ''kind'' = JStr ''presence''"
    by (simp add: presence_selection_def)
  ultimately show ?thesis using presence_titles_distinct by blast
qed

lemma importSize_sum:
  "importSize items =
     sum_list (map (\<lambda>i. case fld i ''episodes'' of JArr es \<Rightarrow> length es | _ \<Rightarrow> 1) items)"
proof -
  have "foldl (\<lambda>total i. total + f i) a items = a + sum_list (map f items)"
    for f :: "jsval \<Rightarrow> nat" and a
    by (induction items arbitrary: a) auto
  then show ?thesis by (simp add: importSize_def)
qed

text \<open>A history import that passes carries at most 100000 plays in all: each film is one, each
  series brings its episode list, and the bound holds for the sum over the items.\<close>

theorem historyImport_bounded:
  assumes "task E v" and "fld v ''kind'' = JStr ''history.import''"
  shows "\<exists>items. fld v ''items'' = JArr items \<and>
     (\<forall>i \<in> set items. (fld (fld i ''title'') ''type'' = JStr ''movie'') =
        (fld i ''episodes'' = JUndef)) \<and>
     sum_list (map (\<lambda>i. if fld i ''episodes'' = JUndef then 1 else length (arrOf (fld i ''episodes''))) items)
       \<le> 100000"
proof -
  from assms have hi: "historyImport v"
    by (simp add: task_def Let_def guarded)
  then obtain items where items: "fld v ''items'' = JArr items" "list_all importItem items"
    "importSize items \<le> 100000"
    by (cases "fld v ''items''")
      (simp_all add: historyImport_def guarded LIBRARY_SERVICE_WIRE_LIMITS_def)
  have item: "(fld (fld i ''title'') ''type'' = JStr ''movie'') = (fld i ''episodes'' = JUndef) \<and>
     (case fld i ''episodes'' of JArr es \<Rightarrow> length es | _ \<Rightarrow> 1) =
     (if fld i ''episodes'' = JUndef then 1 else length (arrOf (fld i ''episodes'')))"
    if "i \<in> set items" for i
  proof -
    have "importItem i" using that items(2) by (simp add: list_all_iff)
    then show ?thesis
      by (cases "fld i ''episodes''"; cases "fld (fld i ''title'') ''type'' = JStr ''movie''")
        (simp_all add: importItem_def optional_def)
  qed
  then have "importSize items = sum_list (map (\<lambda>i. if fld i ''episodes'' = JUndef then 1
      else length (arrOf (fld i ''episodes''))) items)"
    unfolding importSize_sum by (intro arg_cong [where f = sum_list] map_cong) auto
  with items item show ?thesis by (intro exI [of _ items]) simp
qed

definition import_task :: jsval where
  "import_task = JObj [(''kind'', JStr ''history.import''),
     (''items'', JArr [JObj [(''title'', JObj [(''type'', JStr ''movie''), (''id'', jint 7)]),
                             (''watchedAt'', jint 5)]])]"

theorem historyImport_bounded_witness:
  "\<exists>items. fld import_task ''items'' = JArr items \<and>
     sum_list (map (\<lambda>i. if fld i ''episodes'' = JUndef then 1
       else length (arrOf (fld i ''episodes''))) items) \<le> 100000"
proof -
  have "task plain_env import_task"
    by (simp add: task_def import_task_def historyImport_def importItem_def importSize_def titleRef_def
        isInteger_def MAX_SAFE_INTEGER_def codec_eval)
  moreover have "fld import_task ''kind'' = JStr ''history.import''"
    by (simp add: import_task_def)
  ultimately show ?thesis using historyImport_bounded by blast
qed

text \<open>A \<open>title-shape\<close> observation that passes gives each season one episode count, and when it
  names the last aired episode, that episode is a positive number within the count of a season the
  shape lists.\<close>

theorem titleShape_lastAired:
  assumes "observation E v" and "fld v ''kind'' = JStr ''title-shape''"
  shows "\<exists>shape. fld v ''seasons'' = JArr shape \<and> length shape \<le> 256 \<and>
     distinct (map (\<lambda>c. fld c ''season'') shape) \<and>
     (fld v ''lastAired'' = JUndef \<or>
       (\<exists>c \<in> set shape. \<exists>episode count. fld c ''season'' = fld (fld v ''lastAired'') ''season'' \<and>
          fld (fld v ''lastAired'') ''episode'' = jint episode \<and> fld c ''episodes'' = jint count \<and>
          0 < episode \<and> episode \<le> count))"
proof -
  from assms have ts: "titleShape E v"
    by (simp add: observation_def Let_def guarded)
  define la where "la = fld v ''lastAired''"
  from ts obtain shape where shape: "fld v ''seasons'' = JArr shape" "length shape \<le> 256"
    "\<forall>c \<in> set shape. isInteger (fld c ''season'') \<and> isInteger (fld c ''episodes'')"
    by (cases "fld v ''seasons''")
      (simp_all add: titleShape_def guarded LIBRARY_SERVICE_WIRE_LIMITS_def list_all_iff)
  have "distinct (map (\<lambda>c. js_String E (fld c ''season'')) shape)"
    using ts shape(1) by (simp add: titleShape_def guarded unique_iff_distinct)
  then have "distinct (map (js_String E) (map (\<lambda>c. fld c ''season'') shape))"
    by (simp add: comp_def)
  then have dist: "distinct (map (\<lambda>c. fld c ''season'') shape)"
    using distinct_map by blast
  have "\<exists>c \<in> set shape. \<exists>episode count. fld c ''season'' = fld la ''season'' \<and>
      fld la ''episode'' = jint episode \<and> fld c ''episodes'' = jint count \<and>
      0 < episode \<and> episode \<le> count" if "la \<noteq> JUndef"
  proof -
    from ts that shape(1) have within: "airedWithin shape la"
      and ep: "isInteger (fld la ''episode'')" "num_gt (fld la ''episode'') 0"
      by (simp_all add: titleShape_def guarded optional_def la_def Let_def)
    from within obtain c where c: "c \<in> set shape" "fld c ''season'' = fld la ''season''"
      "ratOf (fld la ''episode'') \<le> ratOf (fld c ''episodes'')"
      by (auto simp: airedWithin_def find_Some_iff split: option.splits intro: nth_mem)
    from ep(1) obtain e where e: "fld la ''episode'' = jint e" by (rule isIntegerE)
    from c(1) shape(3) obtain n where n: "fld c ''episodes'' = jint n" by (auto elim: isIntegerE)
    show ?thesis using c e n ep(2) by auto
  qed
  with shape dist show ?thesis by (auto simp: la_def)
qed

definition shape_observation :: jsval where
  "shape_observation = JObj [(''kind'', JStr ''title-shape''),
     (''title'', JObj [(''type'', JStr ''tv''), (''id'', jint 7)]),
     (''seasons'', JArr [JObj [(''season'', jint 1), (''episodes'', jint 8)]]),
     (''lastAired'', JObj [(''season'', jint 1), (''episode'', jint 3)])]"

theorem titleShape_lastAired_witness:
  "\<exists>shape. fld shape_observation ''seasons'' = JArr shape \<and>
     distinct (map (\<lambda>c. fld c ''season'') shape)"
proof -
  have "observation plain_env shape_observation"
    by (simp add: observation_def shape_observation_def titleShape_def titleRef_def airedWithin_def
        isInteger_def MAX_SAFE_INTEGER_def codec_eval)
  moreover have "fld shape_observation ''kind'' = JStr ''title-shape''"
    by (simp add: shape_observation_def)
  ultimately show ?thesis using titleShape_lastAired by blast
qed

end
