(* ===== verification/JsMap.thy ===== *)
theory JsMap
  imports JsPrelude "HOL-Library.AList"
begin

text \<open>
  JavaScript's \<open>Map\<close> and its insertion order. \<open>set\<close> keeps the place of a key it already
  holds and puts a new one last, \<open>keys().next()\<close> is the oldest key, \<open>delete\<close> forgets one.
  The locale states what the modelled classes rely on; its lemmas are about the bounded
  replay tables and caches the sources build: set, then evict the oldest while over a limit.
\<close>

type_synonym ('k, 'v) jmap = "('k \<times> 'v) list"

definition jm_get :: "('k, 'v) jmap \<Rightarrow> 'k \<Rightarrow> 'v option" where
  "jm_get m k = map_of m k"

definition jm_set :: "'k \<Rightarrow> 'v \<Rightarrow> ('k, 'v) jmap \<Rightarrow> ('k, 'v) jmap" where
  "jm_set k v m = AList.update k v m"

definition jm_delete :: "'k \<Rightarrow> ('k, 'v) jmap \<Rightarrow> ('k, 'v) jmap" where
  "jm_delete k m = AList.delete k m"

definition jm_keys :: "('k, 'v) jmap \<Rightarrow> 'k list" where
  "jm_keys m = map fst m"

definition jm_inv :: "('k, 'v) jmap \<Rightarrow> bool" where
  "jm_inv m \<longleftrightarrow> distinct (map fst m)"

locale insertion_map =
  fixes get :: "'m \<Rightarrow> 'k \<Rightarrow> 'v option"
    and put :: "'k \<Rightarrow> 'v \<Rightarrow> 'm \<Rightarrow> 'm"
    and del :: "'k \<Rightarrow> 'm \<Rightarrow> 'm"
    and keys :: "'m \<Rightarrow> 'k list"
    and inv :: "'m \<Rightarrow> bool"
  assumes get_put: "inv m \<Longrightarrow> get (put k v m) = (get m)(k \<mapsto> v)"
    and get_del: "inv m \<Longrightarrow> get (del k m) = (get m)(k := None)"
    and keys_put: "inv m \<Longrightarrow> keys (put k v m) = (if k \<in> set (keys m) then keys m else keys m @ [k])"
    and keys_del: "inv m \<Longrightarrow> keys (del k m) = filter (\<lambda>x. x \<noteq> k) (keys m)"
    and keys_dom: "inv m \<Longrightarrow> set (keys m) = dom (get m)"
    and keys_distinct: "inv m \<Longrightarrow> distinct (keys m)"
    and inv_put: "inv m \<Longrightarrow> inv (put k v m)"
    and inv_del: "inv m \<Longrightarrow> inv (del k m)"
begin

lemma get_put_same: "inv m \<Longrightarrow> get (put k v m) k = Some v"
  by (simp add: get_put)

lemma length_keys_put: "inv m \<Longrightarrow> length (keys (put k v m)) \<le> Suc (length (keys m))"
  by (simp add: keys_put)

lemma keys_del_oldest:
  assumes "inv m" and "keys m \<noteq> []"
  shows "keys (del (hd (keys m)) m) = tl (keys m)"
  using assms keys_distinct [OF assms(1)]
  by (cases "keys m") (auto simp: keys_del filter_id_conv)

text \<open>
  Setting a key and evicting the oldest when that made the table too large: the table stays
  within the limit, and a key that is not the oldest stays unless it is the only one over.
\<close>

lemma bounded_put_size:
  assumes "inv m" and "length (keys m) \<le> limit"
  shows "length (keys (if length (keys (put k v m)) \<le> limit then put k v m
                       else del (hd (keys (put k v m))) (put k v m))) \<le> limit"
proof (cases "length (keys (put k v m)) \<le> limit")
  case False
  then have "keys (put k v m) \<noteq> []" by auto
  with False assms show ?thesis
    using length_keys_put [OF assms(1), of k v] keys_del_oldest [OF inv_put [OF assms(1)], of k v]
    by simp
qed simp

lemma bounded_put_get_same:
  assumes "inv m" and "0 < limit" and "length (keys m) \<le> limit"
  shows "get (if length (keys (put k v m)) \<le> limit then put k v m
              else del (hd (keys (put k v m))) (put k v m)) k = Some v"
proof (cases "length (keys (put k v m)) \<le> limit")
  case False
  then have new: "k \<notin> set (keys m)"
    using assms by (auto simp: keys_put split: if_splits)
  with False assms have "keys m \<noteq> []"
    by (auto simp: keys_put)
  with new have "hd (keys (put k v m)) \<noteq> k"
    using assms(1) by (auto simp: keys_put)
  with False assms(1) show ?thesis
    by (simp add: get_del inv_put get_put)
qed (use assms in \<open>simp add: get_put\<close>)

end

lemma jm_keys_update:
  "map fst (AList.update k v m) = (if k \<in> set (map fst m) then map fst m else map fst m @ [k])"
  by (induction m) auto

lemma jm_get_map_of: "jm_get m = map_of m"
  by (rule ext) (simp add: jm_get_def)

interpretation jm: insertion_map jm_get jm_set jm_delete jm_keys jm_inv
proof unfold_locales
  fix m :: "('k, 'v) jmap" and k v
  assume inv: "jm_inv m"
  show "jm_get (jm_set k v m) = (jm_get m)(k \<mapsto> v)"
    by (simp add: jm_get_def jm_set_def fun_eq_iff update_conv)
  show "jm_get (jm_delete k m) = (jm_get m)(k := None)"
    by (simp add: jm_get_def jm_delete_def fun_eq_iff delete_conv)
  show "jm_keys (jm_set k v m) = (if k \<in> set (jm_keys m) then jm_keys m else jm_keys m @ [k])"
    by (simp add: jm_keys_def jm_set_def jm_keys_update)
  show "jm_keys (jm_delete k m) = filter (\<lambda>x. x \<noteq> k) (jm_keys m)"
    by (induction m) (auto simp: jm_keys_def jm_delete_def)
  show "set (jm_keys m) = dom (jm_get m)"
    by (simp add: jm_keys_def jm_get_map_of dom_map_of_conv_image_fst)
  show "distinct (jm_keys m)"
    using inv by (simp add: jm_keys_def jm_inv_def)
  show "jm_inv (jm_set k v m)"
    using inv by (auto simp: jm_inv_def jm_set_def jm_keys_update)
  show "jm_inv (jm_delete k m)"
    using inv by (simp add: jm_inv_def jm_delete_def distinct_delete)
qed

lemma jm_inv_Nil [simp]: "jm_inv []"
  by (simp add: jm_inv_def)

lemma jm_keys_Nil [simp]: "jm_keys [] = []"
  by (simp add: jm_keys_def)

lemma length_jm_keys: "length (jm_keys m) = length m"
  by (simp add: jm_keys_def)

end
