(* ===== verification/ServiceCore.thy ===== *)
theory ServiceCore
  imports CodecFacts JsMap
begin

text \<open>
  \<^verbatim>\<open>web/src/lib/libraryServiceCore.ts\<close>: the actor that owns protocol ordering, subscriptions and
  the replay table of commands. The injected authority (\<open>LibraryServiceAuthority\<close>) is a parameter:
  a record of functions on a world \<open>'w\<close>, each of which returns its result or what it threw, and
  the world after. A promise that is awaited is the call itself: one request of the actor's lane is
  one function of the state. The messages are built as the objects the source writes.
\<close>

section \<open>The authority and the state of the actor\<close>

datatype change = Applied | Unchanged

datatype delivery = Synced | Queued | LocalOnly

text \<open>What a promise can reject with: a \<open>LibraryServiceAuthorityError\<close>, another \<open>Error\<close>, or a value
  that is not one.\<close>

datatype thrown = AuthorityError service_failure | JsError string | OtherThrown

record command_result =
  c_outcome :: change
  c_delivery :: delivery
  c_affected :: "jsval list"

record observation_result =
  ob_outcome :: change
  ob_affected :: "jsval list"

record task_outcome =
  t_result :: jsval
  t_affected :: "jsval list"

record 'w authority =
  a_open :: "jsval \<Rightarrow> 'w \<Rightarrow> (jsnum list \<times> (thrown + bool)) \<times> 'w"
  a_generation :: "'w \<Rightarrow> string option"
  a_select :: "jsval \<Rightarrow> 'w \<Rightarrow> (thrown + jsval) \<times> 'w"
  a_command :: "jsval \<Rightarrow> string \<Rightarrow> 'w \<Rightarrow> (thrown + command_result) \<times> 'w"
  a_query :: "jsval \<Rightarrow> 'w \<Rightarrow> (thrown + jsval) \<times> 'w"
  a_task :: "jsval \<Rightarrow> string \<Rightarrow> 'w \<Rightarrow> (thrown + task_outcome) \<times> 'w"
  a_observe :: "jsval \<Rightarrow> 'w \<Rightarrow> (thrown + observation_result) \<times> 'w"

record library_version =
  v_instance :: string
  v_generation :: "string option"
  v_revision :: nat

record subscription =
  s_selection :: jsval
  s_value :: jsval
  s_digest :: "string option"

record completed_operation =
  o_command :: "string option"
  o_outcome :: change
  o_delivery :: delivery
  o_version :: library_version

record client_info =
  cl_id :: jsval
  cl_libraryKey :: jsval
  cl_mode :: jsval
  cl_wire :: jsval

text \<open>The fields of \<open>LibraryServiceCore\<close>. \<open>opened\<close> is whether \<open>#authority\<close> is set, \<open>listening\<close>
  whether \<open>#stopAuthority\<close> is; a listener is a number, and \<open>delivered\<close> is what each was handed.\<close>

record 'w core =
  instanceId :: string
  subscriptions :: "(string, subscription) jmap"
  operations :: "(string, completed_operation) jmap"
  listeners :: "nat list"
  delivered :: "(nat \<times> jsval list) list"
  opened :: bool
  membership :: jsval
  listening :: bool
  client :: "client_info option"
  revision :: nat
  closed :: bool
  world :: 'w

definition OPERATION_HISTORY_LIMIT :: nat where
  "OPERATION_HISTORY_LIMIT = 1024"

definition new_core :: "string \<Rightarrow> 'w \<Rightarrow> 'w core" where
  "new_core inst w =
    \<lparr> instanceId = inst, subscriptions = [], operations = [], listeners = [], delivered = [],
      opened = False, membership = JNull, listening = False, client = None, revision = 0,
      closed = False, world = w \<rparr>"

section \<open>Failures and messages\<close>

definition failureOf :: "string \<Rightarrow> string \<Rightarrow> bool \<Rightarrow> service_failure" where
  "failureOf code message retryable =
    \<lparr> f_code = code, f_message = message, f_retryable = retryable,
      f_expectedProtocol = None, f_requiredWire = None \<rparr>"

fun authorityFailure :: "thrown \<Rightarrow> string \<Rightarrow> service_failure" where
  "authorityFailure (AuthorityError f) fallback = f"
| "authorityFailure (JsError message) fallback = failureOf ''internal'' message True"
| "authorityFailure OtherThrown fallback = failureOf ''internal'' fallback True"

definition requestIdOf :: "jsval \<Rightarrow> string option" where
  "requestIdOf input =
    (if \<not> isRecord input then None
     else case fld input ''requestId'' of
            JStr s \<Rightarrow> if s = [] then None else Some s
          | _ \<Rightarrow> None)"

text \<open>\<open>...(id ? { id } : {})\<close>.\<close>

definition truthy_field :: "string \<Rightarrow> string option \<Rightarrow> (string \<times> jsval) list" where
  "truthy_field k v = (case v of None \<Rightarrow> [] | Some s \<Rightarrow> if s = [] then [] else [(k, JStr s)])"

abbreviation PROTOCOL :: jsval where
  "PROTOCOL \<equiv> jint LIBRARY_SERVICE_PROTOCOL"

definition errorReply :: "service_failure \<Rightarrow> string option \<Rightarrow> string option \<Rightarrow> jsval" where
  "errorReply error requestId subscriptionId = JObj
     ([(''type'', JStr ''error''), (''protocol'', PROTOCOL)]
      @ truthy_field ''requestId'' requestId
      @ truthy_field ''subscriptionId'' subscriptionId
      @ [(''error'', enc_failure error)])"

fun enc_change :: "change \<Rightarrow> jsval" where
  "enc_change Applied = JStr ''applied''"
| "enc_change Unchanged = JStr ''unchanged''"

fun enc_delivery :: "delivery \<Rightarrow> jsval" where
  "enc_delivery Synced = JStr ''synced''"
| "enc_delivery Queued = JStr ''queued''"
| "enc_delivery LocalOnly = JStr ''local''"

definition enc_version :: "library_version \<Rightarrow> jsval" where
  "enc_version v = JObj
     [(''instance'', JStr (v_instance v)),
      (''generation'', case v_generation v of None \<Rightarrow> JNull | Some g \<Rightarrow> JStr g),
      (''revision'', jint (int (v_revision v)))]"

text \<open>\<open>#version()\<close>.\<close>

definition versionOf :: "'w authority \<Rightarrow> 'w core \<Rightarrow> library_version" where
  "versionOf A st =
    \<lparr> v_instance = instanceId st,
      v_generation = (if opened st then a_generation A (world st) else None),
      v_revision = revision st \<rparr>"

definition readyMessage :: "jsval \<Rightarrow> jsval \<Rightarrow> library_version \<Rightarrow> jsval" where
  "readyMessage requestId relay v = JObj
     [(''type'', JStr ''ready''), (''protocol'', PROTOCOL), (''requestId'', requestId),
      (''relayMembership'', relay), (''version'', enc_version v)]"

definition openingMessage :: "jsval \<Rightarrow> jsnum \<Rightarrow> jsval" where
  "openingMessage requestId p = JObj
     [(''type'', JStr ''opening''), (''protocol'', PROTOCOL), (''requestId'', requestId),
      (''progress'', JNum p)]"

definition updateMessage :: "string \<Rightarrow> library_version \<Rightarrow> jsval \<Rightarrow> jsval" where
  "updateMessage subscriptionId v value = JObj
     [(''type'', JStr ''update''), (''protocol'', PROTOCOL),
      (''subscriptionId'', JStr subscriptionId), (''version'', enc_version v), (''value'', value)]"

definition subscribedMessage :: "jsval \<Rightarrow> string \<Rightarrow> library_version \<Rightarrow> jsval" where
  "subscribedMessage requestId subscriptionId v = JObj
     [(''type'', JStr ''subscribed''), (''protocol'', PROTOCOL), (''requestId'', requestId),
      (''subscriptionId'', JStr subscriptionId), (''version'', enc_version v)]"

definition unsubscribedMessage :: "jsval \<Rightarrow> string \<Rightarrow> jsval" where
  "unsubscribedMessage requestId subscriptionId = JObj
     [(''type'', JStr ''unsubscribed''), (''protocol'', PROTOCOL), (''requestId'', requestId),
      (''subscriptionId'', JStr subscriptionId)]"

definition commandMessage ::
  "jsval \<Rightarrow> string \<Rightarrow> change \<Rightarrow> delivery \<Rightarrow> library_version \<Rightarrow> jsval" where
  "commandMessage requestId operationId outcome d v = JObj
     [(''type'', JStr ''command-result''), (''protocol'', PROTOCOL), (''requestId'', requestId),
      (''operationId'', JStr operationId), (''outcome'', enc_change outcome),
      (''delivery'', enc_delivery d), (''version'', enc_version v)]"

definition queryMessage :: "jsval \<Rightarrow> jsval \<Rightarrow> library_version \<Rightarrow> jsval" where
  "queryMessage requestId result v = JObj
     [(''type'', JStr ''query-result''), (''protocol'', PROTOCOL), (''requestId'', requestId),
      (''result'', result), (''version'', enc_version v)]"

definition taskMessage :: "jsval \<Rightarrow> string \<Rightarrow> jsval \<Rightarrow> library_version \<Rightarrow> jsval" where
  "taskMessage requestId operationId result v = JObj
     [(''type'', JStr ''task-result''), (''protocol'', PROTOCOL), (''requestId'', requestId),
      (''operationId'', JStr operationId), (''result'', result), (''version'', enc_version v)]"

definition observedMessage :: "jsval \<Rightarrow> library_version \<Rightarrow> jsval" where
  "observedMessage requestId v = JObj
     [(''type'', JStr ''observed''), (''protocol'', PROTOCOL), (''requestId'', requestId),
      (''version'', enc_version v)]"

definition statusMessage :: "jsval \<Rightarrow> jsval" where
  "statusMessage status = JObj
     [(''type'', JStr ''status''), (''protocol'', PROTOCOL), (''status'', status)]"

section \<open>Scopes\<close>

definition sameTitle :: "jsval \<Rightarrow> jsval \<Rightarrow> bool" where
  "sameTitle a b \<longleftrightarrow> fld a ''type'' = fld b ''type'' \<and> fld a ''id'' = fld b ''id''"

text \<open>\<open>request.query?.kind\<close> on whatever was sent: a property of something that is not an object is
  \<open>undefined\<close> for the purpose of this test.\<close>

definition isLibraryMetadataRequest :: "jsval \<Rightarrow> bool" where
  "isLibraryMetadataRequest input \<longleftrightarrow>
     isRecord input \<and> fld input ''type'' = JStr ''query'' \<and>
     fld (fld input ''query'') ''kind'' = JStr ''library.metadata''"

definition isAssistantPublish :: "jsval \<Rightarrow> bool" where
  "isAssistantPublish input \<longleftrightarrow>
     isRecord input \<and> fld input ''type'' = JStr ''task'' \<and>
     fld (fld input ''task'') ''kind'' = JStr ''assistant.publish''"

definition scopeMatches :: "jsval \<Rightarrow> jsval \<Rightarrow> bool" where
  "scopeMatches scope sel =
    (let kind = fld scope ''kind''; on = fld sel ''kind'' in
     if kind = JStr ''all'' then True
     else if kind = JStr ''overview'' then
       on = JStr ''overview'' \<or> on = JStr ''watchlist'' \<or> on = JStr ''recommendations''
     else if kind = JStr ''continue'' then on = JStr ''continue'' \<or> on = JStr ''watchlist''
     else if kind = JStr ''history'' \<or> kind = JStr ''settings'' \<or> kind = JStr ''devices'' \<or>
             kind = JStr ''connections'' \<or> kind = JStr ''simkl'' \<or> kind = JStr ''recovery'' \<or>
             kind = JStr ''runtime'' \<or> kind = JStr ''profiles'' \<or> kind = JStr ''downloads''
       then on = kind
     else if kind = JStr ''title'' then
       on = JStr ''title'' \<and> sameTitle (fld scope ''title'') (fld sel ''title'')
     else on = JStr ''presence'' \<and>
       list_ex (\<lambda>title. sameTitle (fld scope ''title'') title) (arrOf (fld sel ''titles'')))"

section \<open>Publication and the replay table\<close>

definition publish :: "jsval list \<Rightarrow> 'w core \<Rightarrow> 'w core" where
  "publish messages st =
     (if closed st then st
      else st\<lparr> delivered := delivered st @ map (\<lambda>l. (l, messages)) (listeners st) \<rparr>)"

definition rememberOperation ::
  "string \<Rightarrow> completed_operation \<Rightarrow> (string, completed_operation) jmap
     \<Rightarrow> (string, completed_operation) jmap" where
  "rememberOperation operationId completed ops =
     (let ops' = jm_set operationId completed ops in
      if length (jm_keys ops') \<le> OPERATION_HISTORY_LIMIT then ops'
      else jm_delete (hd (jm_keys ops')) ops')"

text \<open>The loop of \<open>#updates\<close> that reads every affected selection, before anything is changed.\<close>

fun stageUpdates ::
  "'w authority \<Rightarrow> js_env \<Rightarrow> jsval list \<Rightarrow> (string, subscription) jmap \<Rightarrow> 'w
     \<Rightarrow> (thrown + (string \<times> jsval \<times> string option) list) \<times> 'w" where
  "stageUpdates A E affected [] w = (Inr [], w)"
| "stageUpdates A E affected ((subscriptionId, sub) # rest) w =
    (if \<not> list_ex (\<lambda>scope. scopeMatches scope (s_selection sub)) affected
     then stageUpdates A E affected rest w
     else case a_select A (s_selection sub) w of
        (Inl e, w1) \<Rightarrow> (Inl e, w1)
      | (Inr value, w1) \<Rightarrow>
          (case stageUpdates A E affected rest w1 of
             (Inl e, w2) \<Rightarrow> (Inl e, w2)
           | (Inr staged, w2) \<Rightarrow>
               (let nextDigest = stringify E value in
                (Inr (if nextDigest = s_digest sub then staged
                      else (subscriptionId, value, nextDigest) # staged), w2))))"

fun commitUpdate ::
  "string \<times> jsval \<times> string option \<Rightarrow> (string, subscription) jmap \<Rightarrow> (string, subscription) jmap" where
  "commitUpdate (subscriptionId, value, dig) subs =
     (case jm_get subs subscriptionId of
        None \<Rightarrow> subs
      | Some sub \<Rightarrow> jm_set subscriptionId (sub\<lparr> s_value := value, s_digest := dig \<rparr>) subs)"

definition updates ::
  "'w authority \<Rightarrow> js_env \<Rightarrow> jsval list \<Rightarrow> 'w core \<Rightarrow> (thrown + jsval list) \<times> 'w core" where
  "updates A E affected st =
    (let v = versionOf A st in
     case stageUpdates A E affected (subscriptions st) (world st) of
       (Inl e, w) \<Rightarrow> (Inl e, st\<lparr> world := w \<rparr>)
     | (Inr staged, w) \<Rightarrow>
         (Inr (map (\<lambda>(subscriptionId, value, _). updateMessage subscriptionId v value) staged),
          st\<lparr> subscriptions := fold commitUpdate staged (subscriptions st), world := w \<rparr>))"

text \<open>The \<open>try { updates = ... } catch {}\<close> around it.\<close>

definition updatesOrNone ::
  "'w authority \<Rightarrow> js_env \<Rightarrow> jsval list \<Rightarrow> 'w core \<Rightarrow> jsval list \<times> 'w core" where
  "updatesOrNone A E affected st =
    (case updates A E affected st of (Inl _, st1) \<Rightarrow> ([], st1) | (Inr ms, st1) \<Rightarrow> (ms, st1))"

section \<open>The request handlers\<close>

definition core_hello :: "'w authority \<Rightarrow> jsval \<Rightarrow> 'w core \<Rightarrow> jsval list \<times> 'w core" where
  "core_hello A request st =
    (let requestId = fld request ''requestId''; rid = Some (strOf (fld request ''requestId'')) in
     case client st of
       Some c \<Rightarrow>
         if cl_id c \<noteq> fld request ''clientId'' \<or> cl_libraryKey c \<noteq> fld request ''libraryKey'' \<or>
            cl_mode c \<noteq> fld request ''mode'' \<or> cl_wire c \<noteq> fld request ''wire''
         then ([errorReply (failureOf ''conflict''
                  ''library service already belongs to another client'' False) rid None], st)
         else ([readyMessage requestId (membership st) (versionOf A st)], st)
     | None \<Rightarrow>
         (case a_open A request (world st) of
            ((fractions, result), w1) \<Rightarrow>
              let st1 = fold (\<lambda>p. publish [openingMessage requestId p]) fractions (st\<lparr> world := w1 \<rparr>) in
              (case result of
                 Inl (AuthorityError f) \<Rightarrow> ([errorReply f rid None], st1)
               | Inl (JsError message) \<Rightarrow>
                   ([errorReply (failureOf ''unavailable'' message True) rid None], st1)
               | Inl OtherThrown \<Rightarrow>
                   ([errorReply (failureOf ''unavailable'' ''library could not be opened'' True) rid None],
                    st1)
               | Inr False \<Rightarrow>
                   ([errorReply (failureOf ''not-found'' ''library could not be opened'' True) rid None],
                    st1)
               | Inr True \<Rightarrow>
                   (case a_query A (JObj [(''kind'', JStr ''relay.membership'')]) w1 of
                      (answer, w2) \<Rightarrow>
                        let relay = (case answer of
                              Inl _ \<Rightarrow> JNull
                            | Inr m \<Rightarrow> if fld m ''kind'' = JStr ''relay.membership''
                                       then fld m ''capability'' else JNull);
                            st2 = st1\<lparr> opened := True, listening := True, membership := relay,
                                     client := Some \<lparr> cl_id = fld request ''clientId'',
                                       cl_libraryKey = fld request ''libraryKey'',
                                       cl_mode = fld request ''mode'',
                                       cl_wire = fld request ''wire'' \<rparr>,
                                     world := w2 \<rparr> in
                        ([readyMessage requestId relay (versionOf A st2)], st2)))))"

definition core_subscribe ::
  "'w authority \<Rightarrow> js_env \<Rightarrow> jsval \<Rightarrow> 'w core \<Rightarrow> (thrown + jsval list) \<times> 'w core" where
  "core_subscribe A E request st =
    (case a_select A (fld request ''selection'') (world st) of
       (Inl e, w1) \<Rightarrow> (Inl e, st\<lparr> world := w1 \<rparr>)
     | (Inr value, w1) \<Rightarrow>
         let subscriptionId = strOf (fld request ''subscriptionId'');
             st1 = st\<lparr> world := w1,
                     subscriptions := jm_set subscriptionId
                       \<lparr> s_selection = fld request ''selection'', s_value = value,
                         s_digest = stringify E value \<rparr> (subscriptions st) \<rparr>;
             v = versionOf A st1 in
         (Inr [updateMessage subscriptionId v value,
               subscribedMessage (fld request ''requestId'') subscriptionId v], st1))"

definition bump :: "change \<Rightarrow> 'w core \<Rightarrow> 'w core" where
  "bump outcome st = (if outcome = Applied then st\<lparr> revision := revision st + 1 \<rparr> else st)"

definition core_command ::
  "'w authority \<Rightarrow> js_env \<Rightarrow> jsval \<Rightarrow> 'w core \<Rightarrow> (thrown + jsval list) \<times> 'w core" where
  "core_command A E request st =
    (let encoded = stringify E (fld request ''command'');
         operationId = strOf (fld request ''operationId'');
         requestId = fld request ''requestId'' in
     case jm_get (operations st) operationId of
       Some completed \<Rightarrow>
         if o_command completed \<noteq> encoded
         then (Inr [errorReply (failureOf ''conflict''
                 ''operationId was already used for another command'' False) (Some (strOf requestId)) None], st)
         else (Inr [commandMessage requestId operationId (o_outcome completed) (o_delivery completed)
                      (o_version completed)], st)
     | None \<Rightarrow>
         (case a_command A (fld request ''command'') operationId (world st) of
            (Inl e, w1) \<Rightarrow> (Inl e, st\<lparr> world := w1 \<rparr>)
          | (Inr r, w1) \<Rightarrow>
              let st1 = bump (c_outcome r) (st\<lparr> world := w1 \<rparr>);
                  v = versionOf A st1;
                  st2 = st1\<lparr> operations := rememberOperation operationId
                          \<lparr> o_command = encoded, o_outcome = c_outcome r, o_delivery = c_delivery r,
                            o_version = v \<rparr> (operations st1) \<rparr>;
                  (ms, st3) = (if c_outcome r = Applied then updatesOrNone A E (c_affected r) st2
                               else ([], st2)) in
              (Inr (ms @ [commandMessage requestId operationId (c_outcome r) (c_delivery r) v]), st3)))"

definition core_observe ::
  "'w authority \<Rightarrow> js_env \<Rightarrow> jsval \<Rightarrow> 'w core \<Rightarrow> (thrown + jsval list) \<times> 'w core" where
  "core_observe A E request st =
    (case a_observe A (fld request ''observation'') (world st) of
       (Inl e, w1) \<Rightarrow> (Inl e, st\<lparr> world := w1 \<rparr>)
     | (Inr r, w1) \<Rightarrow>
         let st1 = bump (ob_outcome r) (st\<lparr> world := w1 \<rparr>);
             v = versionOf A st1;
             (ms, st2) = (if ob_outcome r = Applied then updatesOrNone A E (ob_affected r) st1
                          else ([], st1)) in
         (Inr (ms @ [observedMessage (fld request ''requestId'') v]), st2))"

definition core_query ::
  "'w authority \<Rightarrow> jsval \<Rightarrow> 'w core \<Rightarrow> (thrown + jsval list) \<times> 'w core" where
  "core_query A request st =
    (case a_query A (fld request ''query'') (world st) of
       (Inl e, w1) \<Rightarrow> (Inl e, st\<lparr> world := w1 \<rparr>)
     | (Inr result, w1) \<Rightarrow>
         let st1 = st\<lparr> world := w1 \<rparr> in
         (Inr [queryMessage (fld request ''requestId'') result (versionOf A st1)], st1))"

definition core_task ::
  "'w authority \<Rightarrow> js_env \<Rightarrow> jsval \<Rightarrow> 'w core \<Rightarrow> (thrown + jsval list) \<times> 'w core" where
  "core_task A E request st =
    (let operationId = strOf (fld request ''operationId'') in
     case a_task A (fld request ''task'') operationId (world st) of
       (Inl e, w1) \<Rightarrow> (Inl e, st\<lparr> world := w1 \<rparr>)
     | (Inr r, w1) \<Rightarrow>
         let (ms, st1) = updatesOrNone A E (t_affected r)
                           (st\<lparr> world := w1, revision := revision st + 1 \<rparr>) in
         (Inr (ms @ [taskMessage (fld request ''requestId'') operationId (t_result r)
                       (versionOf A st1)]), st1))"

definition core_unsubscribe :: "jsval \<Rightarrow> 'w core \<Rightarrow> (thrown + jsval list) \<times> 'w core" where
  "core_unsubscribe request st =
    (let subscriptionId = strOf (fld request ''subscriptionId'') in
     (Inr [unsubscribedMessage (fld request ''requestId'') subscriptionId],
      st\<lparr> subscriptions := jm_delete subscriptionId (subscriptions st) \<rparr>))"

text \<open>The \<open>switch\<close> of \<open>#dispatch\<close>, inside its \<open>try\<close>.\<close>

definition core_handle ::
  "'w authority \<Rightarrow> js_env \<Rightarrow> jsval \<Rightarrow> 'w core \<Rightarrow> (thrown + jsval list) \<times> 'w core" where
  "core_handle A E request st =
    (let type = fld request ''type'' in
     if type = JStr ''subscribe'' then core_subscribe A E request st
     else if type = JStr ''unsubscribe'' then core_unsubscribe request st
     else if type = JStr ''command'' then core_command A E request st
     else if type = JStr ''query'' then core_query A request st
     else if type = JStr ''task'' then core_task A E request st
     else core_observe A E request st)"

definition core_dispatch ::
  "'w authority \<Rightarrow> js_env \<Rightarrow> jsval \<Rightarrow> 'w core \<Rightarrow> jsval list \<times> 'w core" where
  "core_dispatch A E input st =
    (case decodeLibraryServiceClientMessage E input of
       Inl error \<Rightarrow> ([errorReply error (requestIdOf input) None], st)
     | Inr request \<Rightarrow>
         let rid = Some (strOf (fld request ''requestId'')); type = fld request ''type'' in
         if closed st
           then ([errorReply (failureOf ''cancelled'' ''library service is closed'' False) rid None], st)
         else if type = JStr ''hello'' then core_hello A request st
         else if \<not> opened st
           then ([errorReply (failureOf ''not-ready'' ''library service is not ready'' True) rid None], st)
         else case core_handle A E request st of
             (Inr messages, st1) \<Rightarrow> (messages, st1)
           | (Inl e, st1) \<Rightarrow>
               ([errorReply (authorityFailure e ''library service request failed'') rid
                   (if type = JStr ''subscribe'' \<or> type = JStr ''unsubscribe''
                    then Some (strOf (fld request ''subscriptionId'')) else None)], st1))"

section \<open>Authority events, listeners and closing\<close>

datatype authority_status =
    StatusReady
  | StatusReconnecting
  | StatusReadOnly string
  | StatusMoved "string option"
  | StatusFailed service_failure

datatype authority_event = Changed "jsval list" | StatusEvent authority_status

fun statusOf :: "'w authority \<Rightarrow> authority_status \<Rightarrow> 'w core \<Rightarrow> jsval" where
  "statusOf A StatusReady st =
     JObj [(''kind'', JStr ''ready''), (''version'', enc_version (versionOf A st))]"
| "statusOf A StatusReconnecting st =
     JObj [(''kind'', JStr ''reconnecting''), (''version'', enc_version (versionOf A st))]"
| "statusOf A (StatusReadOnly reason) st =
     JObj [(''kind'', JStr ''read-only''), (''version'', enc_version (versionOf A st)),
           (''reason'', JStr reason)]"
| "statusOf A (StatusMoved successor) st =
     JObj ((''kind'', JStr ''moved'') # truthy_field ''successor'' successor)"
| "statusOf A (StatusFailed error) st =
     JObj [(''kind'', JStr ''failed''), (''error'', enc_failure error)]"

text \<open>The body of the job \<open>#enqueueAuthorityEvent\<close> puts on the lane.\<close>

definition core_event ::
  "'w authority \<Rightarrow> js_env \<Rightarrow> authority_event \<Rightarrow> 'w core \<Rightarrow> 'w core" where
  "core_event A E event st =
    (if closed st \<or> \<not> opened st then st
     else case event of
         StatusEvent status \<Rightarrow> publish [statusMessage (statusOf A status st)] st
       | Changed affected \<Rightarrow>
           (case updates A E affected (st\<lparr> revision := revision st + 1 \<rparr>) of
              (Inl _, st1) \<Rightarrow> st1
            | (Inr messages, st1) \<Rightarrow> if messages = [] then st1 else publish messages st1))"

definition core_listen :: "nat \<Rightarrow> 'w core \<Rightarrow> 'w core" where
  "core_listen l st =
     (if closed st \<or> l \<in> set (listeners st) then st else st\<lparr> listeners := listeners st @ [l] \<rparr>)"

definition core_unlisten :: "nat \<Rightarrow> 'w core \<Rightarrow> 'w core" where
  "core_unlisten l st = st\<lparr> listeners := filter (\<lambda>x. x \<noteq> l) (listeners st) \<rparr>"

text \<open>\<open>close()\<close>: what it does at once, and what it does when the lane and the provider work have
  drained. The authority's own \<open>close\<close> is the function \<open>shut\<close> of the world.\<close>

definition core_close_begin :: "'w core \<Rightarrow> 'w core" where
  "core_close_begin st = st\<lparr> closed := True \<rparr>"

definition core_close_finish :: "('w \<Rightarrow> 'w) \<Rightarrow> 'w core \<Rightarrow> 'w core" where
  "core_close_finish shut st =
     st\<lparr> subscriptions := [], operations := [], listeners := [], listening := False, opened := False,
        world := (if opened st then shut (world st) else world st) \<rparr>"

end
