(* ===== verification/Transitions.thy ===== *)
theory Transitions
  imports Main
begin

text \<open>
  What every component with a step relation needs: an invariant that holds at the start and that
  every step keeps holds in every reachable state, and a quantity no step decreases never decreases.
\<close>

locale stepping =
  fixes start :: "'s \<Rightarrow> bool"
    and step :: "'s \<Rightarrow> 's \<Rightarrow> bool"
    and inv :: "'s \<Rightarrow> bool"
  assumes inv_start: "start s \<Longrightarrow> inv s"
    and inv_step: "inv s \<Longrightarrow> step s t \<Longrightarrow> inv t"
begin

lemma inv_steps: "step\<^sup>*\<^sup>* s t \<Longrightarrow> inv s \<Longrightarrow> inv t"
  by (induction rule: rtranclp_induct) (auto intro: inv_step)

lemma inv_reachable: "start s \<Longrightarrow> step\<^sup>*\<^sup>* s t \<Longrightarrow> inv t"
  by (auto intro: inv_steps inv_start)

end

locale growing = stepping start step inv
  for start :: "'s \<Rightarrow> bool" and step :: "'s \<Rightarrow> 's \<Rightarrow> bool" and inv :: "'s \<Rightarrow> bool" +
  fixes quantity :: "'s \<Rightarrow> 'n :: order"
  assumes quantity_step: "inv s \<Longrightarrow> step s t \<Longrightarrow> quantity s \<le> quantity t"
begin

lemma quantity_steps: "step\<^sup>*\<^sup>* s t \<Longrightarrow> inv s \<Longrightarrow> quantity s \<le> quantity t"
proof (induction rule: rtranclp_induct)
  case (step t u)
  then show ?case
    using quantity_step [of t u] inv_steps [of s t] by (auto intro: order_trans)
qed simp

end

end
