(* ===== verification/CoreFacts.thy ===== *)
theory CoreFacts
  imports ServiceCore Transitions
begin

text \<open>
  The correctness of the library actor: its invariant, the replay table of commands, the
  all-or-nothing replacement of subscriptions, versions, ownership by one client, and closing.
\<close>

section \<open>The invariant\<close>

definition digests_ok :: "js_env \<Rightarrow> (string, subscription) jmap \<Rightarrow> bool" where
  "digests_ok E subs \<longleftrightarrow> (\<forall>p \<in> set subs. s_digest (snd p) = stringify E (s_value (snd p)))"

definition versions_ok :: "'w core \<Rightarrow> bool" where
  "versions_ok st \<longleftrightarrow> (\<forall>p \<in> set (operations st).
     v_instance (o_version (snd p)) = instanceId st \<and> v_revision (o_version (snd p)) \<le> revision st)"

definition core_inv :: "js_env \<Rightarrow> 'w core \<Rightarrow> bool" where
  "core_inv E st \<longleftrightarrow>
     jm_inv (subscriptions st) \<and> digests_ok E (subscriptions st) \<and>
     jm_inv (operations st) \<and> length (operations st) \<le> OPERATION_HISTORY_LIMIT \<and>
     versions_ok st \<and> (opened st \<longrightarrow> client st \<noteq> None)"

text \<open>What every transition of the actor keeps or only moves forward.\<close>

definition advances :: "js_env \<Rightarrow> 'w core \<Rightarrow> 'w core \<Rightarrow> bool" where
  "advances E st st' \<longleftrightarrow>
     instanceId st' = instanceId st \<and> revision st \<le> revision st' \<and>
     (closed st \<longrightarrow> closed st') \<and> (core_inv E st \<longrightarrow> core_inv E st')"

lemma advances_refl [simp]: "advances E st st"
  by (simp add: advances_def)

lemma advances_trans: "advances E s t \<Longrightarrow> advances E t u \<Longrightarrow> advances E s u"
  by (auto simp: advances_def)

lemma set_jm_set: "set (jm_set k v m) \<subseteq> insert (k, v) (set m)"
  unfolding jm_set_def by (induction m) auto

lemma set_jm_delete: "set (jm_delete k m) \<subseteq> set m"
  by (auto simp: jm_delete_def AList.delete_eq)

lemma new_core_inv [simp]: "core_inv E (new_core inst w)"
  by (simp add: core_inv_def new_core_def digests_ok_def versions_ok_def)

subsection \<open>Replay table\<close>

lemma rememberOperation_inv:
  assumes "jm_inv ops"
  shows "jm_inv (rememberOperation k c ops)"
  using assms by (simp add: rememberOperation_def Let_def jm.inv_put jm.inv_del)

lemma rememberOperation_size:
  assumes "jm_inv ops" and "length ops \<le> OPERATION_HISTORY_LIMIT"
  shows "length (rememberOperation k c ops) \<le> OPERATION_HISTORY_LIMIT"
  using jm.bounded_put_size [of ops OPERATION_HISTORY_LIMIT k c] assms
  by (simp add: rememberOperation_def Let_def length_jm_keys split: if_splits)

lemma rememberOperation_set: "set (rememberOperation k c ops) \<subseteq> insert (k, c) (set ops)"
  using set_jm_set [of k c ops] set_jm_delete [of "hd (jm_keys (jm_set k c ops))" "jm_set k c ops"]
  by (auto simp: rememberOperation_def Let_def)

lemma rememberOperation_get:
  assumes "jm_inv ops" and "length ops \<le> OPERATION_HISTORY_LIMIT"
  shows "jm_get (rememberOperation k c ops) k = Some c"
  using jm.bounded_put_get_same [of ops OPERATION_HISTORY_LIMIT k c] assms
  by (simp add: rememberOperation_def Let_def length_jm_keys OPERATION_HISTORY_LIMIT_def split: if_splits)

subsection \<open>Replacing subscriptions\<close>

lemma commitUpdate_inv: "jm_inv subs \<Longrightarrow> jm_inv (commitUpdate u subs)"
  by (cases u) (auto simp: jm.inv_put split: option.splits)

lemma commitUpdate_digests:
  assumes "digests_ok E subs" and "snd (snd u) = stringify E (fst (snd u))"
  shows "digests_ok E (commitUpdate u subs)"
proof (cases u)
  case (fields k v d)
  have "s_digest (snd p) = stringify E (s_value (snd p))"
    if "p \<in> set (jm_set k (sub\<lparr>s_value := v, s_digest := d\<rparr>) subs)" for p sub
    using that assms fields set_jm_set [of k _ subs] by (fastforce simp: digests_ok_def)
  then show ?thesis
    using assms fields by (auto simp: digests_ok_def split: option.splits)
qed

lemma fold_commit:
  assumes "jm_inv subs" and "digests_ok E subs" and "\<forall>u \<in> set us. snd (snd u) = stringify E (fst (snd u))"
  shows "jm_inv (fold commitUpdate us subs) \<and> digests_ok E (fold commitUpdate us subs)"
  using assms
  by (induction us arbitrary: subs) (simp_all add: commitUpdate_inv commitUpdate_digests)

lemma stageUpdates_digests:
  "stageUpdates A E affected subs w = (Inr us, w') \<Longrightarrow>
     \<forall>u \<in> set us. snd (snd u) = stringify E (fst (snd u))"
proof (induction subs arbitrary: w us)
  case (Cons p subs)
  then show ?case
    by (cases p) (fastforce simp: Let_def split: if_splits prod.splits sum.splits)
qed simp

lemma updates_frame:
  assumes "updates A E affected st = (r, st')"
  shows "\<exists>subs w. st' = st\<lparr> subscriptions := subs, world := w \<rparr> \<and>
     (core_inv E st \<longrightarrow> jm_inv subs \<and> digests_ok E subs)"
proof (cases "stageUpdates A E affected (subscriptions st) (world st)")
  case (Pair s w)
  show ?thesis
  proof (cases s)
    case (Inl e)
    with assms Pair have "st' = st\<lparr> subscriptions := subscriptions st, world := w \<rparr>"
      by (simp add: updates_def)
    then show ?thesis
      by (intro exI [of _ "subscriptions st"] exI [of _ w]) (simp add: core_inv_def)
  next
    case (Inr us)
    with assms Pair have "st' = st\<lparr> subscriptions := fold commitUpdate us (subscriptions st), world := w \<rparr>"
      by (simp add: updates_def Let_def)
    moreover have "\<forall>u \<in> set us. snd (snd u) = stringify E (fst (snd u))"
      using Pair Inr by (intro stageUpdates_digests) simp
    ultimately show ?thesis
      using fold_commit [of "subscriptions st" E us]
      by (intro exI [of _ "fold commitUpdate us (subscriptions st)"] exI [of _ w])
        (auto simp: core_inv_def)
  qed
qed

lemma updates_advances: "advances E st (snd (updates A E affected st))"
proof -
  obtain r st' where u: "updates A E affected st = (r, st')" by (cases "updates A E affected st")
  from updates_frame [OF u] obtain subs w where
    "st' = st\<lparr> subscriptions := subs, world := w \<rparr>"
    "core_inv E st \<longrightarrow> jm_inv subs \<and> digests_ok E subs" by blast
  then show ?thesis
    using u by (auto simp: advances_def core_inv_def versions_ok_def)
qed

lemma updatesOrNone_advances: "advances E st (snd (updatesOrNone A E affected st))"
  using updates_advances [of E st A affected]
  by (auto simp: updatesOrNone_def split: prod.splits sum.splits)

subsection \<open>The handlers\<close>

lemma advances_world:
  "advances E st (st\<lparr> world := w \<rparr>)"
  "advances E st (st\<lparr> world := w, revision := Suc (revision st) \<rparr>)"
  "advances E st (st\<lparr> revision := Suc (revision st) \<rparr>)"
  by (auto simp: advances_def core_inv_def versions_ok_def)

lemma bump_advances: "advances E st (bump outcome st)"
  by (simp add: bump_def advances_world)

lemma publish_advances: "advances E st (publish ms st)"
  by (auto simp: publish_def advances_def core_inv_def versions_ok_def)

lemma fold_publish_advances: "advances E st (fold (\<lambda>p. publish (f p)) ps st)"
  by (induction ps arbitrary: st) (auto intro: advances_trans publish_advances)

lemma remember_advances:
  assumes "v_instance (o_version c) = instanceId st" and "v_revision (o_version c) \<le> revision st"
  shows "advances E st (st\<lparr> operations := rememberOperation k c (operations st) \<rparr>)"
  using assms rememberOperation_set [of k c "operations st"]
  by (auto simp: advances_def core_inv_def versions_ok_def rememberOperation_inv rememberOperation_size)

lemma subscribe_advances:
  "advances E st (st\<lparr> world := w, subscriptions := jm_set k
     \<lparr> s_selection = sel, s_value = v, s_digest = stringify E v \<rparr> (subscriptions st) \<rparr>)"
  using set_jm_set [of k "\<lparr> s_selection = sel, s_value = v, s_digest = stringify E v \<rparr>" "subscriptions st"]
  by (fastforce simp: advances_def core_inv_def versions_ok_def digests_ok_def jm.inv_put)

lemma unsubscribe_advances:
  "advances E st (st\<lparr> subscriptions := jm_delete k (subscriptions st) \<rparr>)"
  using set_jm_delete [of k "subscriptions st"]
  by (auto simp: advances_def core_inv_def versions_ok_def digests_ok_def jm.inv_del)

lemma core_command_advances: "advances E st (snd (core_command A E request st))"
proof (cases "jm_get (operations st) (strOf (fld request ''operationId''))")
  case None
  let ?op = "strOf (fld request ''operationId'')"
  obtain r w where c: "a_command A (fld request ''command'') ?op (world st) = (r, w)"
    by (cases "a_command A (fld request ''command'') ?op (world st)")
  show ?thesis
  proof (cases r)
    case (Inl e)
    with None c show ?thesis by (simp add: core_command_def advances_world)
  next
    case (Inr res)
    define st1 where "st1 = bump (c_outcome res) (st\<lparr> world := w \<rparr>)"
    define st2 where "st2 = st1\<lparr> operations := rememberOperation ?op
      \<lparr> o_command = stringify E (fld request ''command''), o_outcome = c_outcome res,
        o_delivery = c_delivery res, o_version = versionOf A st1 \<rparr> (operations st1) \<rparr>"
    have 1: "advances E st st1"
      unfolding st1_def by (rule advances_trans [OF advances_world(1) bump_advances])
    have 2: "advances E st1 st2"
      unfolding st2_def by (rule remember_advances) (simp_all add: versionOf_def)
    have 3: "advances E st2 (snd (updatesOrNone A E (c_affected res) st2))"
      by (rule updatesOrNone_advances)
    have "snd (core_command A E request st) =
      (if c_outcome res = Applied then snd (updatesOrNone A E (c_affected res) st2) else st2)"
      using None c Inr by (simp add: core_command_def Let_def st1_def st2_def split_def)
    then show ?thesis
      using advances_trans [OF 1 2] advances_trans [OF advances_trans [OF 1 2] 3] by simp
  qed
qed (simp add: core_command_def Let_def)

lemma core_observe_advances: "advances E st (snd (core_observe A E request st))"
proof -
  obtain r w where c: "a_observe A (fld request ''observation'') (world st) = (r, w)"
    by (cases "a_observe A (fld request ''observation'') (world st)")
  show ?thesis
  proof (cases r)
    case (Inl e)
    with c show ?thesis by (simp add: core_observe_def advances_world)
  next
    case (Inr res)
    have 1: "advances E st (bump (ob_outcome res) (st\<lparr> world := w \<rparr>))"
      by (rule advances_trans [OF advances_world(1) bump_advances])
    show ?thesis
      using c Inr 1 advances_trans [OF 1 updatesOrNone_advances [of E _ A "ob_affected res"]]
      by (auto simp: core_observe_def Let_def split_def)
  qed
qed

lemma core_task_advances: "advances E st (snd (core_task A E request st))"
proof -
  let ?op = "strOf (fld request ''operationId'')"
  obtain r w where c: "a_task A (fld request ''task'') ?op (world st) = (r, w)"
    by (cases "a_task A (fld request ''task'') ?op (world st)")
  show ?thesis
  proof (cases r)
    case (Inl e)
    with c show ?thesis by (simp add: core_task_def advances_world)
  next
    case (Inr res)
    show ?thesis
      using c Inr advances_trans [OF advances_world(2) updatesOrNone_advances [of E _ A "t_affected res"]]
      by (auto simp: core_task_def Let_def split_def)
  qed
qed

lemma core_handle_advances: "advances E st (snd (core_handle A E request st))"
  using core_command_advances [of E st A request] core_observe_advances [of E st A request]
    core_task_advances [of E st A request]
  by (auto simp: core_handle_def core_subscribe_def core_unsubscribe_def core_query_def Let_def
      advances_world subscribe_advances unsubscribe_advances split: prod.splits sum.splits)

lemma hello_open_advances:
  "advances E st (st\<lparr> opened := True, listening := l, membership := m, client := Some c, world := w \<rparr>)"
  by (auto simp: advances_def core_inv_def versions_ok_def)

lemma core_hello_advances: "advances E st (snd (core_hello A request st))"
proof (cases "client st")
  case None
  obtain ps r w where o: "a_open A request (world st) = ((ps, r), w)"
    by (cases "a_open A request (world st)") auto
  define st1 where
    "st1 = fold (\<lambda>p. publish [openingMessage (fld request ''requestId'') p]) ps (st\<lparr> world := w \<rparr>)"
  have 1: "advances E st st1"
    unfolding st1_def by (rule advances_trans [OF advances_world(1) fold_publish_advances])
  show ?thesis
    using None o 1 advances_trans [OF 1 hello_open_advances]
    by (auto simp: core_hello_def Let_def st1_def [symmetric]
        split: sum.splits thrown.splits bool.splits prod.splits)
qed (simp add: core_hello_def Let_def)

lemma core_dispatch_advances: "advances E st (snd (core_dispatch A E input st))"
proof (cases "decodeLibraryServiceClientMessage E input")
  case (Inr request)
  show ?thesis
    using Inr core_hello_advances [of E st A request] core_handle_advances [of E st A request]
    by (auto simp: core_dispatch_def Let_def split: prod.splits sum.splits)
qed (simp add: core_dispatch_def)

lemma core_event_advances: "advances E st (core_event A E event st)"
proof (cases event)
  case (Changed affected)
  let ?st1 = "st\<lparr> revision := Suc (revision st) \<rparr>"
  have "advances E st (snd (updates A E affected ?st1))"
    by (rule advances_trans [OF advances_world(3) updates_advances])
  then show ?thesis
    using Changed advances_trans [OF _ publish_advances, of E st]
    by (auto simp: core_event_def split: prod.splits sum.splits)
qed (simp add: core_event_def publish_advances)

section \<open>Commands run once\<close>

lemma client_message_command:
  assumes "client_message E m" and "fld m ''type'' = JStr ''command''"
  shows "decodeLibraryServiceClientMessage E m = Inr m"
  using assms by (simp add: decode_client_iff)

lemma core_dispatch_command:
  assumes "client_message E m" and "fld m ''type'' = JStr ''command''"
    and "\<not> closed st" and "opened st" and "core_command A E m st = (Inr ms, st')"
  shows "core_dispatch A E m st = (ms, st')"
  using assms by (simp add: core_dispatch_def client_message_command core_handle_def Let_def)

text \<open>Repeating a completed command under its operation id, in a new request, returns the
  recorded outcome, delivery and version, and changes nothing: the authority is not called, no
  revision is taken, no subscription is touched.\<close>

theorem command_replay:
  assumes "client_message E m" and "fld m ''type'' = JStr ''command''"
    and "\<not> closed st" and "opened st"
    and "jm_get (operations st) (strOf (fld m ''operationId'')) = Some c"
    and "o_command c = stringify E (fld m ''command'')"
  shows "core_dispatch A E m st =
    ([commandMessage (fld m ''requestId'') (strOf (fld m ''operationId'')) (o_outcome c)
        (o_delivery c) (o_version c)], st)"
  using assms by (intro core_dispatch_command) (simp_all add: core_command_def Let_def)

text \<open>An operation id that was used for another command is refused with \<open>conflict\<close>, and nothing
  changes: the second command never reaches the authority.\<close>

theorem command_conflict:
  assumes "client_message E m" and "fld m ''type'' = JStr ''command''"
    and "\<not> closed st" and "opened st"
    and "jm_get (operations st) (strOf (fld m ''operationId'')) = Some c"
    and "o_command c \<noteq> stringify E (fld m ''command'')"
  shows "\<exists>f. core_dispatch A E m st = ([errorReply f (Some (strOf (fld m ''requestId''))) None], st) \<and>
     f_code f = ''conflict'' \<and> \<not> f_retryable f"
proof -
  let ?f = "failureOf ''conflict'' ''operationId was already used for another command'' False"
  have "core_dispatch A E m st = ([errorReply ?f (Some (strOf (fld m ''requestId''))) None], st)"
    using assms by (intro core_dispatch_command) (simp_all add: core_command_def Let_def)
  then show ?thesis by (intro exI [of _ ?f]) (simp add: failureOf_def)
qed

text \<open>The authority answered the command: what it said is recorded under the operation id, whatever
  happened to the subscriptions.\<close>

lemma updatesOrNone_operations: "operations (snd (updatesOrNone A E affected st)) = operations st"
proof -
  obtain r st' where u: "updates A E affected st = (r, st')" by (cases "updates A E affected st")
  from updates_frame [OF u] u show ?thesis
    by (auto simp: updatesOrNone_def split: sum.splits)
qed

lemma core_command_records:
  assumes "core_inv E st" and "jm_get (operations st) (strOf (fld m ''operationId'')) = None"
    and "a_command A (fld m ''command'') (strOf (fld m ''operationId'')) (world st) = (Inr r, w)"
  shows "\<exists>ms st' v. core_command A E m st =
      (Inr (ms @ [commandMessage (fld m ''requestId'') (strOf (fld m ''operationId'')) (c_outcome r)
                    (c_delivery r) v]), st') \<and>
      jm_get (operations st') (strOf (fld m ''operationId'')) = Some
        \<lparr> o_command = stringify E (fld m ''command''), o_outcome = c_outcome r,
          o_delivery = c_delivery r, o_version = v \<rparr> \<and> opened st' = opened st \<and> closed st' = closed st"
proof -
  let ?op = "strOf (fld m ''operationId'')"
  define st1 where "st1 = bump (c_outcome r) (st\<lparr> world := w \<rparr>)"
  define c where "c = \<lparr> o_command = stringify E (fld m ''command''), o_outcome = c_outcome r,
        o_delivery = c_delivery r, o_version = versionOf A st1 \<rparr>"
  define st2 where "st2 = st1\<lparr> operations := rememberOperation ?op c (operations st1) \<rparr>"
  define res where "res = (if c_outcome r = Applied then updatesOrNone A E (c_affected r) st2 else ([], st2))"
  have ops1: "operations st1 = operations st" "opened st1 = opened st" "closed st1 = closed st"
    by (simp_all add: st1_def bump_def)
  have "core_command A E m st =
    (Inr (fst res @ [commandMessage (fld m ''requestId'') ?op (c_outcome r) (c_delivery r)
                       (versionOf A st1)]), snd res)"
    using assms(2,3)
    by (simp add: core_command_def Let_def st1_def st2_def c_def res_def split_def)
  moreover have "operations (snd res) = operations st2 \<and> opened (snd res) = opened st \<and>
      closed (snd res) = closed st"
    using ops1 updates_frame [of A E "c_affected r" st2]
    by (auto simp: res_def updatesOrNone_operations st2_def updatesOrNone_def
        split: prod.splits sum.splits)
  moreover have "jm_get (operations st2) ?op = Some c"
    using assms(1) ops1(1) rememberOperation_get [of "operations st" ?op c]
    by (simp add: st2_def core_inv_def)
  ultimately show ?thesis
    by (intro exI [of _ "fst res"] exI [of _ "snd res"] exI [of _ "versionOf A st1"])
      (simp add: c_def)
qed

text \<open>C1: A command the authority completed is run at most once: if the client repeats the request
  (a lost reply, a reconnect), the second dispatch gives the same command result as the first and
  leaves the state, the authority's world included, as the first left it.\<close>

theorem command_at_most_once:
  assumes "core_inv E st" and "client_message E m" and "fld m ''type'' = JStr ''command''"
    and "\<not> closed st" and "opened st"
    and "jm_get (operations st) (strOf (fld m ''operationId'')) = None"
    and "a_command A (fld m ''command'') (strOf (fld m ''operationId'')) (world st) = (Inr r, w)"
  shows "\<exists>ms reply st'. core_dispatch A E m st = (ms @ [reply], st') \<and>
           core_dispatch A E m st' = ([reply], st')"
proof -
  obtain ms st' v where first: "core_command A E m st =
      (Inr (ms @ [commandMessage (fld m ''requestId'') (strOf (fld m ''operationId'')) (c_outcome r)
                    (c_delivery r) v]), st')"
    and rec: "jm_get (operations st') (strOf (fld m ''operationId'')) = Some
        \<lparr> o_command = stringify E (fld m ''command''), o_outcome = c_outcome r,
          o_delivery = c_delivery r, o_version = v \<rparr>" "opened st'" "\<not> closed st'"
    using core_command_records [OF assms(1,6,7)] assms(4,5) by blast
  have "core_dispatch A E m st' =
     ([commandMessage (fld m ''requestId'') (strOf (fld m ''operationId'')) (c_outcome r)
        (c_delivery r) v], st')"
    using assms(2,3) rec by (intro core_dispatch_command) (simp_all add: core_command_def Let_def)
  then show ?thesis using core_dispatch_command [OF assms(2-5) first] by blast
qed

text \<open>How far back the replay table reaches: an operation is found until 1024 others, each under a
  different id, have been recorded after it.\<close>

lemma remember_position:
  assumes "jm_inv ops" and "length ops \<le> OPERATION_HISTORY_LIMIT"
    and "jm_keys ops = pre @ op # post" and "k \<noteq> op" and "length post < OPERATION_HISTORY_LIMIT - 1"
    and "jm_get ops op = Some c"
  shows "jm_get (rememberOperation k d ops) op = Some c \<and>
    (\<exists>pre' post'. jm_keys (rememberOperation k d ops) = pre' @ op # post' \<and>
       length post' \<le> Suc (length post))"
proof -
  let ?m = "jm_set k d ops"
  have inv: "jm_inv ?m" using assms(1) by (rule jm.inv_put)
  have get: "jm_get ?m op = Some c" using assms(1,4,6) by (simp add: jm.get_put)
  obtain post' where keys: "jm_keys ?m = pre @ op # post'" "length post' \<le> Suc (length post)"
    using assms(1,3) that [of post] that [of "post @ [k]"]
    by (cases "k \<in> set (jm_keys ops)") (simp_all add: jm.keys_put)
  show ?thesis
  proof (cases "length (jm_keys ?m) \<le> OPERATION_HISTORY_LIMIT")
    case True
    with get keys show ?thesis by (auto simp: rememberOperation_def Let_def)
  next
    case False
    with keys assms(5) obtain x xs where pre: "pre = x # xs"
      by (cases pre) (auto simp: OPERATION_HISTORY_LIMIT_def)
    have "distinct (jm_keys ?m)" using inv by (rule jm.keys_distinct)
    with keys pre have "x \<noteq> op" by auto
    moreover have "jm_keys (jm_delete (hd (jm_keys ?m)) ?m) = tl (jm_keys ?m)"
      using inv keys by (intro jm.keys_del_oldest) auto
    ultimately show ?thesis
      using False keys pre get inv by (auto simp: rememberOperation_def Let_def jm.get_del)
  qed
qed

lemma remember_window:
  assumes "jm_inv ops" and "length ops \<le> OPERATION_HISTORY_LIMIT"
    and "jm_keys ops = pre @ op # post" and "list_all (\<lambda>(k, _). k \<noteq> op) later"
    and "length post + length later < OPERATION_HISTORY_LIMIT" and "jm_get ops op = Some c"
  shows "jm_get (fold (\<lambda>(k, d). rememberOperation k d) later ops) op = Some c"
  using assms
proof (induction later arbitrary: ops pre post)
  case (Cons kd later)
  obtain k d where kd: "kd = (k, d)" by (cases kd)
  have "length post < OPERATION_HISTORY_LIMIT - 1" using Cons.prems(5) by simp
  with remember_position [of ops pre op post k c d] Cons.prems kd obtain pre' post' where
    "jm_get (rememberOperation k d ops) op = Some c"
    "jm_keys (rememberOperation k d ops) = pre' @ op # post'" "length post' \<le> Suc (length post)"
    by auto
  then show ?case
    using Cons.IH [of "rememberOperation k d ops" pre' post'] Cons.prems kd
    by (simp add: rememberOperation_inv rememberOperation_size)
qed simp

lemma rememberOperation_last:
  assumes "jm_inv ops" and "jm_get ops k = None"
  shows "\<exists>pre. jm_keys (rememberOperation k c ops) = pre @ [k]"
proof -
  have "k \<notin> set (jm_keys ops)" using assms by (simp add: jm.keys_dom domIff)
  then have keys: "jm_keys (jm_set k c ops) = jm_keys ops @ [k]" using assms(1) by (simp add: jm.keys_put)
  show ?thesis
  proof (cases "length (jm_keys (jm_set k c ops)) \<le> OPERATION_HISTORY_LIMIT")
    case True
    with keys show ?thesis by (simp add: rememberOperation_def Let_def)
  next
    case False
    have "jm_keys (jm_delete (hd (jm_keys (jm_set k c ops))) (jm_set k c ops)) = tl (jm_keys ops @ [k])"
      using jm.keys_del_oldest [OF jm.inv_put [OF assms(1), of k c]] keys by simp
    with False keys show ?thesis
      by (cases "jm_keys ops") (auto simp: rememberOperation_def Let_def OPERATION_HISTORY_LIMIT_def)
  qed
qed

text \<open>C36: The replay table protects the last 1024 operations: an operation recorded under a new id is
  still found, with what was recorded, after any 1023 further records under other ids, however many
  operations went before.\<close>

theorem replay_window:
  assumes "jm_inv ops" and "length ops \<le> OPERATION_HISTORY_LIMIT" and "jm_get ops op = None"
    and "list_all (\<lambda>(k, _). k \<noteq> op) later" and "length later < 1024"
  shows "jm_get (fold (\<lambda>(k, d). rememberOperation k d) later (rememberOperation op c ops)) op = Some c"
proof -
  obtain pre where "jm_keys (rememberOperation op c ops) = pre @ op # []"
    using rememberOperation_last [OF assms(1,3)] by auto
  then show ?thesis
    using assms
    by (intro remember_window) (simp_all add: rememberOperation_inv rememberOperation_size
        rememberOperation_get OPERATION_HISTORY_LIMIT_def [symmetric],
        simp add: OPERATION_HISTORY_LIMIT_def)
qed

section \<open>Replacing subscriptions\<close>

text \<open>C22: The replacement of subscriptions is all or nothing, and never undoes the command. When the
  authority applied a command but one affected selection cannot be read, the reply is the command
  result alone: no subscription changes, no update is sent, the revision is taken, and the operation
  is recorded, so that the client is not invited to repeat it.\<close>

theorem updates_all_or_nothing:
  assumes "core_inv E st" and "client_message E m" and "fld m ''type'' = JStr ''command''"
    and "\<not> closed st" and "opened st"
    and "jm_get (operations st) (strOf (fld m ''operationId'')) = None"
    and "a_command A (fld m ''command'') (strOf (fld m ''operationId'')) (world st) = (Inr r, w)"
    and "c_outcome r = Applied"
    and "stageUpdates A E (c_affected r) (subscriptions st) w = (Inl e, w')"
  shows "\<exists>v st'. core_dispatch A E m st =
      ([commandMessage (fld m ''requestId'') (strOf (fld m ''operationId'')) Applied (c_delivery r) v], st') \<and>
    v_revision v = Suc (revision st) \<and> revision st' = Suc (revision st) \<and>
    subscriptions st' = subscriptions st \<and>
    jm_get (operations st') (strOf (fld m ''operationId'')) \<noteq> None"
proof -
  let ?op = "strOf (fld m ''operationId'')"
  let ?st1 = "st\<lparr> world := w, revision := Suc (revision st) \<rparr>"
  let ?c = "\<lparr> o_command = stringify E (fld m ''command''), o_outcome = Applied,
     o_delivery = c_delivery r, o_version = versionOf A ?st1 \<rparr>"
  let ?st' = "?st1\<lparr> operations := rememberOperation ?op ?c (operations st), world := w' \<rparr>"
  have "core_command A E m st =
     (Inr [commandMessage (fld m ''requestId'') ?op Applied (c_delivery r) (versionOf A ?st1)], ?st')"
    using assms(6-9)
    by (simp add: core_command_def Let_def bump_def updatesOrNone_def updates_def)
  moreover have "jm_get (rememberOperation ?op ?c (operations st)) ?op = Some ?c"
    using assms(1) by (simp add: core_inv_def rememberOperation_get)
  ultimately show ?thesis
    using core_dispatch_command [OF assms(2-5)]
    by (intro exI [of _ "versionOf A ?st1"] exI [of _ ?st']) (simp add: versionOf_def)
qed

text \<open>An authority whose selections only read: the value depends on the selection alone.\<close>

definition reads_only :: "'w authority \<Rightarrow> 'w \<Rightarrow> (jsval \<Rightarrow> jsval) \<Rightarrow> bool" where
  "reads_only A w sel \<longleftrightarrow> (\<forall>s. a_select A s w = (Inr (sel s), w))"

abbreviation hit :: "jsval list \<Rightarrow> subscription \<Rightarrow> bool" where
  "hit affected sub \<equiv> list_ex (\<lambda>scope. scopeMatches scope (s_selection sub)) affected"

lemma stageUpdates_reads_only:
  assumes "reads_only A w sel"
  shows "stageUpdates A E affected subs w =
    (Inr (map (\<lambda>(k, sub). (k, sel (s_selection sub), stringify E (sel (s_selection sub))))
       (filter (\<lambda>(k, sub). hit affected sub \<and> stringify E (sel (s_selection sub)) \<noteq> s_digest sub) subs)), w)"
proof (induction subs)
  case (Cons p subs)
  then show ?case using assms by (cases p) (simp add: reads_only_def Let_def)
qed simp

lemma fold_commit_get:
  assumes "jm_inv subs" and "distinct (map fst us)" and "fst ` set us \<subseteq> set (jm_keys subs)"
  shows "jm_get (fold commitUpdate us subs) k =
    (case map_of us k of None \<Rightarrow> jm_get subs k
     | Some (v, d) \<Rightarrow> map_option (\<lambda>sub. sub\<lparr> s_value := v, s_digest := d \<rparr>) (jm_get subs k))"
  using assms
proof (induction us arbitrary: subs)
  case (Cons u us)
  obtain i v d where u: "u = (i, v, d)" by (cases u)
  from Cons.prems(1,3) u have "i \<in> dom (jm_get subs)" using jm.keys_dom [of subs] by auto
  then obtain sub where sub: "jm_get subs i = Some sub" by blast
  let ?subs = "jm_set i (sub\<lparr> s_value := v, s_digest := d \<rparr>) subs"
  have "jm_inv ?subs" "set (jm_keys ?subs) = insert i (set (jm_keys subs))"
    using Cons.prems(1) by (auto simp: jm.inv_put jm.keys_put)
  moreover have "map_of us i = None" using Cons.prems(2) u by (simp add: map_of_eq_None_iff)
  moreover have "fst ` set us \<subseteq> insert i (set (jm_keys subs))" using Cons.prems(3) by auto
  ultimately show ?case
    using Cons.IH [of ?subs] Cons.prems u sub by (auto simp: jm.get_put split: option.splits)
qed simp

text \<open>C21: After a replacement that succeeds every subscription an affected scope names shows what the
  authority now selects, the others are as they were, and an update is sent for exactly the
  subscriptions whose serialised value changed, in subscription order and with one version.\<close>

theorem updates_fresh:
  assumes "core_inv E st" and "reads_only A (world st) sel"
  shows "\<exists>ms st'. updates A E affected st = (Inr ms, st') \<and>
     ms = map (\<lambda>(k, sub). updateMessage k (versionOf A st) (sel (s_selection sub)))
       (filter (\<lambda>(k, sub). hit affected sub \<and> stringify E (sel (s_selection sub)) \<noteq> s_digest sub)
         (subscriptions st)) \<and>
     (\<forall>k sub. jm_get (subscriptions st) k = Some sub \<longrightarrow>
        (\<exists>sub'. jm_get (subscriptions st') k = Some sub' \<and> s_selection sub' = s_selection sub \<and>
           (if hit affected sub then s_digest sub' = stringify E (sel (s_selection sub))
            else sub' = sub)))"
proof -
  let ?subs = "subscriptions st"
  let ?changed = "\<lambda>(k, sub). hit affected sub \<and> stringify E (sel (s_selection sub)) \<noteq> s_digest sub"
  let ?us = "map (\<lambda>(k, sub). (k, sel (s_selection sub), stringify E (sel (s_selection sub))))
    (filter ?changed ?subs)"
  have inv: "jm_inv ?subs" using assms(1) by (simp add: core_inv_def)
  have keys: "map fst ?us = map fst (filter ?changed ?subs)" by (simp add: split_def comp_def)
  have dist: "distinct (map fst ?us)"
    using inv unfolding keys by (simp add: jm_inv_def distinct_map_filter)
  have sub: "fst ` set ?us \<subseteq> set (jm_keys ?subs)" by (auto simp: jm_keys_def image_iff) force
  have "\<exists>sub'. jm_get (fold commitUpdate ?us ?subs) k = Some sub' \<and> s_selection sub' = s_selection s \<and>
      (if hit affected s then s_digest sub' = stringify E (sel (s_selection s)) else sub' = s)"
    if get: "jm_get ?subs k = Some s" for k s
  proof (cases "?changed (k, s)")
    case True
    have "(k, s) \<in> set ?subs" using get by (simp add: jm_get_def map_of_SomeD)
    then have "(k, sel (s_selection s), stringify E (sel (s_selection s))) \<in> set ?us"
      using True by force
    then have "map_of ?us k = Some (sel (s_selection s), stringify E (sel (s_selection s)))"
      using dist by simp
    then show ?thesis using fold_commit_get [OF inv dist sub, of k] get True by simp
  next
    case False
    have "map_of ?us k = None"
    proof (rule ccontr)
      assume "map_of ?us k \<noteq> None"
      then obtain s' where "(k, s') \<in> set ?subs" "?changed (k, s')" by (auto dest!: map_of_SomeD)
      then have "s' = s" using get inv by (auto simp: jm_get_def jm_inv_def)
      with False \<open>?changed (k, s')\<close> show False by simp
    qed
    then show ?thesis using fold_commit_get [OF inv dist sub, of k] get False by auto
  qed
  moreover have "updates A E affected st =
    (Inr (map (\<lambda>(k, sub). updateMessage k (versionOf A st) (sel (s_selection sub))) (filter ?changed ?subs)),
     st\<lparr> subscriptions := fold commitUpdate ?us ?subs, world := world st \<rparr>)"
    by (simp add: updates_def Let_def stageUpdates_reads_only [OF assms(2)] split_def comp_def)
  ultimately show ?thesis by simp
qed

section \<open>One client, and closing\<close>

text \<open>Once a client has opened the library, a greeting with another client id, library key, mode or
  wire version is refused with \<open>conflict\<close> and changes nothing; the authority is not opened again.\<close>

theorem hello_conflict:
  assumes "client_message E m" and "fld m ''type'' = JStr ''hello''" and "\<not> closed st"
    and "client st = Some c"
    and "(cl_id c, cl_libraryKey c, cl_mode c, cl_wire c) \<noteq>
         (fld m ''clientId'', fld m ''libraryKey'', fld m ''mode'', fld m ''wire'')"
  shows "\<exists>f. core_dispatch A E m st = ([errorReply f (Some (strOf (fld m ''requestId''))) None], st) \<and>
     f_code f = ''conflict''"
proof -
  have "decodeLibraryServiceClientMessage E m = Inr m" using assms(1) by (simp add: decode_client_iff)
  with assms show ?thesis by (auto simp: core_dispatch_def core_hello_def Let_def failureOf_def)
qed

text \<open>A closed service does no work: whatever arrives is answered with exactly one error, which is
  \<open>cancelled\<close> for every well-formed request, and an authority event is dropped; the state, the
  authority's world included, does not change.\<close>

theorem closed_is_inert:
  assumes "closed st"
  shows "(\<exists>f. core_dispatch A E input st = ([errorReply f (requestIdOf input) None], st) \<and>
            (client_message E input \<longrightarrow> f_code f = ''cancelled'')) \<and>
     core_event A E event st = st"
proof (cases "decodeLibraryServiceClientMessage E input")
  case (Inl f)
  then have "\<not> client_message E input" using decode_client_iff [of E input input] by auto
  with assms Inl show ?thesis by (auto simp: core_dispatch_def core_event_def)
next
  case (Inr m)
  then have "m = input" "client_message E input" by (simp_all add: decode_client_iff)
  moreover from this(2) have "requestIdOf input = Some (strOf (fld input ''requestId''))"
    by (cases "fld input ''requestId''")
      (auto simp: client_message_def requestIdOf_def isText_def)
  ultimately show ?thesis
    using assms Inr by (auto simp: core_dispatch_def core_event_def Let_def failureOf_def)
qed

section \<open>Concrete runs\<close>

text \<open>An authority over a counter: every command is applied and counted, every selection is an empty
  watchlist. \<open>mute_authority\<close> is the same with selections that cannot be read.\<close>

definition demo_authority :: "nat authority" where
  "demo_authority =
    \<lparr> a_open = (\<lambda>_ w. (([], Inr True), w)),
      a_generation = (\<lambda>_. Some ''g1''),
      a_select = (\<lambda>_ w. (Inr (JObj [(''kind'', JStr ''watchlist''), (''titles'', JArr [])]), w)),
      a_command = (\<lambda>_ _ w. (Inr \<lparr> c_outcome = Applied, c_delivery = Synced,
          c_affected = [JObj [(''kind'', JStr ''all'')]] \<rparr>, Suc w)),
      a_query = (\<lambda>_ w. (Inl OtherThrown, w)),
      a_task = (\<lambda>_ _ w. (Inl OtherThrown, w)),
      a_observe = (\<lambda>_ w. (Inr \<lparr> ob_outcome = Unchanged, ob_affected = [] \<rparr>, w)) \<rparr>"

definition mute_authority :: "nat authority" where
  "mute_authority = demo_authority\<lparr> a_select := (\<lambda>_ w. (Inl OtherThrown, w)) \<rparr>"

definition demo_client :: client_info where
  "demo_client = \<lparr> cl_id = JStr ''page'', cl_libraryKey = JStr ''k'', cl_mode = JStr ''local'',
     cl_wire = jint 5 \<rparr>"

definition demo_selection :: jsval where
  "demo_selection = JObj [(''kind'', JStr ''watchlist'')]"

definition demo_core :: "nat core" where
  "demo_core = (new_core ''i1'' 0)\<lparr> opened := True, client := Some demo_client,
     subscriptions := [(''s1'', \<lparr> s_selection = demo_selection, s_value = JNull,
       s_digest = Some ''null'' \<rparr>)] \<rparr>"

definition demo_command :: jsval where
  "demo_command = JObj [(''kind'', JStr ''simkl.disconnect'')]"

definition demo_request :: jsval where
  "demo_request = JObj [(''type'', JStr ''command''), (''protocol'', jint 13), (''requestId'', JStr ''r1''),
     (''operationId'', JStr ''o1''), (''command'', demo_command)]"

definition demo_done :: completed_operation where
  "demo_done = \<lparr> o_command = stringify plain_env demo_command, o_outcome = Applied,
     o_delivery = Synced, o_version = \<lparr> v_instance = ''i1'', v_generation = Some ''g1'', v_revision = 0 \<rparr> \<rparr>"

lemma demo_request_ok: "client_message plain_env demo_request" "fld demo_request ''type'' = JStr ''command''"
  by (simp_all add: client_message_def client_payload_def client_keys_def demo_request_def
      demo_command_def command_def codec_eval)

lemma demo_core_inv: "core_inv plain_env demo_core"
  by (simp add: core_inv_def demo_core_def new_core_def digests_ok_def versions_ok_def jm_inv_def)

lemma demo_core_open:
  "\<not> closed demo_core" "opened demo_core" "operations demo_core = []" "client demo_core = Some demo_client"
  "subscriptions demo_core = [(''s1'', \<lparr> s_selection = demo_selection, s_value = JNull,
       s_digest = Some ''null'' \<rparr>)]"
  by (simp_all add: demo_core_def new_core_def)

theorem command_replay_witness:
  "let st = demo_core\<lparr> operations := [(''o1'', demo_done)] \<rparr> in
   core_dispatch demo_authority plain_env demo_request st =
     ([commandMessage (JStr ''r1'') ''o1'' Applied Synced (o_version demo_done)], st)"
  using command_replay [OF demo_request_ok, of "demo_core\<lparr> operations := [(''o1'', demo_done)] \<rparr>"
      demo_done demo_authority]
  by (simp add: demo_core_open jm_get_def demo_request_def demo_done_def)

theorem command_conflict_witness:
  "let st = demo_core\<lparr> operations := [(''o1'', demo_done\<lparr> o_command := Some ''other'' \<rparr>)] \<rparr> in
   \<exists>f. core_dispatch demo_authority plain_env demo_request st =
     ([errorReply f (Some ''r1'') None], st) \<and> f_code f = ''conflict'' \<and> \<not> f_retryable f"
  using command_conflict [OF demo_request_ok,
      of "demo_core\<lparr> operations := [(''o1'', demo_done\<lparr> o_command := Some ''other'' \<rparr>)] \<rparr>"
      "demo_done\<lparr> o_command := Some ''other'' \<rparr>" demo_authority]
  by (simp add: demo_core_open jm_get_def demo_request_def demo_done_def demo_command_def json_quote_def)

theorem command_at_most_once_witness:
  "\<exists>ms reply st'. core_dispatch demo_authority plain_env demo_request demo_core = (ms @ [reply], st') \<and>
     core_dispatch demo_authority plain_env demo_request st' = ([reply], st')"
  by (rule command_at_most_once [OF demo_core_inv demo_request_ok demo_core_open(1,2)])
    (simp_all add: demo_core_open jm_get_def demo_authority_def)

theorem replay_window_witness:
  "jm_get (fold (\<lambda>(k, d). rememberOperation k d) [(''b'', demo_done), (''c'', demo_done)]
     (rememberOperation ''a'' demo_done [])) ''a'' = Some demo_done"
  by (rule replay_window) (simp_all add: jm_get_def)

theorem updates_all_or_nothing_witness:
  "\<exists>v st'. core_dispatch mute_authority plain_env demo_request demo_core =
      ([commandMessage (JStr ''r1'') ''o1'' Applied Synced v], st') \<and>
    v_revision v = 1 \<and> subscriptions st' = subscriptions demo_core"
proof -
  let ?r = "\<lparr> c_outcome = Applied, c_delivery = Synced, c_affected = [JObj [(''kind'', JStr ''all'')]] \<rparr>"
  have "\<exists>v st'. core_dispatch mute_authority plain_env demo_request demo_core =
      ([commandMessage (fld demo_request ''requestId'') (strOf (fld demo_request ''operationId''))
          Applied (c_delivery ?r) v], st') \<and>
    v_revision v = Suc (revision demo_core) \<and> revision st' = Suc (revision demo_core) \<and>
    subscriptions st' = subscriptions demo_core \<and>
    jm_get (operations st') (strOf (fld demo_request ''operationId'')) \<noteq> None"
    by (rule updates_all_or_nothing [OF demo_core_inv demo_request_ok demo_core_open(1,2),
          where w = 1 and w' = 1 and e = OtherThrown])
      (simp_all add: demo_core_def new_core_def jm_get_def mute_authority_def demo_authority_def
        scopeMatches_def)
  then show ?thesis by (auto simp: demo_request_def demo_core_def new_core_def)
qed

theorem updates_fresh_witness:
  "\<exists>st'. updates demo_authority plain_env [JObj [(''kind'', JStr ''overview'')]] demo_core =
     (Inr [updateMessage ''s1'' (versionOf demo_authority demo_core)
         (JObj [(''kind'', JStr ''watchlist''), (''titles'', JArr [])])], st')"
proof -
  let ?v = "JObj [(''kind'', JStr ''watchlist''), (''titles'', JArr [])]"
  have "reads_only demo_authority (world demo_core) (\<lambda>_. ?v)"
    by (simp add: reads_only_def demo_authority_def)
  from updates_fresh [OF demo_core_inv this, of "[JObj [(''kind'', JStr ''overview'')]]"] show ?thesis
    by (auto simp: demo_core_open demo_selection_def scopeMatches_def)
qed

definition demo_key :: string where
  "demo_key = ''AAAAAAAAAAAAAAAAAAAAAAAAAAAAAAAAAAAAAAAAAAA=''"

definition demo_hello :: jsval where
  "demo_hello = JObj [(''type'', JStr ''hello''), (''protocol'', jint 13), (''requestId'', JStr ''r2''),
     (''clientId'', JStr ''intruder''), (''libraryKey'', JStr demo_key), (''wire'', jint 5),
     (''mode'', JStr ''local'')]"

lemma demo_key_ok: "libraryKey (JStr demo_key)"
  unfolding demo_key_def by code_simp

lemma demo_hello_ok: "client_message plain_env demo_hello" "fld demo_hello ''type'' = JStr ''hello''"
  by (simp_all add: client_message_def client_payload_def client_keys_def demo_hello_def demo_key_ok
      codec_defs)

theorem hello_conflict_witness:
  "\<exists>f. core_dispatch demo_authority plain_env demo_hello demo_core =
     ([errorReply f (Some ''r2'') None], demo_core) \<and> f_code f = ''conflict''"
  using hello_conflict [OF demo_hello_ok demo_core_open(1,4), of demo_authority]
  by (simp add: demo_hello_def demo_client_def)

theorem closed_is_inert_witness:
  "core_event demo_authority plain_env (Changed []) (demo_core\<lparr> closed := True \<rparr>) =
     demo_core\<lparr> closed := True \<rparr>"
  using closed_is_inert [of "demo_core\<lparr> closed := True \<rparr>" demo_authority plain_env demo_request "Changed []"]
  by simp

end
