(* ===== verification/CoreReplies.thy ===== *)
theory CoreReplies
  imports CoreFacts
begin

text \<open>
  The two ends of the protocol fit: what the actor of \<^verbatim>\<open>libraryServiceCore.ts\<close> answers to a client
  message is accepted by \<open>decodeLibraryServiceServerMessage\<close>, which the worker host runs on every
  reply before posting it, provided the authority keeps its own types.
\<close>

section \<open>Each message\<close>

definition accepted :: "js_env \<Rightarrow> jsval \<Rightarrow> bool" where
  "accepted E m \<longleftrightarrow> decodeLibraryServiceServerMessage E m = Inr m"

definition text_ok :: "string \<Rightarrow> bool" where
  "text_ok s \<longleftrightarrow> 0 < length s \<and> length s \<le> 4096"

definition version_ok :: "library_version \<Rightarrow> bool" where
  "version_ok v \<longleftrightarrow> text_ok (v_instance v) \<and>
     (case v_generation v of None \<Rightarrow> True | Some g \<Rightarrow> text_ok g) \<and> v_revision v \<le> 9007199254740991"

definition failure_ok :: "service_failure \<Rightarrow> bool" where
  "failure_ok f \<longleftrightarrow> f_code f \<in> set FAILURE_CODES \<and> text_ok (f_message f) \<and>
     (case f_expectedProtocol f of None \<Rightarrow> True | Some n \<Rightarrow> 0 \<le> n \<and> n \<le> 9007199254740991) \<and>
     (case f_requiredWire f of None \<Rightarrow> True | Some n \<Rightarrow> 0 \<le> n \<and> n \<le> 9007199254740991)"

lemma isText_JStr [simp]: "isText (JStr s) \<longleftrightarrow> text_ok s"
  by (auto simp: isText_def text_ok_def)

lemma text_ok_strOf: "isText v \<Longrightarrow> text_ok (strOf v) \<and> v = JStr (strOf v)"
  by (cases v) (auto simp: isText_def text_ok_def)

lemma version_enc [simp]: "version (enc_version v) \<longleftrightarrow> version_ok v"
  by (auto simp: version_def enc_version_def version_ok_def exact_def exact_key_def nullable_def
      isInteger_jint simp del: of_int_of_nat_eq split: option.splits)

lemma failure_enc [simp]: "failure (enc_failure f) \<longleftrightarrow> failure_ok f"
proof -
  have int: "isInteger (JNum (Fin (of_int n))) \<longleftrightarrow> 0 \<le> n \<and> n \<le> 9007199254740991" for n
    by (rule isInteger_jint)
  show ?thesis
    by (cases "f_expectedProtocol f"; cases "f_requiredWire f")
      (simp_all add: failure_def enc_failure_def opt_field_def exact_def exact_key_def optional_def
        oneOf_def failure_ok_def int)
qed

lemmas server_defs =
  accepted_def decodeLibraryServiceServerMessage_def protocolMismatch_def LIBRARY_SERVICE_PROTOCOL_def

lemma text_ok_literals [simp]:
  "text_ok ''ready''" "text_ok ''error''" "text_ok ''update''" "text_ok ''subscribed''"
  "text_ok ''unsubscribed''" "text_ok ''command-result''" "text_ok ''query-result''"
  "text_ok ''task-result''" "text_ok ''observed''" "text_ok ''opening''" "text_ok ''status''"
  by (simp_all add: text_ok_def)

lemma accepted_ready:
  "isText rid \<Longrightarrow> relayMembership relay \<Longrightarrow> version_ok v \<Longrightarrow> accepted E (readyMessage rid relay v)"
  by (simp add: server_defs readyMessage_def exact_def exact_key_def)

lemma accepted_update:
  "text_ok sid \<Longrightarrow> version_ok v \<Longrightarrow> selectionValue E x \<Longrightarrow> accepted E (updateMessage sid v x)"
  by (simp add: server_defs updateMessage_def exact_def exact_key_def)

lemma accepted_subscribed:
  "isText rid \<Longrightarrow> text_ok sid \<Longrightarrow> version_ok v \<Longrightarrow> accepted E (subscribedMessage rid sid v)"
  by (simp add: server_defs subscribedMessage_def exact_def exact_key_def)

lemma accepted_unsubscribed:
  "isText rid \<Longrightarrow> text_ok sid \<Longrightarrow> accepted E (unsubscribedMessage rid sid)"
  by (simp add: server_defs unsubscribedMessage_def exact_def exact_key_def)

lemma accepted_command:
  "isText rid \<Longrightarrow> text_ok op \<Longrightarrow> version_ok v \<Longrightarrow> accepted E (commandMessage rid op outcome d v)"
  by (cases outcome; cases d)
    (simp_all add: server_defs commandMessage_def exact_def exact_key_def)

lemma accepted_query:
  "isText rid \<Longrightarrow> queryResult E r \<Longrightarrow> version_ok v \<Longrightarrow> accepted E (queryMessage rid r v)"
  by (simp add: server_defs queryMessage_def exact_def exact_key_def)

lemma accepted_task:
  "isText rid \<Longrightarrow> text_ok op \<Longrightarrow> taskResult r \<Longrightarrow> version_ok v \<Longrightarrow> accepted E (taskMessage rid op r v)"
  by (simp add: server_defs taskMessage_def exact_def exact_key_def)

lemma accepted_observed:
  "isText rid \<Longrightarrow> version_ok v \<Longrightarrow> accepted E (observedMessage rid v)"
  by (simp add: server_defs observedMessage_def exact_def exact_key_def)

lemma errorReply_accepted_iff:
  "accepted E (errorReply f rid sid) \<longleftrightarrow>
     failure_ok f \<and> (\<forall>s. rid = Some s \<longrightarrow> length s \<le> 4096) \<and> (\<forall>s. sid = Some s \<longrightarrow> length s \<le> 4096)"
  by (cases rid; cases sid)
    (auto simp: server_defs errorReply_def truthy_field_def exact_def exact_key_def optional_def
      invalid_def text_ok_def Let_def split: if_splits)

section \<open>The contract of the authority\<close>

fun thrown_ok :: "thrown \<Rightarrow> bool" where
  "thrown_ok (AuthorityError f) = failure_ok f"
| "thrown_ok (JsError message) = text_ok message"
| "thrown_ok OtherThrown = True"

text \<open>The TypeScript types of the authority's results, as the codec tests them, and errors whose
  message is text the protocol can carry.\<close>

definition authority_ok :: "js_env \<Rightarrow> 'w authority \<Rightarrow> bool" where
  "authority_ok E A \<longleftrightarrow>
     (\<forall>w g. a_generation A w = Some g \<longrightarrow> text_ok g) \<and>
     (\<forall>r w ps e w'. a_open A r w = ((ps, Inl e), w') \<longrightarrow> thrown_ok e) \<and>
     (\<forall>s w e w'. a_select A s w = (Inl e, w') \<longrightarrow> thrown_ok e) \<and>
     (\<forall>s w x w'. a_select A s w = (Inr x, w') \<longrightarrow> selectionValue E x) \<and>
     (\<forall>c i w e w'. a_command A c i w = (Inl e, w') \<longrightarrow> thrown_ok e) \<and>
     (\<forall>q w e w'. a_query A q w = (Inl e, w') \<longrightarrow> thrown_ok e) \<and>
     (\<forall>q w x w'. a_query A q w = (Inr x, w') \<longrightarrow> queryResult E x) \<and>
     (\<forall>t i w e w'. a_task A t i w = (Inl e, w') \<longrightarrow> thrown_ok e) \<and>
     (\<forall>t i w r w'. a_task A t i w = (Inr r, w') \<longrightarrow> taskResult (t_result r)) \<and>
     (\<forall>x w e w'. a_observe A x w = (Inl e, w') \<longrightarrow> thrown_ok e)"

definition wire_inv :: "'w core \<Rightarrow> bool" where
  "wire_inv st \<longleftrightarrow> text_ok (instanceId st) \<and> relayMembership (membership st) \<and>
     (\<forall>p \<in> set (operations st). version_ok (o_version (snd p))) \<and>
     (\<forall>p \<in> set (subscriptions st). text_ok (fst p))"

lemma authority_okD:
  assumes "authority_ok E A"
  shows "a_generation A w = Some g \<Longrightarrow> text_ok g"
    and "a_open A r w = ((ps, Inl e), w') \<Longrightarrow> thrown_ok e"
    and "a_select A s w = (Inl e, w') \<Longrightarrow> thrown_ok e"
    and "a_select A s w = (Inr x, w') \<Longrightarrow> selectionValue E x"
    and "a_command A c i w = (Inl e, w') \<Longrightarrow> thrown_ok e"
    and "a_query A q w = (Inl e, w') \<Longrightarrow> thrown_ok e"
    and "a_query A q w = (Inr x, w') \<Longrightarrow> queryResult E x"
    and "a_task A t i w = (Inl e, w') \<Longrightarrow> thrown_ok e"
    and "a_task A t i w = (Inr res, w') \<Longrightarrow> taskResult (t_result res)"
    and "a_observe A ob w = (Inl e, w') \<Longrightarrow> thrown_ok e"
proof -
  note ok = assms [unfolded authority_ok_def]
  show "text_ok g" if "a_generation A w = Some g"
    using that ok [THEN conjunct1] by blast
  show "thrown_ok e" if "a_open A r w = ((ps, Inl e), w')"
    using that ok [THEN conjunct2, THEN conjunct1] by blast
  show "thrown_ok e" if "a_select A s w = (Inl e, w')"
    using that ok [THEN conjunct2, THEN conjunct2, THEN conjunct1] by blast
  show "selectionValue E x" if "a_select A s w = (Inr x, w')"
    using that ok [THEN conjunct2, THEN conjunct2, THEN conjunct2, THEN conjunct1] by blast
  show "thrown_ok e" if "a_command A c i w = (Inl e, w')"
    using that ok [THEN conjunct2, THEN conjunct2, THEN conjunct2, THEN conjunct2, THEN conjunct1] by blast
  show "thrown_ok e" if "a_query A q w = (Inl e, w')"
    using that ok [THEN conjunct2, THEN conjunct2, THEN conjunct2, THEN conjunct2, THEN conjunct2, THEN conjunct1] by blast
  show "queryResult E x" if "a_query A q w = (Inr x, w')"
    using that ok [THEN conjunct2, THEN conjunct2, THEN conjunct2, THEN conjunct2, THEN conjunct2, THEN conjunct2, THEN conjunct1] by blast
  show "thrown_ok e" if "a_task A t i w = (Inl e, w')"
    using that ok [THEN conjunct2, THEN conjunct2, THEN conjunct2, THEN conjunct2, THEN conjunct2, THEN conjunct2, THEN conjunct2, THEN conjunct1] by blast
  show "taskResult (t_result res)" if "a_task A t i w = (Inr res, w')"
    using that ok [THEN conjunct2, THEN conjunct2, THEN conjunct2, THEN conjunct2, THEN conjunct2, THEN conjunct2, THEN conjunct2, THEN conjunct2, THEN conjunct1] by blast
  show "thrown_ok e" if "a_observe A ob w = (Inl e, w')"
    using that ok [THEN conjunct2, THEN conjunct2, THEN conjunct2, THEN conjunct2, THEN conjunct2, THEN conjunct2, THEN conjunct2, THEN conjunct2, THEN conjunct2] by blast
qed

lemma wire_inv_sub: "wire_inv st \<Longrightarrow> k \<in> fst ` set (subscriptions st) \<Longrightarrow> text_ok k"
  unfolding wire_inv_def by blast

lemma wire_inv_subs:
  assumes "wire_inv st" and "fst ` set subs \<subseteq> fst ` set (subscriptions st)"
  shows "wire_inv (st\<lparr> subscriptions := subs, world := w \<rparr>)"
proof -
  have "text_ok (fst p)" if "p \<in> set subs" for p
    by (rule wire_inv_sub [OF assms(1) subsetD [OF assms(2) imageI [OF that]]])
  with assms(1) show ?thesis by (simp add: wire_inv_def)
qed

lemma versionOf_ok:
  assumes "authority_ok E A" and "text_ok (instanceId st)" and "revision st \<le> 9007199254740991"
  shows "version_ok (versionOf A st)"
  using assms(2,3) authority_okD(1) [OF assms(1), of "world st"]
  by (simp add: version_ok_def versionOf_def split: option.split)

lemma stageUpdates_ok:
  assumes "authority_ok E A" and "stageUpdates A E affected subs w = (Inr us, w')"
  shows "\<forall>u \<in> set us. fst u \<in> fst ` set subs \<and> selectionValue E (fst (snd u))"
  using assms(2)
proof (induction subs arbitrary: w us)
  case (Cons p subs)
  obtain k sub where p: "p = (k, sub)" by (cases p)
  show ?case
  proof (cases "hit affected sub")
    case False
    with Cons p have "\<forall>u \<in> set us. fst u \<in> fst ` set subs \<and> selectionValue E (fst (snd u))" by simp
    then show ?thesis by simp
  next
    case True
    then obtain x w1 us' where x: "a_select A (s_selection sub) w = (Inr x, w1)"
      and rest: "stageUpdates A E affected subs w1 = (Inr us', w')"
      and us: "us = (if stringify E x = s_digest sub then us' else (k, x, stringify E x) # us')"
      using Cons.prems p by (auto simp: Let_def split: prod.splits sum.splits)
    have "selectionValue E x" by (rule authority_okD(4) [OF assms(1) x])
    with Cons.IH [OF rest] us p show ?thesis by simp
  qed
qed simp

lemma commitUpdate_keys: "fst ` set (commitUpdate u subs) \<subseteq> fst ` set subs"
proof (cases u)
  case (fields k v d)
  have "fst ` set (jm_set k x subs) \<subseteq> insert k (fst ` set subs)" for x
    using set_jm_set [of k x subs] by force
  moreover have "k \<in> fst ` set subs" if "jm_get subs k = Some s" for s
    using that by (force simp: jm_get_def dest: map_of_SomeD)
  ultimately show ?thesis using fields by (auto split: option.splits)
qed

lemma fold_commit_keys: "fst ` set (fold commitUpdate us subs) \<subseteq> fst ` set subs"
proof (induction us arbitrary: subs)
  case (Cons u us)
  show ?case using order_trans [OF Cons.IH commitUpdate_keys [of u subs]] by simp
qed simp

lemma updatesOrNone_ok:
  assumes "authority_ok E A" and "wire_inv st" and "revision st \<le> 9007199254740991"
    and "updatesOrNone A E affected st = (ms, st')"
  shows "list_all (accepted E) ms \<and> wire_inv st' \<and> revision st' = revision st"
proof (cases "stageUpdates A E affected (subscriptions st) (world st)")
  case (Pair r w)
  show ?thesis
  proof (cases r)
    case (Inl e)
    with Pair assms show ?thesis by (auto simp: updatesOrNone_def updates_def wire_inv_def)
  next
    case (Inr us)
    have v: "version_ok (versionOf A st)"
      using assms by (intro versionOf_ok) (simp_all add: wire_inv_def)
    have us: "\<forall>u \<in> set us. fst u \<in> fst ` set (subscriptions st) \<and> selectionValue E (fst (snd u))"
      using stageUpdates_ok [OF assms(1)] Pair Inr by blast
    have eq: "ms = map (\<lambda>u. updateMessage (fst u) (versionOf A st) (fst (snd u))) us"
      "st' = st\<lparr> subscriptions := fold commitUpdate us (subscriptions st), world := w \<rparr>"
      using assms(4) Pair Inr by (simp_all add: updatesOrNone_def updates_def Let_def split_def)
    have "accepted E (updateMessage (fst u) (versionOf A st) (fst (snd u)))" if "u \<in> set us" for u
      using that us v wire_inv_sub [OF assms(2)] by (intro accepted_update) blast+
    moreover have "wire_inv st'"
      unfolding eq(2) by (rule wire_inv_subs [OF assms(2) fold_commit_keys])
    ultimately show ?thesis using eq by (simp add: list_all_iff)
  qed
qed

section \<open>Each handler\<close>

text \<open>What a handler leaves: replies the page accepts, or an error it can be told of.\<close>

definition outcome_ok :: "js_env \<Rightarrow> (thrown + jsval list) \<times> 'w core \<Rightarrow> bool" where
  "outcome_ok E res \<longleftrightarrow> wire_inv (snd res) \<and>
     (case fst res of Inl e \<Rightarrow> thrown_ok e | Inr ms \<Rightarrow> list_all (accepted E) ms)"

lemma outcome_okI:
  "wire_inv st \<Longrightarrow> thrown_ok e \<Longrightarrow> outcome_ok E (Inl e, st)"
  "wire_inv st \<Longrightarrow> list_all (accepted E) ms \<Longrightarrow> outcome_ok E (Inr ms, st)"
  by (simp_all add: outcome_ok_def)

lemma wire_inv_world [simp]:
  "wire_inv (st\<lparr> world := w \<rparr>) = wire_inv st"
  "wire_inv (st\<lparr> world := w, revision := n \<rparr>) = wire_inv st"
  "wire_inv (bump c st) = wire_inv st"
  by (simp_all add: wire_inv_def bump_def)

lemma wire_inv_instance: "wire_inv st \<Longrightarrow> text_ok (instanceId st)"
  by (simp add: wire_inv_def)

lemma wire_inv_remember:
  assumes "wire_inv st" and "version_ok (o_version c)"
  shows "wire_inv (st\<lparr> operations := rememberOperation k c (operations st) \<rparr>)"
proof -
  have "version_ok (o_version (snd p))" if "p \<in> set (rememberOperation k c (operations st))" for p
    using subsetD [OF rememberOperation_set that] assms by (auto simp: wire_inv_def)
  with assms(1) show ?thesis by (simp add: wire_inv_def)
qed

lemma core_query_ok:
  assumes "authority_ok E A" and "wire_inv st" and "revision st \<le> 9007199254740991"
    and "isText (fld m ''requestId'')"
  shows "outcome_ok E (core_query A m st)"
proof -
  obtain r w where q: "a_query A (fld m ''query'') (world st) = (r, w)"
    by (cases "a_query A (fld m ''query'') (world st)")
  have v: "version_ok (versionOf A (st\<lparr> world := w \<rparr>))"
    using assms by (intro versionOf_ok) (simp_all add: wire_inv_instance)
  show ?thesis
  proof (cases r)
    case (Inl e)
    then show ?thesis
      using q assms authority_okD(6) [OF assms(1)] by (simp add: core_query_def outcome_ok_def)
  next
    case (Inr x)
    then have "queryResult E x" using q authority_okD(7) [OF assms(1)] by blast
    with Inr q v assms show ?thesis
      by (simp add: core_query_def outcome_ok_def Let_def accepted_query)
  qed
qed

lemma core_observe_ok:
  assumes "authority_ok E A" and "wire_inv st" and "revision st < 9007199254740991"
    and "isText (fld m ''requestId'')"
  shows "outcome_ok E (core_observe A E m st)"
proof -
  obtain r w where o: "a_observe A (fld m ''observation'') (world st) = (r, w)"
    by (cases "a_observe A (fld m ''observation'') (world st)")
  show ?thesis
  proof (cases r)
    case (Inl e)
    then show ?thesis
      using o assms authority_okD(10) [OF assms(1)] by (simp add: core_observe_def outcome_ok_def)
  next
    case (Inr x)
    let ?st1 = "bump (ob_outcome x) (st\<lparr> world := w \<rparr>)"
    have rev: "revision ?st1 \<le> 9007199254740991" and inst: "text_ok (instanceId ?st1)"
      using assms(2,3) by (simp_all add: bump_def wire_inv_instance)
    have v: "version_ok (versionOf A ?st1)" by (rule versionOf_ok [OF assms(1) inst rev])
    obtain ms st2 where u: "updatesOrNone A E (ob_affected x) ?st1 = (ms, st2)"
      by (cases "updatesOrNone A E (ob_affected x) ?st1")
    have "list_all (accepted E) ms \<and> wire_inv st2"
      using updatesOrNone_ok [OF assms(1) _ rev u] assms(2) by simp
    then show ?thesis
      using o Inr v u assms(2,4)
      by (cases "ob_outcome x") (simp_all add: core_observe_def outcome_ok_def Let_def accepted_observed)
  qed
qed

lemma core_task_ok:
  assumes "authority_ok E A" and "wire_inv st" and "revision st < 9007199254740991"
    and "isText (fld m ''requestId'')" and "isText (fld m ''operationId'')"
  shows "outcome_ok E (core_task A E m st)"
proof -
  let ?op = "strOf (fld m ''operationId'')"
  obtain r w where t: "a_task A (fld m ''task'') ?op (world st) = (r, w)"
    by (cases "a_task A (fld m ''task'') ?op (world st)")
  show ?thesis
  proof (cases r)
    case (Inl e)
    then show ?thesis
      using t assms authority_okD(8) [OF assms(1)] by (simp add: core_task_def outcome_ok_def)
  next
    case (Inr x)
    let ?st1 = "st\<lparr> world := w, revision := Suc (revision st) \<rparr>"
    have rev: "revision ?st1 \<le> 9007199254740991" using assms(3) by simp
    obtain ms st2 where u: "updatesOrNone A E (t_affected x) ?st1 = (ms, st2)"
      by (cases "updatesOrNone A E (t_affected x) ?st1")
    have ok: "list_all (accepted E) ms \<and> wire_inv st2 \<and> revision st2 = revision ?st1"
      using updatesOrNone_ok [OF assms(1) _ rev u] assms(2) by simp
    then have "version_ok (versionOf A st2)"
      using rev by (intro versionOf_ok [OF assms(1)]) (simp_all add: wire_inv_instance)
    moreover have "taskResult (t_result x)" using t Inr authority_okD(9) [OF assms(1)] by blast
    ultimately show ?thesis
      using t Inr u ok assms(4) text_ok_strOf [OF assms(5)]
      by (simp add: core_task_def outcome_ok_def Let_def accepted_task)
  qed
qed

lemma core_command_ok:
  assumes "authority_ok E A" and "wire_inv st" and "revision st < 9007199254740991"
    and "isText (fld m ''requestId'')" and "isText (fld m ''operationId'')"
  shows "outcome_ok E (core_command A E m st)"
proof (cases "jm_get (operations st) (strOf (fld m ''operationId''))")
  case (Some c)
  have "version_ok (o_version c)"
    using Some assms(2) by (force simp: wire_inv_def jm_get_def dest: map_of_SomeD)
  moreover have "length (strOf (fld m ''requestId'')) \<le> 4096"
    using text_ok_strOf [OF assms(4)] by (simp add: text_ok_def)
  ultimately show ?thesis
    using Some assms(2,4) text_ok_strOf [OF assms(5)]
    by (simp add: core_command_def outcome_ok_def Let_def accepted_command errorReply_accepted_iff
        failureOf_def failure_ok_def text_ok_def FAILURE_CODES_def)
next
  case None
  let ?op = "strOf (fld m ''operationId'')"
  obtain r w where c: "a_command A (fld m ''command'') ?op (world st) = (r, w)"
    by (cases "a_command A (fld m ''command'') ?op (world st)")
  show ?thesis
  proof (cases r)
    case (Inl e)
    then show ?thesis
      using None c assms authority_okD(5) [OF assms(1)] by (simp add: core_command_def outcome_ok_def)
  next
    case (Inr x)
    let ?st1 = "bump (c_outcome x) (st\<lparr> world := w \<rparr>)"
    let ?c = "\<lparr> o_command = stringify E (fld m ''command''), o_outcome = c_outcome x,
        o_delivery = c_delivery x, o_version = versionOf A ?st1 \<rparr>"
    let ?st2 = "?st1\<lparr> operations := rememberOperation ?op ?c (operations ?st1) \<rparr>"
    have rev: "revision ?st1 \<le> 9007199254740991" and inst: "text_ok (instanceId ?st1)"
      using assms(2,3) by (simp_all add: bump_def wire_inv_instance)
    have v: "version_ok (versionOf A ?st1)" by (rule versionOf_ok [OF assms(1) inst rev])
    then have inv: "wire_inv ?st2" using assms(2) by (intro wire_inv_remember) simp_all
    obtain ms st3 where u: "updatesOrNone A E (c_affected x) ?st2 = (ms, st3)"
      by (cases "updatesOrNone A E (c_affected x) ?st2")
    have "list_all (accepted E) ms \<and> wire_inv st3"
      using updatesOrNone_ok [OF assms(1) inv _ u] rev by simp
    then show ?thesis
      using None c Inr v u inv assms(4) text_ok_strOf [OF assms(5)]
      by (cases "c_outcome x") (simp_all add: core_command_def outcome_ok_def Let_def accepted_command)
  qed
qed

lemma core_subscribe_ok:
  assumes "authority_ok E A" and "wire_inv st" and "revision st \<le> 9007199254740991"
    and "isText (fld m ''requestId'')" and "isText (fld m ''subscriptionId'')"
  shows "outcome_ok E (core_subscribe A E m st)"
proof -
  let ?sid = "strOf (fld m ''subscriptionId'')"
  obtain r w where s: "a_select A (fld m ''selection'') (world st) = (r, w)"
    by (cases "a_select A (fld m ''selection'') (world st)")
  show ?thesis
  proof (cases r)
    case (Inl e)
    then show ?thesis
      using s assms authority_okD(3) [OF assms(1)] by (simp add: core_subscribe_def outcome_ok_def)
  next
    case (Inr x)
    let ?sub = "\<lparr> s_selection = fld m ''selection'', s_value = x, s_digest = stringify E x \<rparr>"
    let ?st1 = "st\<lparr> world := w, subscriptions := jm_set ?sid ?sub (subscriptions st) \<rparr>"
    have sid: "text_ok ?sid" using text_ok_strOf [OF assms(5)] by simp
    have "text_ok (fst p)" if "p \<in> set (jm_set ?sid ?sub (subscriptions st))" for p
      using subsetD [OF set_jm_set that] sid assms(2) by (auto simp: wire_inv_def)
    then have inv: "wire_inv ?st1" using assms(2) by (simp add: wire_inv_def)
    have v: "version_ok (versionOf A ?st1)"
      using assms(2,3) by (intro versionOf_ok [OF assms(1)]) (simp_all add: wire_inv_instance)
    have "selectionValue E x" using s Inr authority_okD(4) [OF assms(1)] by blast
    then show ?thesis
      using s Inr inv v sid assms(4)
      by (simp add: core_subscribe_def outcome_ok_def Let_def accepted_update accepted_subscribed)
  qed
qed

lemma core_unsubscribe_ok:
  assumes "wire_inv st" and "isText (fld m ''requestId'')" and "isText (fld m ''subscriptionId'')"
  shows "outcome_ok E (core_unsubscribe m st)"
proof -
  let ?sid = "strOf (fld m ''subscriptionId'')"
  have "text_ok (fst p)" if "p \<in> set (jm_delete ?sid (subscriptions st))" for p
    using subsetD [OF set_jm_delete that] assms(1) by (auto simp: wire_inv_def)
  then show ?thesis
    using assms text_ok_strOf [OF assms(3)]
    by (simp add: core_unsubscribe_def outcome_ok_def Let_def accepted_unsubscribed wire_inv_def)
qed

lemma fold_publish_wire: "wire_inv (fold (\<lambda>p. publish (f p)) ps st) = wire_inv st"
  by (induction ps arbitrary: st) (simp_all add: publish_def wire_inv_def)

lemma fold_publish_revision: "revision (fold (\<lambda>p. publish (f p)) ps st) = revision st"
  by (induction ps arbitrary: st) (simp_all add: publish_def)

lemma errorReply_refused:
  "\<not> failure_ok f \<Longrightarrow>
     decodeLibraryServiceServerMessage E (errorReply f rid sid) = invalid ''error reply is invalid''"
  by (cases rid; cases sid)
    (simp_all add: server_defs errorReply_def truthy_field_def Let_def)

lemma authorityFailure_ok:
  "thrown_ok e \<Longrightarrow> text_ok fallback \<Longrightarrow> failure_ok (authorityFailure e fallback)"
  by (cases e) (simp_all add: failureOf_def failure_ok_def FAILURE_CODES_def)

lemma failureOf_ok: "code \<in> set FAILURE_CODES \<Longrightarrow> text_ok message \<Longrightarrow> failure_ok (failureOf code message b)"
  by (simp add: failureOf_def failure_ok_def)

lemma text_ok_messages [simp]:
  "text_ok ''library service already belongs to another client''"
  "text_ok ''library could not be opened''" "text_ok ''library service is closed''"
  "text_ok ''library service is not ready''" "text_ok ''library service request failed''"
  by (simp_all add: text_ok_def)

lemma relayMembership_null [simp]: "relayMembership JNull"
  by (simp add: relayMembership_def nullable_def)

lemma relay_answer_ok:
  assumes "queryResult E x" and "fld x ''kind'' = JStr ''relay.membership''"
  shows "relayMembership (fld x ''capability'')"
  using assms by (simp add: queryResult_def Let_def guarded)

lemma core_hello_ok:
  assumes "authority_ok E A" and "wire_inv st" and "revision st \<le> 9007199254740991"
    and "isText (fld m ''requestId'')"
  shows "outcome_ok E (Inr (fst (core_hello A m st)), snd (core_hello A m st))"
proof -
  have rid: "length (strOf (fld m ''requestId'')) \<le> 4096"
    using text_ok_strOf [OF assms(4)] by (simp add: text_ok_def)
  note err = errorReply_accepted_iff failureOf_ok FAILURE_CODES_def rid
  show ?thesis
  proof (cases "client st")
    case (Some c)
    have "version_ok (versionOf A st)"
      using assms by (intro versionOf_ok) (simp_all add: wire_inv_instance)
    moreover have "relayMembership (membership st)" using assms(2) by (simp add: wire_inv_def)
    ultimately show ?thesis
      using Some assms(2,4) by (simp add: core_hello_def outcome_ok_def Let_def accepted_ready err)
  next
    case None
    obtain ps r w where o: "a_open A m (world st) = ((ps, r), w)"
      by (cases "a_open A m (world st)") auto
    let ?st1 = "fold (\<lambda>p. publish [openingMessage (fld m ''requestId'') p]) ps (st\<lparr> world := w \<rparr>)"
    have st1: "wire_inv ?st1" "revision ?st1 \<le> 9007199254740991"
      using assms(2,3) by (simp_all add: fold_publish_wire fold_publish_revision)
    show ?thesis
    proof (cases r)
      case (Inl e)
      have "thrown_ok e" using o Inl authority_okD(2) [OF assms(1)] by blast
      then show ?thesis
        using None o Inl st1(1)
        by (cases e) (simp_all add: core_hello_def outcome_ok_def Let_def err)
    next
      case (Inr b)
      obtain ans w2 where q: "a_query A (JObj [(''kind'', JStr ''relay.membership'')]) w = (ans, w2)"
        by (cases "a_query A (JObj [(''kind'', JStr ''relay.membership'')]) w")
      define relay where "relay = (case ans of Inl _ \<Rightarrow> JNull | Inr x \<Rightarrow>
        if fld x ''kind'' = JStr ''relay.membership'' then fld x ''capability'' else JNull)"
      have relay: "relayMembership relay"
      proof (cases ans)
        case (Inr x)
        then have "queryResult E x" using q authority_okD(7) [OF assms(1)] by blast
        then show ?thesis using Inr relay_answer_ok [of E x] by (simp add: relay_def)
      qed (simp add: relay_def)
      let ?st2 = "?st1\<lparr> opened := True, listening := True, membership := relay,
         client := Some \<lparr> cl_id = fld m ''clientId'', cl_libraryKey = fld m ''libraryKey'',
           cl_mode = fld m ''mode'', cl_wire = fld m ''wire'' \<rparr>, world := w2 \<rparr>"
      have inv: "wire_inv ?st2" using st1(1) relay by (simp add: wire_inv_def)
      have "version_ok (versionOf A ?st2)"
        using st1 by (intro versionOf_ok [OF assms(1)]) (simp_all add: wire_inv_instance)
      with inv relay show ?thesis
        using None o Inr q st1(1) assms(4)
        by (cases b) (simp_all add: core_hello_def outcome_ok_def Let_def err accepted_ready
            relay_def [symmetric])
    qed
  qed
qed

lemma core_handle_ok:
  assumes "authority_ok E A" and "wire_inv st" and "revision st < 9007199254740991"
    and "client_message E m" and "fld m ''type'' \<noteq> JStr ''hello''"
  shows "outcome_ok E (core_handle A E m st)"
proof -
  let ?t = "strOf (fld m ''type'')"
  from assms(4) have ty: "fld m ''type'' = JStr ?t" and rid: "isText (fld m ''requestId'')"
    and pay: "client_payload E ?t m"
    using text_ok_strOf by (simp_all add: client_message_def)
  have rev: "revision st \<le> 9007199254740991" using assms(3) by simp
  have nh: "?t \<noteq> ''hello''" using assms(5) ty by auto
  have "?t \<in> {''command'', ''query'', ''task'', ''subscribe'', ''unsubscribe'', ''observe''}"
  proof (rule ccontr)
    assume "\<not> ?thesis"
    with nh have "\<not> client_payload E ?t m" by (simp add: client_payload_def)
    with pay show False by simp
  qed
  then consider "?t = ''command''" | "?t = ''query''" | "?t = ''task''" | "?t = ''subscribe''"
    | "?t = ''unsubscribe''" | "?t = ''observe''" by blast
  then show ?thesis
  proof cases
    case 1
    then show ?thesis using core_command_ok [OF assms(1-3) rid] pay ty
      by (simp add: core_handle_def client_payload_def Let_def)
  next
    case 2
    then show ?thesis using core_query_ok [OF assms(1,2) rev rid] ty
      by (simp add: core_handle_def Let_def)
  next
    case 3
    then show ?thesis using core_task_ok [OF assms(1-3) rid] pay ty
      by (simp add: core_handle_def client_payload_def Let_def)
  next
    case 4
    then show ?thesis using core_subscribe_ok [OF assms(1,2) rev rid] pay ty
      by (simp add: core_handle_def client_payload_def Let_def)
  next
    case 5
    then show ?thesis using core_unsubscribe_ok [OF assms(2) rid] pay ty
      by (simp add: core_handle_def client_payload_def Let_def)
  next
    case 6
    then show ?thesis using core_observe_ok [OF assms(1-3) rid] ty
      by (simp add: core_handle_def Let_def)
  qed
qed

lemma core_dispatch_accepted:
  assumes "authority_ok E A" and "wire_inv st" and "revision st < 9007199254740991"
    and "client_message E m"
  shows "list_all (\<lambda>r. decodeLibraryServiceServerMessage E r = Inr r) (fst (core_dispatch A E m st)) \<and>
     wire_inv (snd (core_dispatch A E m st))"
proof -
  have dec: "decodeLibraryServiceClientMessage E m = Inr m" using assms(4) by (simp add: decode_client_iff)
  have rid: "isText (fld m ''requestId'')" using assms(4) by (simp add: client_message_def)
  then have len: "length (strOf (fld m ''requestId'')) \<le> 4096"
    using text_ok_strOf by (simp add: text_ok_def)
  note err = errorReply_accepted_iff failureOf_ok FAILURE_CODES_def len
  have acc: "(\<lambda>r. decodeLibraryServiceServerMessage E r = Inr r) = accepted E"
    by (simp add: accepted_def fun_eq_iff)
  consider "closed st" | "\<not> closed st" "fld m ''type'' = JStr ''hello''"
    | "\<not> closed st" "fld m ''type'' \<noteq> JStr ''hello''" "\<not> opened st"
    | "\<not> closed st" "fld m ''type'' \<noteq> JStr ''hello''" "opened st" by blast
  then show ?thesis
  proof cases
    case 2
    then show ?thesis
      using core_hello_ok [OF assms(1,2) less_imp_le [OF assms(3)] rid] dec
      by (simp add: acc core_dispatch_def Let_def outcome_ok_def)
  next
    case 4
    obtain r st' where h: "core_handle A E m st = (r, st')" by (cases "core_handle A E m st")
    have ok: "outcome_ok E (r, st')" using core_handle_ok [OF assms 4(2)] h by simp
    have sid: "length (strOf (fld m ''subscriptionId'')) \<le> 4096"
      if "fld m ''type'' = JStr ''subscribe'' \<or> fld m ''type'' = JStr ''unsubscribe''"
    proof -
      have "isText (fld m ''subscriptionId'')"
        using that assms(4) by (elim disjE) (simp_all add: client_message_def client_payload_def)
      then show ?thesis using text_ok_strOf by (simp add: text_ok_def)
    qed
    show ?thesis
    proof (cases r)
      case (Inl e)
      with ok have "failure_ok (authorityFailure e ''library service request failed'')"
        by (simp add: outcome_ok_def authorityFailure_ok)
      with Inl ok sid show ?thesis
        using 4 dec h by (simp add: acc core_dispatch_def Let_def outcome_ok_def err)
    next
      case (Inr ms)
      with ok show ?thesis
        using 4 dec h by (simp add: acc core_dispatch_def Let_def outcome_ok_def)
    qed
  qed (use dec assms(2) in \<open>simp_all add: acc core_dispatch_def Let_def err\<close>)
qed

text \<open>C4: The two ends of the protocol fit. For every client message the service decodes, in any state
  of the actor that an authority keeping its types has led to, each message of the reply (the
  updates, the result or the error) passes the page's decoder unchanged, and the actor is again in
  such a state.\<close>

theorem replies_accepted:
  assumes "authority_ok E A" and "wire_inv st" and "revision st < 9007199254740991"
    and "client_message E m"
  shows "list_all (\<lambda>r. decodeLibraryServiceServerMessage E r = Inr r) (fst (core_dispatch A E m st)) \<and>
     wire_inv (snd (core_dispatch A E m st))"
  by (rule core_dispatch_accepted [OF assms])

lemma demo_authority_ok: "authority_ok plain_env demo_authority"
  by (simp add: authority_ok_def demo_authority_def text_ok_def selectionValue_def exact_def exact_key_def)

lemma demo_core_wire: "wire_inv demo_core"
  by (simp add: wire_inv_def demo_core_def new_core_def text_ok_def)

theorem replies_accepted_witness:
  "list_all (\<lambda>r. decodeLibraryServiceServerMessage plain_env r = Inr r)
     (fst (core_dispatch demo_authority plain_env demo_request demo_core))"
  using replies_accepted [OF demo_authority_ok demo_core_wire _ demo_request_ok(1)]
  by (simp add: demo_core_def new_core_def)

end
