(* ===== verification/Actor.thy ===== *)
theory Actor
  imports CoreFacts "HOL-Library.Multiset"
begin

text \<open>
  The queueing of \<^verbatim>\<open>libraryServiceCore.ts\<close>: \<open>dispatch\<close> puts a request on the lane \<open>#requests\<close>, or,
  for a metadata query and an assistant publication, starts it as provider work once everything
  already on the lane is done, without occupying the lane; the authority's events join the lane;
  \<open>close\<close> waits for both. A promise is a ticket: \<open>answered\<close> records what each resolved to and whether
  the lane answered it. One lane job or one piece of provider work is one step.
\<close>

datatype job = Request nat jsval | EventJob authority_event

record 'w actor =
  core_of :: "'w core"
  lane :: "job list"
  provider :: "(nat \<times> nat \<times> jsval) list"
  answered :: "(nat \<times> bool \<times> jsval list) list"
  next_ticket :: nat

definition new_actor :: "string \<Rightarrow> 'w \<Rightarrow> 'w actor" where
  "new_actor inst w = \<lparr> core_of = new_core inst w, lane = [], provider = [], answered = [], next_ticket = 0 \<rparr>"

text \<open>\<open>dispatch(input)\<close>. Provider work carries the number of lane jobs still ahead of it.\<close>

definition actor_dispatch :: "jsval \<Rightarrow> 'w actor \<Rightarrow> 'w actor" where
  "actor_dispatch input a =
    (if isLibraryMetadataRequest input \<or> isAssistantPublish input
     then a\<lparr> provider := provider a @ [(length (lane a), next_ticket a, input)],
            next_ticket := Suc (next_ticket a) \<rparr>
     else a\<lparr> lane := lane a @ [Request (next_ticket a) input], next_ticket := Suc (next_ticket a) \<rparr>)"

text \<open>The promise chain advances by one job, which every piece of provider work waiting sees. \<open>core_dispatch\<close>
  is total, the errors of the authority being values in it, so the \<open>catch\<close> around it has nothing to do.\<close>

fun run_job :: "'w authority \<Rightarrow> js_env \<Rightarrow> job \<Rightarrow> 'w actor \<Rightarrow> 'w actor" where
  "run_job A E (Request t input) a =
    (let (ms, st) = core_dispatch A E input (core_of a) in
     a\<lparr> core_of := st, answered := answered a @ [(t, True, ms)] \<rparr>)"
| "run_job A E (EventJob event) a = a\<lparr> core_of := core_event A E event (core_of a) \<rparr>"

definition admit :: "(nat \<times> nat \<times> jsval) list \<Rightarrow> (nat \<times> nat \<times> jsval) list" where
  "admit ps = map (\<lambda>(n, t, input). (n - 1, t, input)) ps"

definition run_lane :: "'w authority \<Rightarrow> js_env \<Rightarrow> 'w actor \<Rightarrow> 'w actor" where
  "run_lane A E a =
    (case lane a of [] \<Rightarrow> a
     | j # js \<Rightarrow> (run_job A E j a)\<lparr> lane := js, provider := admit (provider a) \<rparr>)"

definition run_provider :: "'w authority \<Rightarrow> js_env \<Rightarrow> nat \<Rightarrow> 'w actor \<Rightarrow> 'w actor" where
  "run_provider A E i a =
    (if i < length (provider a) \<and> fst (provider a ! i) = 0 then
       let (_, t, input) = provider a ! i; (ms, st) = core_dispatch A E input (core_of a) in
       a\<lparr> core_of := st, answered := answered a @ [(t, False, ms)],
          provider := take i (provider a) @ drop (Suc i) (provider a) \<rparr>
     else a)"

definition actor_event :: "authority_event \<Rightarrow> 'w actor \<Rightarrow> 'w actor" where
  "actor_event event a =
     (if listening (core_of a) then a\<lparr> lane := lane a @ [EventJob event] \<rparr> else a)"

definition close_begin :: "'w actor \<Rightarrow> 'w actor" where
  "close_begin a = a\<lparr> core_of := core_close_begin (core_of a) \<rparr>"

definition close_finish :: "('w \<Rightarrow> 'w) \<Rightarrow> 'w actor \<Rightarrow> 'w actor" where
  "close_finish shut a =
    (if closed (core_of a) \<and> lane a = [] \<and> provider a = []
     then a\<lparr> core_of := core_close_finish shut (core_of a) \<rparr> else a)"

inductive actor_step ::
  "'w authority \<Rightarrow> js_env \<Rightarrow> ('w \<Rightarrow> 'w) \<Rightarrow> 'w actor \<Rightarrow> 'w actor \<Rightarrow> bool"
  for A :: "'w authority" and E :: js_env and shut :: "'w \<Rightarrow> 'w" where
  step_dispatch: "actor_step A E shut a (actor_dispatch input a)"
| step_lane: "lane a \<noteq> [] \<Longrightarrow> actor_step A E shut a (run_lane A E a)"
| step_provider: "i < length (provider a) \<Longrightarrow> fst (provider a ! i) = 0 \<Longrightarrow>
    actor_step A E shut a (run_provider A E i a)"
| step_event: "actor_step A E shut a (actor_event event a)"
| step_listen: "actor_step A E shut a (a\<lparr> core_of := core_listen l (core_of a) \<rparr>)"
| step_unlisten: "actor_step A E shut a (a\<lparr> core_of := core_unlisten l (core_of a) \<rparr>)"
| step_close: "actor_step A E shut a (close_begin a)"
| step_finish: "actor_step A E shut a (close_finish shut a)"

section \<open>The invariant\<close>

fun job_ticket :: "job \<Rightarrow> nat list" where
  "job_ticket (Request t input) = [t]"
| "job_ticket (EventJob event) = []"

definition lane_tickets :: "'w actor \<Rightarrow> nat list" where
  "lane_tickets a = concat (map job_ticket (lane a))"

definition provider_tickets :: "'w actor \<Rightarrow> nat list" where
  "provider_tickets a = map (\<lambda>(_, t, _). t) (provider a)"

definition answered_tickets :: "'w actor \<Rightarrow> nat list" where
  "answered_tickets a = map fst (answered a)"

definition lane_answers :: "'w actor \<Rightarrow> nat list" where
  "lane_answers a = map fst (filter (\<lambda>(_, by_lane, _). by_lane) (answered a))"

text \<open>Every ticket handed out is in exactly one place, and the lane's tickets, answered and waiting,
  are in the order they were handed out. Provider work waits for no more jobs than the lane has.\<close>

definition actor_inv :: "js_env \<Rightarrow> 'w actor \<Rightarrow> bool" where
  "actor_inv E a \<longleftrightarrow>
     core_inv E (core_of a) \<and>
     mset (answered_tickets a) + mset (lane_tickets a) + mset (provider_tickets a) =
       mset [0..<next_ticket a] \<and>
     sorted_wrt (<) (lane_answers a @ lane_tickets a) \<and>
     (\<forall>p \<in> set (provider a). fst p \<le> length (lane a))"

lemmas tickets = lane_tickets_def provider_tickets_def answered_tickets_def lane_answers_def

lemma admit_tickets [simp]:
  "image_mset (\<lambda>p. fst (snd p)) (mset (admit ps)) = image_mset (\<lambda>p. fst (snd p)) (mset ps)"
  by (simp add: admit_def split_def multiset.map_comp comp_def)

lemma core_inv_lifecycle [simp]:
  "core_inv E (core_listen l st) = core_inv E st"
  "core_inv E (core_unlisten l st) = core_inv E st"
  "core_inv E (core_close_begin st) = core_inv E st"
  "core_inv E (core_close_finish shut st)"
  by (simp_all add: core_inv_def versions_ok_def digests_ok_def core_listen_def core_unlisten_def
      core_close_begin_def core_close_finish_def)

lemma core_dispatch_inv: "core_inv E st \<Longrightarrow> core_inv E (snd (core_dispatch A E input st))"
  using core_dispatch_advances [of E st A input] by (simp add: advances_def)

lemma core_event_inv: "core_inv E st \<Longrightarrow> core_inv E (core_event A E event st)"
  using core_event_advances [of E st A event] by (simp add: advances_def)

lemma tickets_below:
  assumes "actor_inv E a"
  shows "set (answered_tickets a) \<union> set (lane_tickets a) \<union> set (provider_tickets a) = {0..<next_ticket a}"
proof -
  have "set_mset (mset (answered_tickets a) + mset (lane_tickets a) + mset (provider_tickets a)) =
    set_mset (mset [0..<next_ticket a])"
    using assms by (simp add: actor_inv_def)
  then show ?thesis by simp
qed

lemma lane_answers_sub: "set (lane_answers a) \<subseteq> set (answered_tickets a)"
  by (auto simp: tickets)

lemma actor_dispatch_inv:
  assumes "actor_inv E a"
  shows "actor_inv E (actor_dispatch input a)"
proof (cases "isLibraryMetadataRequest input \<or> isAssistantPublish input")
  case True
  with assms show ?thesis by (auto simp: actor_inv_def actor_dispatch_def tickets)
next
  case False
  have "\<forall>t \<in> set (lane_answers a @ lane_tickets a). t < next_ticket a"
    using tickets_below [OF assms] lane_answers_sub [of a] by auto
  with False assms show ?thesis
    by (auto simp: actor_inv_def actor_dispatch_def tickets sorted_wrt_append)
qed

lemma run_lane_inv:
  assumes "actor_inv E a"
  shows "actor_inv E (run_lane A E a)"
proof (cases "lane a")
  case (Cons j js)
  have "\<forall>p \<in> set (admit (provider a)). fst p \<le> length js"
    using assms Cons by (fastforce simp: actor_inv_def admit_def)
  moreover have "core_inv E (core_of a)" using assms by (simp add: actor_inv_def)
  ultimately show ?thesis
    using assms Cons
    by (cases j) (simp_all add: actor_inv_def run_lane_def tickets split_def Let_def
        core_dispatch_inv core_event_inv)
qed (use assms in \<open>simp add: run_lane_def\<close>)

lemma run_provider_inv:
  assumes "actor_inv E a"
  shows "actor_inv E (run_provider A E i a)"
proof (cases "i < length (provider a) \<and> fst (provider a ! i) = 0")
  case True
  let ?ps = "provider a"
  obtain n t input where p: "?ps ! i = (n, t, input)" by (cases "?ps ! i")
  have split: "?ps = take i ?ps @ (n, t, input) # drop (Suc i) ?ps"
    using True p by (metis id_take_nth_drop)
  have "mset (map (\<lambda>(_, t, _). t) ?ps) =
     mset (map (\<lambda>(_, t, _). t) (take i ?ps @ drop (Suc i) ?ps)) + {#t#}"
    by (subst split) simp
  moreover have "\<forall>p \<in> set (take i ?ps) \<union> set (drop (Suc i) ?ps). fst p \<le> length (lane a)"
    using assms by (auto simp: actor_inv_def dest: in_set_takeD in_set_dropD)
  moreover have "core_inv E (snd (core_dispatch A E input (core_of a)))"
    using assms by (intro core_dispatch_inv) (simp add: actor_inv_def)
  ultimately show ?thesis
    using assms True p
    by (simp add: actor_inv_def run_provider_def tickets split_def Let_def)
next
  case False
  then have "run_provider A E i a = a" unfolding run_provider_def by (rule if_not_P)
  with assms show ?thesis by simp
qed

lemma actor_core_inv:
  "actor_inv E a \<Longrightarrow> core_inv E st \<Longrightarrow> actor_inv E (a\<lparr> core_of := st \<rparr>)"
  by (simp add: actor_inv_def tickets)

lemma actor_step_inv:
  assumes "actor_step A E shut a b" and "actor_inv E a"
  shows "actor_inv E b"
  using assms
proof cases
  case (step_event event)
  with assms(2) show ?thesis by (auto simp: actor_event_def actor_inv_def tickets)
qed (use assms(2) in \<open>simp_all add: actor_dispatch_inv run_lane_inv run_provider_inv close_begin_def
    close_finish_def actor_core_inv actor_inv_def [THEN iffD1, THEN conjunct1]\<close>)

lemma run_job_advances: "advances E (core_of a) (core_of (run_job A E j a))"
  using core_dispatch_advances core_event_advances
  by (cases j) (auto simp: split_def Let_def)

lemma actor_step_revision:
  assumes "actor_step A E shut a b"
  shows "revision (core_of a) \<le> revision (core_of b) \<and> instanceId (core_of b) = instanceId (core_of a)"
  using assms
proof cases
  case step_lane
  then show ?thesis
    using run_job_advances [of E a A] by (auto simp: run_lane_def advances_def split: list.splits)
next
  case (step_provider i)
  then show ?thesis
    using core_dispatch_advances [of E "core_of a" A "snd (snd (provider a ! i))"]
    by (auto simp: run_provider_def advances_def split_def Let_def)
qed (auto simp: actor_dispatch_def actor_event_def close_begin_def close_finish_def core_listen_def
    core_unlisten_def core_close_begin_def core_close_finish_def)

definition actor_start :: "'w actor \<Rightarrow> bool" where
  "actor_start a \<longleftrightarrow> (\<exists>inst w. a = new_actor inst w)"

interpretation act: growing actor_start "actor_step A E shut" "actor_inv E" "\<lambda>a. revision (core_of a)"
  for A E shut
proof unfold_locales
  show "actor_inv E a" if "actor_start a" for a :: "'w actor"
    using that by (auto simp: actor_start_def new_actor_def actor_inv_def tickets)
qed (auto intro: actor_step_inv dest: actor_step_revision)

section \<open>Properties of the queueing\<close>

text \<open>C35: In every reachable state of the service the tables are sound: subscription and operation ids
  are unique, no more than 1024 operations are remembered, each subscription's digest is the
  serialisation of its value, a remembered version belongs to this instance and is not ahead of it,
  and the authority is open only for a client.\<close>

theorem actor_tables_sound:
  assumes "actor_start s" and "(actor_step A E shut)\<^sup>*\<^sup>* s a"
  shows "distinct (map fst (subscriptions (core_of a))) \<and> distinct (map fst (operations (core_of a))) \<and>
     length (operations (core_of a)) \<le> 1024 \<and>
     (\<forall>p \<in> set (subscriptions (core_of a)). s_digest (snd p) = stringify E (s_value (snd p))) \<and>
     (\<forall>p \<in> set (operations (core_of a)). v_instance (o_version (snd p)) = instanceId (core_of a) \<and>
        v_revision (o_version (snd p)) \<le> revision (core_of a)) \<and>
     (opened (core_of a) \<longrightarrow> client (core_of a) \<noteq> None)"
proof -
  have "core_inv E (core_of a)" using act.inv_reachable [OF assms] by (simp add: actor_inv_def)
  then show ?thesis
    by (simp add: core_inv_def jm_inv_def digests_ok_def versions_ok_def OPERATION_HISTORY_LIMIT_def)
qed

text \<open>C23: Every request is answered at most once and none is lost: in a reachable state each ticket
  handed out is in exactly one place, among the answers, on the lane, or in provider work.\<close>

theorem each_request_once:
  assumes "actor_start s" and "(actor_step A E shut)\<^sup>*\<^sup>* s a"
  shows "distinct (answered_tickets a @ lane_tickets a @ provider_tickets a) \<and>
     set (answered_tickets a @ lane_tickets a @ provider_tickets a) = {0..<next_ticket a}"
proof -
  have inv: "actor_inv E a" using act.inv_reachable [OF assms] .
  then have "mset (answered_tickets a @ lane_tickets a @ provider_tickets a) = mset [0..<next_ticket a]"
    by (simp add: actor_inv_def ac_simps)
  then show ?thesis
    using tickets_below [OF inv] by (metis distinct_upt mset_eq_imp_distinct_iff mset_eq_setD set_upt)
qed

text \<open>The version stream only moves forward: along any run from a reachable state the revision never
  decreases and the instance never changes, so two versions of one instance are ordered in time.\<close>

theorem version_stream_monotone:
  assumes "actor_start s" and "(actor_step A E shut)\<^sup>*\<^sup>* s a" and "(actor_step A E shut)\<^sup>*\<^sup>* a b"
  shows "revision (core_of a) \<le> revision (core_of b) \<and> instanceId (core_of b) = instanceId (core_of a)"
proof
  show "revision (core_of a) \<le> revision (core_of b)"
    using act.quantity_steps [OF assms(3) act.inv_reachable [OF assms(1,2)]] .
  show "instanceId (core_of b) = instanceId (core_of a)"
    using assms(3)
    by (induction rule: rtranclp_induct) (auto dest: actor_step_revision)
qed

text \<open>The steps that do waiting work.\<close>

definition work_step :: "'w authority \<Rightarrow> js_env \<Rightarrow> 'w actor \<Rightarrow> 'w actor \<Rightarrow> bool" where
  "work_step A E a b \<longleftrightarrow>
     lane a \<noteq> [] \<and> b = run_lane A E a \<or>
     (\<exists>i < length (provider a). fst (provider a ! i) = 0 \<and> b = run_provider A E i a)"

definition waiting :: "'w actor \<Rightarrow> nat" where
  "waiting a = length (lane a) + length (provider a)"

lemma run_job_frame: "lane (run_job A E j a) = lane a" "next_ticket (run_job A E j a) = next_ticket a"
  by (cases j; simp add: split_def Let_def)+

lemma work_step_less: "work_step A E a b \<Longrightarrow> waiting b < waiting a"
  by (auto simp: work_step_def waiting_def run_lane_def run_provider_def admit_def split_def Let_def
      split: list.splits)

text \<open>C12: The service never deadlocks. In a reachable state each step of waiting work leaves less
  waiting, so only finitely many can follow one another, and when none is possible every request
  ever dispatched has been answered: provider work never waits for a lane that has drained.\<close>

theorem service_drains:
  assumes "actor_start s" and "(actor_step A E shut)\<^sup>*\<^sup>* s a"
  shows "(\<forall>b. work_step A E a b \<longrightarrow> waiting b < waiting a) \<and>
     ((\<nexists>b. work_step A E a b) \<longrightarrow> set (answered_tickets a) = {0..<next_ticket a})"
proof -
  have inv: "actor_inv E a" using act.inv_reachable [OF assms] .
  have "set (answered_tickets a) = {0..<next_ticket a}" if stuck: "\<nexists>b. work_step A E a b"
  proof -
    have lane: "lane a = []" using stuck by (auto simp: work_step_def)
    have "provider a = []"
    proof (rule ccontr)
      assume "provider a \<noteq> []"
      then have "0 < length (provider a)" "fst (provider a ! 0) = 0"
        using inv lane nth_mem [of 0 "provider a"] by (auto simp: actor_inv_def)
      then have "work_step A E a (run_provider A E 0 a)" unfolding work_step_def by blast
      with stuck show False by blast
    qed
    with lane tickets_below [OF inv] show ?thesis by (simp add: tickets)
  qed
  then show ?thesis using work_step_less by blast
qed

section \<open>A concrete run\<close>

definition demo_actor :: "nat actor" where
  "demo_actor = actor_dispatch demo_request (new_actor ''i1'' 0)"

lemma demo_actor_reached:
  "actor_start (new_actor ''i1'' (0::nat))"
  "(actor_step demo_authority plain_env id)\<^sup>*\<^sup>* (new_actor ''i1'' 0) demo_actor"
  by (auto simp: actor_start_def demo_actor_def intro: step_dispatch)

lemma demo_actor_fields: "lane demo_actor = [Request 0 demo_request]" "next_ticket demo_actor = 1"
  "answered demo_actor = []" "provider demo_actor = []"
  by (simp_all add: demo_actor_def actor_dispatch_def new_actor_def isLibraryMetadataRequest_def
      isAssistantPublish_def demo_request_def)

theorem actor_tables_sound_witness: "length (operations (core_of demo_actor)) \<le> 1024"
  using actor_tables_sound [OF demo_actor_reached] by blast

theorem each_request_once_witness:
  "set (answered_tickets demo_actor @ lane_tickets demo_actor @ provider_tickets demo_actor) = {0::nat}"
  using each_request_once [OF demo_actor_reached] by (simp add: demo_actor_fields)

theorem version_stream_monotone_witness:
  "revision (core_of demo_actor) \<le> revision (core_of (run_lane demo_authority plain_env demo_actor))"
  using version_stream_monotone [OF demo_actor_reached
      r_into_rtranclp [of "actor_step demo_authority plain_env id", OF step_lane]] demo_actor_fields
  by simp

theorem service_drains_witness:
  "waiting (run_lane demo_authority plain_env demo_actor) < waiting demo_actor"
proof -
  have "work_step demo_authority plain_env demo_actor (run_lane demo_authority plain_env demo_actor)"
    by (simp add: work_step_def demo_actor_fields)
  then show ?thesis using service_drains [OF demo_actor_reached] by blast
qed

end
