(* ===== verification/JsonText.thy ===== *)
theory JsonText
  imports JsMap
begin

text \<open>
  Text as bytes (\<open>TextEncoder\<close>, \<open>TextDecoder\<close>) and \<open>JSON.parse\<close>, as the stores of the
  web client use them. The parser follows the grammar of the language specification: white space,
  literals, numbers with fraction and exponent, strings with escapes, arrays, and objects whose
  later properties replace earlier ones of the same name. \<open>None\<close> is the \<open>SyntaxError\<close> it throws;
  it also stands for text with code units of 256 and above, which the model's strings do not have.
  The lemmas show that the parser's fuel suffices and that it reads back what \<open>stringify\<close> writes.
\<close>

section \<open>UTF-8\<close>

definition utf8_char :: "char \<Rightarrow> nat list" where
  "utf8_char c = (let n = of_char c in if n < 128 then [n] else [192 + n div 64, 128 + n mod 64])"

definition utf8_encode :: "string \<Rightarrow> nat list" where
  "utf8_encode s = concat (map utf8_char s)"

text \<open>The code points below 256 take one byte, or two of which the first is 194 or 195.\<close>

fun utf8_decode :: "nat list \<Rightarrow> string option" where
  "utf8_decode [] = Some []"
| "utf8_decode (b # bs) =
    (if b < 128 then map_option (Cons (char_of b)) (utf8_decode bs)
     else if b = 194 \<or> b = 195 then
       (case bs of
          [] \<Rightarrow> None
        | b1 # rest \<Rightarrow>
            if 128 \<le> b1 \<and> b1 < 192
            then map_option (Cons (char_of ((b - 192) * 64 + (b1 - 128)))) (utf8_decode rest)
            else None)
     else None)"

lemma utf8_roundtrip [simp]: "utf8_decode (utf8_encode s) = Some s"
proof (induction s)
  case (Cons c s)
  define n where "n = (of_char c :: nat)"
  have c: "char_of n = c" and le: "n < 256" by (simp_all add: n_def)
  show ?case
  proof (cases "n < 128")
    case True
    with Cons c show ?thesis by (simp add: utf8_encode_def utf8_char_def n_def [symmetric])
  next
    case False
    define q r where "q = n div 64" and "r = n mod 64"
    have "n = q * 64 + r" and "r < 64" and "q = 2 \<or> q = 3"
      using le False by (auto simp: q_def r_def)
    with Cons c False show ?thesis
      by (auto simp: utf8_encode_def utf8_char_def n_def [symmetric] q_def [symmetric] r_def [symmetric])
  qed
qed (simp add: utf8_encode_def)

lemma utf8_encode_inject [simp]: "utf8_encode s = utf8_encode t \<longleftrightarrow> s = t"
  by (metis option.inject utf8_roundtrip)

lemma utf8_length: "length s \<le> length (utf8_encode s)"
  by (induction s) (auto simp: utf8_encode_def utf8_char_def Let_def)

section \<open>Tokens\<close>

abbreviation json_q :: char where "json_q \<equiv> CHR 0x22"
abbreviation json_bs :: char where "json_bs \<equiv> CHR 0x5C"

lemma json_marks [simp]: "char_of (34 :: nat) = json_q" "char_of (92 :: nat) = json_bs"
  by (simp_all add: char_of_def bit_Suc_0_iff)

definition isWs :: "char \<Rightarrow> bool" where
  "isWs c \<longleftrightarrow> (of_char c :: nat) \<in> {9, 10, 13, 32}"

definition skip_ws :: "string \<Rightarrow> string" where
  "skip_ws s = dropWhile isWs s"

definition hex_val :: "char \<Rightarrow> nat option" where
  "hex_val c =
    (let n = of_char c in
     if 48 \<le> n \<and> n \<le> 57 then Some (n - 48)
     else if 97 \<le> n \<and> n \<le> 102 then Some (n - 87)
     else if 65 \<le> n \<and> n \<le> 70 then Some (n - 55)
     else None)"

text \<open>What follows a backslash.\<close>

fun json_hex :: "string \<Rightarrow> (char \<times> string) option" where
  "json_hex (a # b # c # d # rest) =
    (case (hex_val a, hex_val b, hex_val c, hex_val d) of
       (Some 0, Some 0, Some h, Some l) \<Rightarrow> Some (char_of (16 * h + l), rest)
     | _ \<Rightarrow> None)"
| "json_hex _ = None"

fun json_unescape :: "string \<Rightarrow> (char \<times> string) option" where
  "json_unescape [] = None"
| "json_unescape (c # cs) =
    (if c = json_q \<or> c = json_bs \<or> c = CHR ''/'' then Some (c, cs)
     else if c = CHR ''b'' then Some (CHR 0x08, cs)
     else if c = CHR ''t'' then Some (CHR 0x09, cs)
     else if c = CHR ''n'' then Some (CHR 0x0A, cs)
     else if c = CHR ''f'' then Some (CHR 0x0C, cs)
     else if c = CHR ''r'' then Some (CHR 0x0D, cs)
     else if c = CHR ''u'' then json_hex cs
     else None)"

lemma json_hex_shorter: "json_hex s = Some (c, r) \<Longrightarrow> length r < length s"
  by (cases s rule: json_hex.cases) (auto split: option.splits nat.splits)

lemma json_unescape_shorter: "json_unescape s = Some (c, r) \<Longrightarrow> length r < length s"
  by (cases s) (auto split: if_splits dest: json_hex_shorter)

text \<open>The characters of a string, after its opening quote.\<close>

function parse_chars :: "string \<Rightarrow> (string \<times> string) option" where
  "parse_chars [] = None"
| "parse_chars (c # cs) =
    (if c = json_q then Some ([], cs)
     else if c = json_bs then
       (case json_unescape cs of
          None \<Rightarrow> None
        | Some (d, rest) \<Rightarrow> map_option (\<lambda>(s, r). (d # s, r)) (parse_chars rest))
     else if (of_char c :: nat) < 32 then None
     else map_option (\<lambda>(s, r). (c # s, r)) (parse_chars cs))"
  by pat_completeness auto
termination
  by (relation "measure length") (auto dest: json_unescape_shorter)

lemma parse_chars_shorter: "parse_chars s = Some (t, r) \<Longrightarrow> length r < length s"
proof (induction s arbitrary: t r rule: parse_chars.induct)
  case (2 c cs)
  consider (close) "c = json_q" | (esc) "c \<noteq> json_q" "c = json_bs"
    | (plain) "c \<noteq> json_q" "c \<noteq> json_bs" by blast
  then show ?case
  proof cases
    case close
    with 2 show ?thesis by simp
  next
    case esc
    then obtain d rest t' where d: "json_unescape cs = Some (d, rest)" and p: "parse_chars rest = Some (t', r)"
      using "2.prems" by (auto split: option.splits)
    from 2(1) [OF esc d refl p] json_unescape_shorter [OF d] show ?thesis by simp
  next
    case plain
    then obtain t' where "parse_chars cs = Some (t', r)" and "\<not> (of_char c :: nat) < 32"
      using "2.prems" by (auto split: if_splits)
    from 2(2) [OF plain this(2) this(1)] show ?thesis by simp
  qed
qed simp

lemma hex_val_digit: "n < 16 \<Longrightarrow> hex_val (hex_digit n) = Some n"
  by (simp add: hex_val_def hex_digit_def)


lemma parse_chars_json_char:
  "parse_chars (json_char c @ s) = map_option (\<lambda>(t, r). (c # t, r)) (parse_chars s)"
proof -
  define n where "n = (of_char c :: nat)"
  have c: "c = char_of n" by (simp add: n_def)
  have n: "of_char c = n" by (simp add: n_def)
  have hex: "hex_val (hex_digit (n div 16)) = Some (n div 16)" "hex_val (hex_digit (n mod 16)) = Some (n mod 16)"
    if "n < 32" using that by (simp_all add: hex_val_digit)
  have zero: "hex_val CHR ''0'' = Some 0" by (simp add: hex_val_def)
  consider "n = 34" | "n = 92" | "n = 8" | "n = 9" | "n = 10" | "n = 12" | "n = 13"
    | (ctl) "n < 32" "n \<notin> {8, 9, 10, 12, 13}" | (plain) "32 \<le> n" "n \<noteq> 34" "n \<noteq> 92"
    by (cases "n < 32") auto
  then show ?thesis
  proof cases
    case ctl
    then have "json_char c = [json_bs, CHR ''u'', CHR ''0'', CHR ''0'', hex_digit (n div 16), hex_digit (n mod 16)]"
      by (simp add: json_char_def Let_def n)
    then show ?thesis using hex [OF ctl(1)] zero c by simp
  next
    case plain
    then have "c \<noteq> json_q" "c \<noteq> json_bs" unfolding n_def by auto
    with plain show ?thesis by (simp add: json_char_def Let_def n)
  qed (simp_all add: json_char_def Let_def n, simp_all add: c char_of_def bit_Suc_0_iff)
qed

lemma parse_json_quote [simp]: "parse_chars (concat (map json_char s) @ json_q # rest) = Some (s, rest)"
  by (induction s) (simp_all add: parse_chars_json_char)

section \<open>Numbers\<close>

definition scale10 :: "int \<Rightarrow> rat \<Rightarrow> rat" where
  "scale10 e q = (if 0 \<le> e then q * 10 ^ nat e else q / 10 ^ nat (- e))"

text \<open>The fraction and the exponent of a number, absent or with at least one digit.\<close>

definition json_fraction :: "string \<Rightarrow> (string \<times> string) option" where
  "json_fraction s =
    (case s of
       [] \<Rightarrow> Some ([], [])
     | c # r \<Rightarrow>
         if c \<noteq> CHR ''.'' then Some ([], s)
         else let ds = takeWhile isDigit r in
           if ds = [] then None else Some (ds, dropWhile isDigit r))"

definition json_exponent :: "string \<Rightarrow> (int \<times> string) option" where
  "json_exponent s =
    (case s of
       [] \<Rightarrow> Some (0, [])
     | c # r \<Rightarrow>
         if c \<noteq> CHR ''e'' \<and> c \<noteq> CHR ''E'' then Some (0, s)
         else let (sign, r1) = (case r of [] \<Rightarrow> (1, []) | d # r' \<Rightarrow>
                    if d = CHR ''-'' then (-1, r') else if d = CHR ''+'' then (1, r') else (1, r));
                  ds = takeWhile isDigit r1 in
           if ds = [] then None else Some (sign * int (dec_val ds), dropWhile isDigit r1))"

definition num_of :: "js_env \<Rightarrow> rat \<Rightarrow> jsnum" where
  "num_of E q = (if of_int \<lfloor>q\<rfloor> = q \<and> \<bar>q\<bar> \<le> MAX_SAFE_INTEGER then Fin q else roundNumber E q)"

definition json_unsigned :: "js_env \<Rightarrow> bool \<Rightarrow> string \<Rightarrow> (jsval \<times> string) option" where
  "json_unsigned E neg s =
    (let ds = takeWhile isDigit s in
     if ds = [] \<or> (hd ds = CHR ''0'' \<and> length ds > 1) then None
     else case json_fraction (dropWhile isDigit s) of
       None \<Rightarrow> None
     | Some (fs, s2) \<Rightarrow>
         (case json_exponent s2 of
            None \<Rightarrow> None
          | Some (e, s3) \<Rightarrow>
              let q = scale10 (e - int (length fs)) (of_nat (dec_val (ds @ fs))) in
              Some (JNum (num_of E (if neg then - q else q)), s3)))"

definition json_number :: "js_env \<Rightarrow> string \<Rightarrow> (jsval \<times> string) option" where
  "json_number E s =
    (case s of
       [] \<Rightarrow> None
     | c # cs \<Rightarrow> if c = CHR ''-'' then json_unsigned E True cs else json_unsigned E False s)"

text \<open>What may follow a number without being read as part of it.\<close>

definition ends :: "string \<Rightarrow> bool" where
  "ends rest \<longleftrightarrow> (rest = [] \<or> \<not> isDigit (hd rest) \<and> hd rest \<notin> set ''.eE'')"

lemma digit_char_zero: "n < 10 \<Longrightarrow> digit_char n = CHR ''0'' \<longleftrightarrow> n = 0"
proof -
  have "digit_val CHR ''0'' = 0" by (simp add: digit_val_def)
  moreover assume "n < 10"
  ultimately show ?thesis
    using digit_val_digit_char [of n] digit_val_digit_char [of 0] by (auto simp: digit_char_def char_of_def bit_Suc_0_iff)
qed

lemma nat_str_no_leading_zero: "length (nat_str n) > 1 \<Longrightarrow> hd (nat_str n) \<noteq> CHR ''0''"
proof (induction n rule: nat_str.induct)
  case (1 n)
  show ?case
  proof (cases "n < 10")
    case True
    with "1.prems" show ?thesis by (simp add: nat_str_small)
  next
    case False
    then have hd: "hd (nat_str n) = hd (nat_str (n div 10))" by (simp add: nat_str_large)
    show ?thesis
    proof (cases "n div 10 < 10")
      case True
      moreover have "0 < n div 10" using False by simp
      ultimately show ?thesis
        unfolding hd by (simp add: nat_str_small digit_char_zero)
    next
      case big: False
      then have "length (nat_str (n div 10)) > 1"
        by (simp add: nat_str_large [of "n div 10"])
      with 1(1) [OF False] show ?thesis unfolding hd by blast
    qed
  qed
qed


lemma isDigit_not_mark: "isDigit c \<Longrightarrow> c \<notin> set ''-.eE,:{}[]tfn'' \<and> c \<noteq> json_q \<and> \<not> isWs c"
  by (auto simp: char_classes isWs_def)

lemma digits_span:
  assumes "ends rest"
  shows "takeWhile isDigit (nat_str n @ rest) = nat_str n \<and> dropWhile isDigit (nat_str n @ rest) = rest"
proof -
  have "takeWhile isDigit rest = []" and "dropWhile isDigit rest = rest"
    using assms by (cases rest; simp add: ends_def)+
  then show ?thesis
    using takeWhile_append2 [of "nat_str n" isDigit rest] dropWhile_append2 [of "nat_str n" isDigit rest]
      nat_str_digits [of _ n] by simp
qed

lemma num_of_safe: "isSafeInteger (JNum (Fin q)) \<Longrightarrow> num_of E q = Fin q"
  by (simp add: num_of_def)

lemma json_unsigned_nat_str:
  assumes "ends rest" and "n \<le> 9007199254740991"
  shows "json_unsigned E neg (nat_str n @ rest) = Some (jint (if neg then - int n else int n), rest)"
proof -
  have frac: "json_fraction rest = Some ([], rest)" and ex: "json_exponent rest = Some (0, rest)"
    using assms(1) by (cases rest; simp add: json_fraction_def json_exponent_def ends_def)+
  have ok: "\<not> (hd (nat_str n) = CHR ''0'' \<and> length (nat_str n) > 1)"
    using nat_str_no_leading_zero by blast
  have "isSafeInteger (jint (if neg then - int n else int n))"
    unfolding isSafeInteger_jint using assms(2) by simp
  note num = num_of_safe [OF this, of E]
  with ok show ?thesis
    unfolding json_unsigned_def
    by (cases neg) (simp_all add: digits_span [OF assms(1)] Let_def frac ex scale10_def)
qed

lemma json_number_int_str:
  assumes "ends rest" and "\<bar>n\<bar> \<le> 9007199254740991"
  shows "json_number E (int_str n @ rest) = Some (jint n, rest)"
proof (cases "n < 0")
  case True
  with assms json_unsigned_nat_str [OF assms(1), of "nat (- n)" E True] show ?thesis
    by (simp add: json_number_def int_str_def)
next
  case False
  obtain c cs where c: "nat_str (nat n) = c # cs" by (cases "nat_str (nat n)") auto
  then have "isDigit c" using nat_str_digits [of c "nat n"] by simp
  then have "c \<noteq> CHR ''-''" using isDigit_not_mark by fastforce
  with False assms c json_unsigned_nat_str [OF assms(1), of "nat n" E False] show ?thesis
    by (simp add: json_number_def int_str_def)
qed

section \<open>Values\<close>

text \<open>\<open>item (, item)* close\<close>, after the opening bracket of an array or object that is not empty.\<close>

fun parse_seq :: "nat \<Rightarrow> (string \<Rightarrow> ('a \<times> string) option) \<Rightarrow> char \<Rightarrow> string \<Rightarrow> ('a list \<times> string) option" where
  "parse_seq 0 item close s = None"
| "parse_seq (Suc n) item close s =
    (case item s of
       None \<Rightarrow> None
     | Some (x, r) \<Rightarrow>
         (case skip_ws r of
            [] \<Rightarrow> None
          | c # cs \<Rightarrow>
              if c = CHR '','' then map_option (\<lambda>(xs, r1). (x # xs, r1)) (parse_seq n item close cs)
              else if c = close then Some ([x], cs)
              else None))"

definition parse_items :: "(string \<Rightarrow> ('a \<times> string) option) \<Rightarrow> char \<Rightarrow> string \<Rightarrow> ('a list \<times> string) option" where
  "parse_items item close s =
    (case skip_ws s of
       [] \<Rightarrow> None
     | c # cs \<Rightarrow> if c = close then Some ([], cs) else parse_seq (length s) item close s)"

text \<open>\<open>"name" : value\<close>.\<close>

definition parse_member ::
  "(string \<Rightarrow> (jsval \<times> string) option) \<Rightarrow> string \<Rightarrow> ((string \<times> jsval) \<times> string) option" where
  "parse_member val s =
    (case skip_ws s of
       [] \<Rightarrow> None
     | c # cs \<Rightarrow>
         if c \<noteq> json_q then None
         else case parse_chars cs of
           None \<Rightarrow> None
         | Some (k, r) \<Rightarrow>
             (case skip_ws r of
                [] \<Rightarrow> None
              | d # ds \<Rightarrow> if d = CHR '':'' then map_option (\<lambda>(v, r1). ((k, v), r1)) (val ds) else None))"

text \<open>
  Setting a property of an ordinary object. A property of that name keeps its place; a new one goes
  last, unless its name is an array index, which are enumerated first and in ascending order.
\<close>

definition isIndexKey :: "string \<Rightarrow> bool" where
  "isIndexKey k \<longleftrightarrow> k \<noteq> [] \<and> list_all isDigit k \<and> nat_str (dec_val k) = k \<and> dec_val k < 4294967295"

definition key_before :: "string \<Rightarrow> string \<Rightarrow> bool" where
  "key_before a b \<longleftrightarrow> \<not> isIndexKey b \<or> isIndexKey a \<and> dec_val a < dec_val b"

definition set_prop :: "string \<Rightarrow> jsval \<Rightarrow> (string \<times> jsval) list \<Rightarrow> (string \<times> jsval) list" where
  "set_prop k v kvs =
    (if k \<in> set (map fst kvs) then jm_set k v kvs
     else takeWhile (\<lambda>p. key_before (fst p) k) kvs @ [(k, v)] @ dropWhile (\<lambda>p. key_before (fst p) k) kvs)"

definition obj_of :: "(string \<times> jsval) list \<Rightarrow> jsval" where
  "obj_of kvs = JObj (fold (\<lambda>(k, v). set_prop k v) kvs [])"

text \<open>One value; the fuel bounds how deep arrays and objects are nested.\<close>

primrec parse_value :: "nat \<Rightarrow> js_env \<Rightarrow> string \<Rightarrow> (jsval \<times> string) option" where
  "parse_value 0 E s = None"
| "parse_value (Suc n) E s =
    (case skip_ws s of
       [] \<Rightarrow> None
     | c # cs \<Rightarrow>
         if c = CHR ''{'' then
           map_option (\<lambda>(kvs, r). (obj_of kvs, r)) (parse_items (parse_member (parse_value n E)) CHR ''}'' cs)
         else if c = CHR ''['' then
           map_option (\<lambda>(xs, r). (JArr xs, r)) (parse_items (parse_value n E) CHR '']'' cs)
         else if c = json_q then map_option (\<lambda>(t, r). (JStr t, r)) (parse_chars cs)
         else if prefix ''true'' (c # cs) then Some (JBool True, drop 4 (c # cs))
         else if prefix ''false'' (c # cs) then Some (JBool False, drop 5 (c # cs))
         else if prefix ''null'' (c # cs) then Some (JNull, drop 4 (c # cs))
         else json_number E (c # cs))"

definition json_parse :: "js_env \<Rightarrow> string \<Rightarrow> jsval option" where
  "json_parse E s =
    (case parse_value (Suc (length s)) E s of
       None \<Rightarrow> None
     | Some (v, r) \<Rightarrow> if skip_ws r = [] then Some v else None)"


section \<open>Reading back what is written\<close>

fun json_plain :: "jsval \<Rightarrow> bool" where
  "json_plain JUndef = False"
| "json_plain (JNum n) = isSafeInteger (JNum n)"
| "json_plain (JArr xs) = list_all json_plain xs"
| "json_plain (JObj kvs) =
     (distinct (map fst kvs) \<and> sorted_wrt key_before (map fst kvs) \<and> list_all (\<lambda>p. json_plain (snd p)) kvs)"
| "json_plain _ = True"

definition json_text :: "js_env \<Rightarrow> jsval \<Rightarrow> string" where
  "json_text E v = (case stringify E v of Some t \<Rightarrow> t | None \<Rightarrow> [])"

lemma stringify_plain: "json_plain v \<Longrightarrow> stringify E v = Some (json_text E v)"
  by (cases v) (simp_all add: json_text_def)

lemma json_text_simps:
  "json_text E (JStr s) = json_quote s"
  "json_text E JNull = ''null''"
  "json_text E (JBool b) = (if b then ''true'' else ''false'')"
  "isSafeInteger (JNum n) \<Longrightarrow> json_text E (JNum n) = int_str \<lfloor>ratOf (JNum n)\<rfloor>"
  "list_all json_plain xs \<Longrightarrow> json_text E (JArr xs) = ''['' @ join_with '','' (map (json_text E) xs) @ '']''"
  "list_all (\<lambda>p. json_plain (snd p)) kvs \<Longrightarrow> json_text E (JObj kvs) =
     ''{'' @ join_with '','' (map (\<lambda>p. json_quote (fst p) @ '':'' @ json_text E (snd p)) kvs) @ ''}''"
proof -
  show "json_text E (JNum n) = int_str \<lfloor>ratOf (JNum n)\<rfloor>" if "isSafeInteger (JNum n)"
  proof -
    obtain m where "JNum n = jint m" and "\<bar>m\<bar> \<le> 9007199254740991" using isSafeIntegerE [OF \<open>isSafeInteger (JNum n)\<close>] .
    then show ?thesis using js_String_jint [of m E] by (simp add: json_text_def)
  qed
  show "json_text E (JArr xs) = ''['' @ join_with '','' (map (json_text E) xs) @ '']''"
    if "list_all json_plain xs"
  proof -
    have "map (\<lambda>x. case stringify E x of Some t \<Rightarrow> t | None \<Rightarrow> ''null'') xs = map (json_text E) xs"
      using that by (intro map_cong refl) (simp add: list_all_iff stringify_plain)
    then show ?thesis by (simp only: json_text_def [of E "JArr xs"] stringify.simps option.case)
  qed
  show "json_text E (JObj kvs) =
     ''{'' @ join_with '','' (map (\<lambda>p. json_quote (fst p) @ '':'' @ json_text E (snd p)) kvs) @ ''}''"
    if "list_all (\<lambda>p. json_plain (snd p)) kvs"
  proof -
    have "concat (map (\<lambda>p. case stringify E (snd p) of
        Some t \<Rightarrow> [json_quote (fst p) @ '':'' @ t] | None \<Rightarrow> []) kvs) =
      map (\<lambda>p. json_quote (fst p) @ '':'' @ json_text E (snd p)) kvs"
      using that by (induction kvs) (simp_all add: stringify_plain)
    then show ?thesis by (simp add: json_text_def)
  qed
qed (simp_all add: json_text_def)

lemma skip_ws_head [simp]: "\<not> isWs c \<Longrightarrow> skip_ws (c # cs) = c # cs"
  by (simp add: skip_ws_def)

lemma int_str_head:
  obtains c cs where "int_str n = c # cs" and "isDigit c \<or> c = CHR ''-''"
proof (cases "n < 0")
  case True
  then show thesis using that by (simp add: int_str_def)
next
  case False
  then show thesis
    using that nat_str_digits [of "hd (nat_str (nat n))" "nat n"]
    by (cases "nat_str (nat n)") (auto simp: int_str_def)
qed

text \<open>The first character of a value's text is no white space and closes no bracket.\<close>

definition opens :: "string \<Rightarrow> bool" where
  "opens t \<longleftrightarrow> (\<exists>c cs. t = c # cs \<and> \<not> isWs c \<and> c \<noteq> CHR '']'' \<and> c \<noteq> CHR ''}'')"

lemma json_text_opens: "json_plain v \<Longrightarrow> opens (json_text E v)"
proof (cases v)
  case (JNum n)
  moreover assume "json_plain v"
  moreover obtain c cs where "int_str \<lfloor>ratOf (JNum n)\<rfloor> = c # cs" and "isDigit c \<or> c = CHR ''-''"
    using int_str_head .
  ultimately show ?thesis using isDigit_not_mark [of c] by (auto simp: opens_def json_text_simps isWs_def)
qed (auto simp: opens_def json_text_simps json_quote_def isWs_def)

lemma json_quote_opens: "opens (json_quote s @ t)"
  by (simp add: opens_def json_quote_def isWs_def)

lemma parse_seq_join:
  assumes "list_all2 (\<lambda>x t. \<forall>r. ends r \<longrightarrow> item (t @ r) = Some (x, r)) xs ts" and "xs \<noteq> []" and "length xs \<le> n"
    and "close = CHR '']'' \<or> close = CHR ''}''"
  shows "parse_seq n item close (join_with '','' ts @ close # rest) = Some (xs, rest)"
  using assms(1-3)
proof (induction xs ts arbitrary: n rule: list_all2_induct)
  case (Cons x xs t ts)
  then obtain m where n: "n = Suc m" by (cases n) auto
  have ends: "ends (CHR '','' # r)" "ends (close # r)" for r
    using assms(4) by (auto simp: ends_def char_classes)
  have ws: "\<not> isWs CHR '',''" "\<not> isWs close" and ne: "close \<noteq> CHR '',''"
    using assms(4) by (auto simp: isWs_def)
  show ?case
  proof (cases ts)
    case Nil
    then have "xs = []" using Cons.hyps by simp
    with Nil Cons.hyps(1) n ends ws ne show ?thesis by simp
  next
    case (Cons t' ts')
    then have "xs \<noteq> []" using Cons.hyps by auto
    moreover have "length xs \<le> m" using Cons.prems n by simp
    ultimately have "parse_seq m item close (join_with '','' ts @ close # rest) = Some (xs, rest)"
      by (rule Cons.IH)
    with Cons Cons.hyps(1) n ends ws show ?thesis by simp
  qed
qed simp

lemma length_join: "length ts \<le> Suc (length (join_with '','' ts))"
  by (induction "'',''" ts rule: join_with.induct) simp_all

lemma join_with_opens: "opens t \<Longrightarrow> opens (join_with '','' (t # ts) @ r)"
  by (cases ts) (auto simp: opens_def)

lemma parse_items_join:
  assumes "list_all2 (\<lambda>x t. \<forall>r. ends r \<longrightarrow> item (t @ r) = Some (x, r)) xs ts" and "list_all opens ts"
    and "close = CHR '']'' \<or> close = CHR ''}''"
  shows "parse_items item close (join_with '','' ts @ close # rest) = Some (xs, rest)"
proof (cases ts)
  case Nil
  then have "xs = []" using assms(1) by simp
  moreover have "\<not> isWs close" using assms(3) by (auto simp: isWs_def)
  ultimately show ?thesis using Nil by (simp add: parse_items_def)
next
  case (Cons t ts')
  then have "opens (join_with '','' ts @ close # rest)" using assms(2) join_with_opens by simp
  then obtain c cs where c: "join_with '','' ts @ close # rest = c # cs" "\<not> isWs c" "c \<noteq> close"
    using assms(3) by (auto simp: opens_def)
  have "length xs = length ts" using assms(1) by (rule list_all2_lengthD)
  then have "length xs \<le> length (join_with '','' ts @ close # rest)" and "xs \<noteq> []"
    using length_join [of ts] Cons by auto
  then have "parse_seq (length (join_with '','' ts @ close # rest)) item close (join_with '','' ts @ close # rest)
    = Some (xs, rest)"
    by (intro parse_seq_join [OF assms(1)] assms(3))
  with c show ?thesis by (simp add: parse_items_def)
qed

lemma parse_member_text:
  assumes "\<And>r. ends r \<Longrightarrow> val (t @ r) = Some (v, r)" and "ends rest"
  shows "parse_member val ((json_quote k @ '':'' @ t) @ rest) = Some ((k, v), rest)"
proof -
  have "(json_quote k @ '':'' @ t) @ rest = json_q # concat (map json_char k) @ json_q # CHR '':'' # t @ rest"
    by (simp add: json_quote_def)
  then show ?thesis
    using assms(1) [OF assms(2)] by (simp add: parse_member_def isWs_def)
qed

lemma set_prop_last:
  assumes "k \<notin> set (map fst kvs)" and "\<forall>p \<in> set kvs. key_before (fst p) k"
  shows "set_prop k v kvs = kvs @ [(k, v)]"
  using assms by (simp add: set_prop_def)

lemma obj_of_ordered:
  assumes "distinct (map fst kvs)" and "sorted_wrt key_before (map fst kvs)"
  shows "obj_of kvs = JObj kvs"
proof -
  have "fold (\<lambda>(k, v). set_prop k v) kvs [] = kvs"
    using assms
  proof (induction kvs rule: rev_induct)
    case (snoc p kvs)
    then have "fold (\<lambda>(k, v). set_prop k v) kvs [] = kvs" by (simp add: sorted_wrt_append)
    with snoc.prems show ?case
      by (cases p) (auto simp: sorted_wrt_append intro!: set_prop_last)
  qed simp
  then show ?thesis by (simp add: obj_of_def)
qed

lemma length_join_member: "t \<in> set ts \<Longrightarrow> length t \<le> length (join_with '','' ts)"
  by (induction "'',''" ts rule: join_with.induct) auto

lemma number_head:
  assumes "isDigit c \<or> c = CHR ''-''"
  shows "\<not> isWs c \<and> c \<notin> set ''{[tfn'' \<and> c \<noteq> json_q"
proof (cases "isDigit c")
  case True
  from isDigit_not_mark [OF this] show ?thesis by simp
next
  case False
  with assms have "c = CHR ''-''" by blast
  then show ?thesis by (simp add: isWs_def)
qed

lemma parse_value_text:
  "json_plain v \<Longrightarrow> length (json_text E v) \<le> n \<Longrightarrow> ends rest \<Longrightarrow>
     parse_value n E (json_text E v @ rest) = Some (v, rest)"
proof (induction v arbitrary: n rest)
  case JNull
  then show ?case by (cases n) (simp_all add: json_text_simps isWs_def)
next
  case (JBool b)
  then show ?case by (cases n; cases b) (simp_all add: json_text_simps isWs_def)
next
  case (JNum k)
  then have safe: "isSafeInteger (JNum k)" by simp
  then obtain m where m: "JNum k = jint m" "\<bar>m\<bar> \<le> 9007199254740991" by (rule isSafeIntegerE)
  then have tx: "json_text E (JNum k) = int_str m" using safe by (simp add: json_text_simps)
  obtain c cs where c: "int_str m = c # cs" "isDigit c \<or> c = CHR ''-''" by (rule int_str_head)
  have "\<not> isWs c" and "c \<noteq> CHR ''{''" "c \<noteq> CHR ''[''" "c \<noteq> json_q" "c \<noteq> CHR ''t''" "c \<noteq> CHR ''f''" "c \<noteq> CHR ''n''"
    using number_head [OF c(2)] by simp_all
  moreover have "json_number E (c # cs @ rest) = Some (jint m, rest)"
    using json_number_int_str [OF JNum.prems(3) m(2), of E] c(1) by simp
  moreover obtain n' where "n = Suc n'" using JNum.prems(2) tx c(1) by (cases n) auto
  ultimately show ?case unfolding tx unfolding m(1) by (simp add: c(1))
next
  case (JStr s)
  then obtain m where "n = Suc m" by (cases n) (auto simp: json_text_simps json_quote_def)
  then show ?case by (simp add: json_text_simps json_quote_def isWs_def)
next
  case (JArr xs)
  then have pl: "list_all json_plain xs" by simp
  note tx = json_text_simps(5) [OF pl, of E]
  obtain m where n: "n = Suc m" using JArr.prems(2) tx by (cases n) auto
  have "list_all2 (\<lambda>x t. \<forall>r. ends r \<longrightarrow> parse_value m E (t @ r) = Some (x, r)) xs (map (json_text E) xs)"
  proof (unfold list_all2_map2, intro list.rel_refl_strong allI impI)
    fix x r assume x: "x \<in> set xs" and r: "ends r"
    have "length (json_text E x) \<le> length (join_with '','' (map (json_text E) xs))"
      using x by (intro length_join_member) simp
    then have "length (json_text E x) \<le> m" using JArr.prems(2) n tx by simp
    moreover have "json_plain x" using pl x by (simp add: list_all_iff)
    ultimately show "parse_value m E (json_text E x @ r) = Some (x, r)" by (intro JArr.IH x r)
  qed
  moreover have "list_all opens (map (json_text E) xs)"
    using pl by (simp add: list_all_iff json_text_opens)
  ultimately show ?case unfolding tx n by (simp add: isWs_def parse_items_join)
next
  case (JObj kvs)
  then have pl: "list_all (\<lambda>p. json_plain (snd p)) kvs" by simp
  let ?t = "\<lambda>p. json_quote (fst p) @ '':'' @ json_text E (snd p)"
  note tx = json_text_simps(6) [OF pl, of E]
  obtain m where n: "n = Suc m" using JObj.prems(2) tx by (cases n) auto
  have "list_all2 (\<lambda>x t. \<forall>r. ends r \<longrightarrow> parse_member (parse_value m E) (t @ r) = Some (x, r)) kvs (map ?t kvs)"
  proof (unfold list_all2_map2, intro list.rel_refl_strong allI impI)
    fix p r assume p: "p \<in> set kvs" and r: "ends r"
    have "length (?t p) \<le> length (join_with '','' (map ?t kvs))"
      using p by (intro length_join_member) simp
    then have "length (json_text E (snd p)) \<le> m" using JObj.prems(2) n tx by simp
    moreover have "json_plain (snd p)" using pl p by (simp add: list_all_iff)
    ultimately have "parse_value m E (json_text E (snd p) @ r') = Some (snd p, r')" if "ends r'" for r'
      using that by (intro JObj.IH [OF p]) (auto simp: snds.simps)
    from parse_member_text [OF this r, of "fst p"]
    show "parse_member (parse_value m E) (?t p @ r) = Some (p, r)" by simp
  qed
  moreover have "list_all opens (map ?t kvs)" by (simp add: list_all_iff json_quote_opens)
  ultimately show ?case
    using obj_of_ordered [of kvs] JObj.prems(1) unfolding tx n by (simp add: isWs_def parse_items_join)
qed simp_all

theorem json_roundtrip: "json_plain v \<Longrightarrow> json_parse E (json_text E v) = Some v"
  using parse_value_text [of v E "Suc (length (json_text E v))" "[]"]
  by (simp add: json_parse_def ends_def skip_ws_def)



section \<open>The fuel suffices\<close>

text \<open>Every parser leaves less text than it was given, so the length of the text bounds both the nesting
  and the number of items: more fuel than that gives the same result.\<close>

definition consumes :: "(string \<Rightarrow> ('a \<times> string) option) \<Rightarrow> bool" where
  "consumes item \<longleftrightarrow> (\<forall>s x r. item s = Some (x, r) \<longrightarrow> length r < length s)"

lemma skip_ws_length: "length (skip_ws s) \<le> length s"
  by (simp add: skip_ws_def length_dropWhile_le)

lemma skip_ws_Cons: "skip_ws s = c # cs \<Longrightarrow> length cs < length s"
  using skip_ws_length [of s] by simp

lemma parse_seq_consumes: "consumes item \<Longrightarrow> consumes (parse_seq n item close)"
proof (induction n)
  case (Suc n)
  then have IH: "parse_seq n item close s = Some (xs, r) \<Longrightarrow> length r < length s" for s xs r
    by (simp add: consumes_def)
  have "length r < length s" if "parse_seq (Suc n) item close s = Some (xs, r)" for s xs r
  proof -
    from that obtain x r1 c cs where x: "item s = Some (x, r1)" and c: "skip_ws r1 = c # cs"
      and rest: "cs = r \<or> (\<exists>ys. parse_seq n item close cs = Some (ys, r))"
      by (auto split: option.splits list.splits if_splits)
    have "length cs < length s"
      using x Suc.prems skip_ws_Cons [OF c] by (fastforce simp: consumes_def)
    then show ?thesis using rest IH [of cs _ r] by auto
  qed
  then show ?case by (simp add: consumes_def)
qed (simp add: consumes_def)

lemma parse_items_consumes:
  assumes "consumes item" and "parse_items item close s = Some (xs, r)"
  shows "length r < length s"
proof -
  obtain c cs where c: "skip_ws s = c # cs" using assms(2) by (auto simp: parse_items_def split: list.splits)
  show ?thesis
    using assms parse_seq_consumes [OF assms(1), of "length s" close] skip_ws_Cons [OF c] c
    by (auto simp: parse_items_def consumes_def split: if_splits)
qed

lemma parse_member_consumes:
  assumes "consumes val"
  shows "consumes (parse_member val)"
  unfolding consumes_def
proof (intro allI impI)
  fix s x r assume "parse_member val s = Some (x, r)"
  then obtain cs k r1 ds v where "skip_ws s = json_q # cs" "parse_chars cs = Some (k, r1)"
    "skip_ws r1 = CHR '':'' # ds" "val ds = Some (v, r)"
    by (auto simp: parse_member_def split: list.splits option.splits if_splits)
  then show "length r < length s"
    using assms skip_ws_Cons [of s] skip_ws_Cons [of r1] parse_chars_shorter [of cs] by (fastforce simp: consumes_def)
qed

lemma json_fraction_length: "json_fraction s = Some (fs, r) \<Longrightarrow> length r \<le> length s"
  by (auto simp: json_fraction_def Let_def length_dropWhile_le le_SucI split: list.splits if_splits)

lemma json_exponent_length: "json_exponent s = Some (e, r) \<Longrightarrow> length r \<le> length s"
  by (auto simp: json_exponent_def Let_def split_def length_dropWhile_le le_SucI split: list.splits if_splits)

lemma json_unsigned_shorter: "json_unsigned E neg s = Some (v, r) \<Longrightarrow> length r < length s"
proof -
  assume "json_unsigned E neg s = Some (v, r)"
  then obtain fs s2 e where ne: "takeWhile isDigit s \<noteq> []" and f: "json_fraction (dropWhile isDigit s) = Some (fs, s2)"
    and x: "json_exponent s2 = Some (e, r)"
    by (auto simp: json_unsigned_def Let_def split: if_splits option.splits)
  have "length (takeWhile isDigit s) + length (dropWhile isDigit s) = length s"
    by (metis length_append takeWhile_dropWhile_id)
  then show ?thesis using ne json_fraction_length [OF f] json_exponent_length [OF x] by (cases "takeWhile isDigit s") auto
qed

lemma json_number_shorter: "json_number E s = Some (v, r) \<Longrightarrow> length r < length s"
  by (cases s) (auto simp: json_number_def dest: json_unsigned_shorter split: if_splits)

lemma parse_value_consumes: "consumes (parse_value n E)"
proof (induction n)
  case (Suc n)
  show ?case
    unfolding consumes_def
  proof (intro allI impI)
    fix s v r assume v: "parse_value (Suc n) E s = Some (v, r)"
    then obtain c cs where c: "skip_ws s = c # cs" by (auto split: list.splits)
    have items: "length r < length (c # cs)"
      if "map_option (\<lambda>(xs, r). (f xs, r)) (parse_items item close cs) = Some (v, r)" and "consumes item"
      for f :: "'a list \<Rightarrow> jsval" and item close
      using that parse_items_consumes [OF that(2), of close cs] by (auto dest: less_SucI)
    consider (obj) "c = CHR ''{''" | (arr) "c = CHR ''[''" | (str) "c = json_q"
      | (lit) "r = drop 4 (c # cs) \<or> r = drop 5 (c # cs)" | (num) "json_number E (c # cs) = Some (v, r)"
      using v c by (auto split: if_splits)
    then have "length r < length (c # cs)"
    proof cases
      case obj
      with v c have "map_option (\<lambda>(kvs, r). (obj_of kvs, r)) (parse_items (parse_member (parse_value n E)) CHR ''}'' cs) = Some (v, r)"
        by simp
      from items [OF this parse_member_consumes [OF Suc.IH]] show ?thesis .
    next
      case arr
      with v c have "map_option (\<lambda>(xs, r). (JArr xs, r)) (parse_items (parse_value n E) CHR '']'' cs) = Some (v, r)"
        by simp
      from items [OF this Suc.IH] show ?thesis .
    next
      case str
      with v c show ?thesis by (auto dest!: parse_chars_shorter)
    next
      case lit
      then show ?thesis by auto
    next
      case num
      then show ?thesis by (rule json_number_shorter)
    qed
    then show "length r < length s" using skip_ws_length [of s] c by simp
  qed
qed (simp add: consumes_def)

lemma parse_seq_cong:
  assumes "consumes item" and "\<And>u. length u \<le> length s \<Longrightarrow> item' u = item u"
  shows "parse_seq n item' close s = parse_seq n item close s"
  using assms(2)
proof (induction n arbitrary: s)
  case (Suc n)
  have "parse_seq n item' close cs = parse_seq n item close cs"
    if "item s = Some (x, r)" and "skip_ws r = c # cs" for x r c cs
  proof (rule Suc.IH)
    have "length r < length s" using assms(1) that(1) by (simp add: consumes_def)
    then have "length cs < length s" using skip_ws_Cons [OF that(2)] by simp
    then show "item' u = item u" if "length u \<le> length cs" for u using that by (intro Suc.prems) simp
  qed
  then show ?case using Suc.prems [of s] by (simp split: option.split list.split)
qed simp

lemma parse_items_cong:
  assumes "consumes item" and "\<And>u. length u \<le> length s \<Longrightarrow> item' u = item u"
  shows "parse_items item' close s = parse_items item close s"
  unfolding parse_items_def by (simp only: parse_seq_cong [OF assms])

lemma parse_member_cong:
  assumes "\<And>u. length u \<le> length s \<Longrightarrow> val' u = val u"
  shows "parse_member val' s = parse_member val s"
proof -
  have "val' ds = val ds" if "skip_ws s = c # cs" "parse_chars cs = Some (k, r)" "skip_ws r = d # ds" for c cs k r d ds
    using that skip_ws_Cons [of s] skip_ws_Cons [of r] parse_chars_shorter [of cs] by (intro assms) fastforce
  then show ?thesis by (simp add: parse_member_def split: list.split option.split)
qed

lemma parse_value_more: "length s \<le> n \<Longrightarrow> parse_value (Suc n) E s = parse_value n E s"
proof (induction n arbitrary: s)
  case 0
  then show ?case by (simp add: skip_ws_def)
next
  case (Suc n)
  show ?case
  proof (cases "skip_ws s")
    case (Cons c cs)
    then have small: "length cs \<le> n" using skip_ws_Cons Suc.prems by fastforce
    have val: "parse_value (Suc n) E u = parse_value n E u" if "length u \<le> length cs" for u
      using that small by (intro Suc.IH) simp
    have "parse_items (parse_value (Suc n) E) CHR '']'' cs = parse_items (parse_value n E) CHR '']'' cs"
      by (rule parse_items_cong [OF parse_value_consumes val])
    moreover have "parse_items (parse_member (parse_value (Suc n) E)) CHR ''}'' cs =
      parse_items (parse_member (parse_value n E)) CHR ''}'' cs"
      by (rule parse_items_cong [OF parse_member_consumes [OF parse_value_consumes] parse_member_cong])
        (rule val, simp)
    ultimately show ?thesis
      unfolding parse_value.simps(2) [of "Suc n"] parse_value.simps(2) [of n]
      unfolding Cons by (simp only: list.case)
  qed simp
qed

lemma parse_value_fuel: "length s \<le> n \<Longrightarrow> parse_value n E s = parse_value (length s) E s"
proof (induction n rule: dec_induct)
  case (step n)
  then show ?case using parse_value_more [of s n E] by simp
qed simp

lemma parse_seq_fuel:
  assumes "consumes item"
  shows "length s \<le> n \<Longrightarrow> parse_seq (Suc n) item close s = parse_seq n item close s"
proof (induction n arbitrary: s)
  case 0
  then have "item s = None" using assms by (cases "item s") (fastforce simp: consumes_def)+
  then show ?case by simp
next
  case (Suc n)
  have "parse_seq (Suc n) item close cs = parse_seq n item close cs"
    if "item s = Some (x, r)" and "skip_ws r = c # cs" for x r c cs
  proof (rule Suc.IH)
    have "length r < length s" using assms that(1) by (simp add: consumes_def)
    then show "length cs \<le> n" using skip_ws_Cons [OF that(2)] Suc.prems by simp
  qed
  then show ?case
    unfolding parse_seq.simps(2) [of "Suc n"] parse_seq.simps(2) [of n] by (auto split: option.split list.split)
qed

end
