(* ===== verification/Wire.thy ===== *)
theory Wire
  imports Base64
begin

text \<open>
  \<^verbatim>\<open>web/src/lib/wire.ts\<close>, without its cryptography: hybrid-logical-clock stamps and their order, row
  names, disbelief of stamps from the future, the newest stamp of a row, and base64url. A row's
  members that the code only carries along are kept in one field. den-core's policy functions
  (\<open>syncPolicy\<close>) are parameters.
\<close>

section \<open>Stamps\<close>

type_synonym stamp = "int \<times> int \<times> string"

definition ZERO_STAMP :: stamp where
  "ZERO_STAMP = (0, 0, [])"

fun compareStamps :: "stamp \<Rightarrow> stamp \<Rightarrow> int" where
  "compareStamps (a0, a1, a2) (b0, b1, b2) =
    (if a0 - b0 \<noteq> 0 then a0 - b0
     else if a1 - b1 \<noteq> 0 then a1 - b1
     else if a2 < b2 then - 1 else if a2 > b2 then 1 else 0)"

text \<open>What a three-way comparison owes the code that sorts, merges and reduces with it.\<close>

locale comparator =
  fixes cmp :: "'a \<Rightarrow> 'a \<Rightarrow> int"
  assumes cmp_eq: "cmp a b = 0 \<longleftrightarrow> a = b"
    and cmp_anti: "cmp a b < 0 \<longleftrightarrow> 0 < cmp b a"
    and cmp_trans: "0 < cmp a b \<Longrightarrow> 0 < cmp b c \<Longrightarrow> 0 < cmp a c"
begin

lemma cmp_refl [simp]: "cmp a a = 0"
  by (simp add: cmp_eq)

lemma not_later: "\<not> 0 < cmp a b \<longleftrightarrow> a = b \<or> 0 < cmp b a"
  using cmp_eq [of a b] cmp_anti [of a b] cmp_anti [of b a] by auto

lemma not_later_trans: "\<not> 0 < cmp a b \<Longrightarrow> \<not> 0 < cmp b c \<Longrightarrow> \<not> 0 < cmp a c"
  using not_later [of a b] not_later [of b c] cmp_trans [of c b a] cmp_anti [of a c] by auto

lemma later_trans: "0 < cmp c b \<Longrightarrow> \<not> 0 < cmp a b \<Longrightarrow> 0 < cmp c a"
  using not_later [of a b] cmp_trans [of c b a] by auto

lemma later_not: "0 < cmp a b \<Longrightarrow> \<not> 0 < cmp b a"
  using cmp_anti [of b a] by simp

text \<open>\<open>xs.reduce((a, b) => (cmp(b, a) > 0 ? b : a), z)\<close>.\<close>

definition latest :: "'a \<Rightarrow> 'a list \<Rightarrow> 'a" where
  "latest z xs = foldl (\<lambda>a b. if 0 < cmp b a then b else a) z xs"

lemma latest_simps [simp]: "latest z [] = z" "latest z (x # xs) = latest (if 0 < cmp x z then x else z) xs"
  by (simp_all add: latest_def)

lemma latest_in: "latest z xs \<in> insert z (set xs)"
proof (induction xs arbitrary: z)
  case (Cons x xs)
  show ?case using Cons.IH [of x] Cons.IH [of z] by auto
qed simp

lemma latest_ge: "\<not> 0 < cmp z (latest z xs)"
proof (induction xs arbitrary: z)
  case (Cons x xs)
  show ?case
  proof (cases "0 < cmp x z")
    case True
    have "\<not> 0 < cmp z (latest x xs)"
    proof
      assume "0 < cmp z (latest x xs)"
      with True have "0 < cmp x (latest x xs)" by (rule cmp_trans)
      with Cons.IH show False by blast
    qed
    with True show ?thesis by simp
  qed (use Cons.IH in simp)
qed simp

lemma latest_max: "x \<in> set xs \<Longrightarrow> \<not> 0 < cmp x (latest z xs)"
proof (induction xs arbitrary: z)
  case (Cons y ys)
  show ?case
  proof (cases "x \<in> set ys")
    case False
    let ?n = "if 0 < cmp y z then y else z"
    have yn: "y = ?n \<or> 0 < cmp ?n y" using not_later [of y z] by auto
    have "\<not> 0 < cmp y (latest ?n ys)"
    proof
      assume "0 < cmp y (latest ?n ys)"
      with yn have "0 < cmp ?n (latest ?n ys)"
        by (elim disjE) (simp, rule cmp_trans)
      with latest_ge show False by blast
    qed
    with False Cons.prems show ?thesis by simp
  qed (use Cons.IH in simp)
qed simp

end

lemma compareStamps_pos:
  "0 < compareStamps (a0, a1, a2) (b0, b1, b2) \<longleftrightarrow>
     b0 < a0 \<or> b0 = a0 \<and> (b1 < a1 \<or> b1 = a1 \<and> b2 < a2)"
  by auto

lemma compareStamps_neg:
  "compareStamps (a0, a1, a2) (b0, b1, b2) < 0 \<longleftrightarrow>
     a0 < b0 \<or> a0 = b0 \<and> (a1 < b1 \<or> a1 = b1 \<and> a2 < b2)"
  by auto

lemma compareStamps_zero: "compareStamps (a0, a1, a2) (b0, b1, b2) = 0 \<longleftrightarrow> a0 = b0 \<and> a1 = b1 \<and> a2 = b2"
  by auto

interpretation stamps: comparator compareStamps
proof unfold_locales
  fix a b c :: stamp
  obtain a0 a1 a2 b0 b1 b2 c0 c1 c2 where abc: "a = (a0, a1, a2)" "b = (b0, b1, b2)" "c = (c0, c1, c2)"
    by (metis prod_cases3)
  show "compareStamps a b = 0 \<longleftrightarrow> a = b"
    unfolding abc compareStamps_zero by simp
  show "compareStamps a b < 0 \<longleftrightarrow> 0 < compareStamps b a"
    unfolding abc compareStamps_neg compareStamps_pos by blast
  show "0 < compareStamps a b \<Longrightarrow> 0 < compareStamps b c \<Longrightarrow> 0 < compareStamps a c"
    unfolding abc compareStamps_pos by (elim disjE conjE; use less_trans [of c2 b2 a2] in simp)
qed

section \<open>Rows\<close>

text \<open>A \<open>Stamped\<close> value, or a \<open>Progress\<close>: its stamp and its other members.\<close>

record stamped =
  members :: jsval
  at_stamp :: stamp

record title_row =
  tr_type :: string
  tr_id :: int
  tr_status :: stamped
  tr_resume :: stamped
  tr_reaction :: stamped
  tr_deleted :: stamped
  tr_dismissed :: stamped
  tr_episodesReset :: "stamp option"
  tr_rest :: jsval

record episode_row =
  er_type :: string
  er_id :: int
  er_season :: int
  er_episode :: int
  er_progress :: stamped
  er_rest :: jsval

record settings_row =
  sr_name :: string
  sr_values :: "(string \<times> stamped) list"
  sr_rest :: jsval

datatype row = RecRow title_row | EpRow episode_row | SetRow settings_row | DocRow jsval

fun isDocument :: "row \<Rightarrow> bool" where
  "isDocument (DocRow d) = True"
| "isDocument _ = False"

definition safeCount :: "jsval \<Rightarrow> bool" where
  "safeCount v \<longleftrightarrow> isSafeInteger v \<and> num_ge v 0"

definition documentName :: "js_env \<Rightarrow> jsval \<Rightarrow> string option" where
  "documentName E row =
    (let type = fld (fld row ''title'') ''type''; id = fld (fld row ''title'') ''id'';
         season = fld row ''season''; kind = fld row ''kind'' in
     if type \<noteq> JStr ''movie'' \<and> type \<noteq> JStr ''tv'' \<or> \<not> safeCount id \<or> id = jint 0 then None
     else if kind = JStr ''title'' then Some (''title:'' @ js_String E type @ '':'' @ js_String E id)
     else if season \<noteq> JUndef \<and> (\<not> safeCount season \<or> type \<noteq> JStr ''tv'') then None
     else let coordinate =
            (if season = JUndef then js_String E type @ '':'' @ js_String E id
             else js_String E type @ '':'' @ js_String E id @ '':'' @ js_String E season) in
     if kind = JStr ''season'' then (if season = JUndef then None else Some (''season:'' @ coordinate))
     else case (fld row ''provider'', fld row ''account'') of
         (JStr provider, JStr account) \<Rightarrow>
           if provider = [] \<or> strIncludes provider '':'' then None
           else if account = [] \<or> \<not> list_all isBase64url account then None
           else Some (''dlv:'' @ provider @ '':'' @ account @ '':'' @ coordinate)
       | _ \<Rightarrow> None)"

text \<open>\<open>doc_name\<close> is den-core's.\<close>

fun rowName :: "js_env \<Rightarrow> (jsval \<Rightarrow> string) \<Rightarrow> row \<Rightarrow> string" where
  "rowName E doc_name (DocRow d) = (case documentName E d of Some n \<Rightarrow> n | None \<Rightarrow> doc_name d)"
| "rowName E doc_name (SetRow r) = ''set:'' @ sr_name r"
| "rowName E doc_name (RecRow r) = ''rec:'' @ tr_type r @ '':'' @ int_str (tr_id r)"
| "rowName E doc_name (EpRow r) =
     ''ep:'' @ er_type r @ '':'' @ int_str (er_id r) @ '':'' @ int_str (er_season r) @ '':'' @
     int_str (er_episode r)"

fun wellFormed :: "row \<Rightarrow> bool" where
  "wellFormed (EpRow r) \<longleftrightarrow> er_type r = ''tv''"
| "wellFormed _ \<longleftrightarrow> True"

section \<open>Belief and the newest stamp\<close>

definition FUTURE_TOLERANCE_MS :: int where
  "FUTURE_TOLERANCE_MS = 24 * 60 * 60 * 1000"

definition fix_stamp :: "int \<Rightarrow> stamp \<Rightarrow> stamp" where
  "fix_stamp now s = (if fst s > now + FUTURE_TOLERANCE_MS then ZERO_STAMP else s)"

definition fixed :: "int \<Rightarrow> stamped \<Rightarrow> stamped" where
  "fixed now s = s\<lparr> at_stamp := fix_stamp now (at_stamp s) \<rparr>"

fun believe :: "int \<Rightarrow> row \<Rightarrow> row" where
  "believe now (DocRow d) = DocRow d"
| "believe now (EpRow r) = EpRow (r\<lparr> er_progress := fixed now (er_progress r) \<rparr>)"
| "believe now (SetRow r) = SetRow (r\<lparr> sr_values := map (\<lambda>(k, v). (k, fixed now v)) (sr_values r) \<rparr>)"
| "believe now (RecRow r) = RecRow (r\<lparr> tr_status := fixed now (tr_status r),
     tr_resume := fixed now (tr_resume r), tr_reaction := fixed now (tr_reaction r),
     tr_deleted := fixed now (tr_deleted r), tr_dismissed := fixed now (tr_dismissed r),
     tr_episodesReset := map_option (fix_stamp now) (tr_episodesReset r) \<rparr>)"

text \<open>The stamps \<open>newestSummary\<close> compares in a row that is not a document.\<close>

fun row_stamps :: "row \<Rightarrow> stamp list" where
  "row_stamps (EpRow r) = [at_stamp (er_progress r)]"
| "row_stamps (SetRow r) = map (\<lambda>(_, v). at_stamp v) (sr_values r)"
| "row_stamps (RecRow r) =
     [at_stamp (tr_status r), at_stamp (tr_resume r), at_stamp (tr_reaction r),
      at_stamp (tr_deleted r), at_stamp (tr_dismissed r),
      case tr_episodesReset r of Some s \<Rightarrow> s | None \<Rightarrow> ZERO_STAMP]"
| "row_stamps (DocRow d) = []"

text \<open>\<open>Number.isInteger\<close>, and the test of \<open>documentNewest\<close> that an array is a stamp.\<close>

fun isIntegral :: "jsval \<Rightarrow> bool" where
  "isIntegral (JNum (Fin r)) = (of_int \<lfloor>r\<rfloor> = r)"
| "isIntegral _ = False"

fun as_stamp :: "jsval \<Rightarrow> stamp option" where
  "as_stamp (JArr [t, c, JStr d]) =
     (if isIntegral t \<and> isIntegral c then Some (\<lfloor>ratOf t\<rfloor>, \<lfloor>ratOf c\<rfloor>, d) else None)"
| "as_stamp _ = None"

text \<open>The two variables \<open>latest\<close> and \<open>reconsiderAt\<close> of \<open>documentNewest\<close>, and a stamp's effect on them.\<close>

definition visit_stamp :: "int \<Rightarrow> stamp \<Rightarrow> stamp \<times> int option \<Rightarrow> stamp \<times> int option" where
  "visit_stamp now s acc =
    (case acc of (newest_so_far, reconsiderAt) \<Rightarrow>
       if fst s \<le> now + FUTURE_TOLERANCE_MS
       then (if 0 < compareStamps s newest_so_far then s else newest_so_far, reconsiderAt)
       else let believableAt = fst s - FUTURE_TOLERANCE_MS in
         (newest_so_far,
          Some (min (case reconsiderAt of Some r \<Rightarrow> r | None \<Rightarrow> believableAt) believableAt)))"

text \<open>The stamps the inner function \<open>visit\<close> comes to, in its order: an array that is a stamp is not
  descended into.\<close>

fun doc_stamps :: "jsval \<Rightarrow> stamp list" where
  "doc_stamps (JArr xs) =
     (case as_stamp (JArr xs) of Some s \<Rightarrow> [s] | None \<Rightarrow> concat (map doc_stamps xs))"
| "doc_stamps (JObj kvs) = concat (map (\<lambda>p. doc_stamps (snd p)) kvs)"
| "doc_stamps _ = []"

definition documentNewest :: "int \<Rightarrow> jsval \<Rightarrow> stamp \<times> int option" where
  "documentNewest now document = fold (visit_stamp now) (doc_stamps document) (ZERO_STAMP, None)"

fun newestSummary :: "int \<Rightarrow> row \<Rightarrow> stamp \<times> int option" where
  "newestSummary now (DocRow d) = documentNewest now d"
| "newestSummary now row =
     (foldl (\<lambda>a b. if 0 < compareStamps b a then b else a) ZERO_STAMP (row_stamps row), None)"

section \<open>base64url\<close>

text \<open>The loop that builds the binary string in slices of \<open>0x8000\<close> bytes. A byte array is its string
  of code units.\<close>

function binary_slices :: "string \<Rightarrow> string" where
  "binary_slices bytes =
     (if bytes = [] then [] else take 32768 bytes @ binary_slices (drop 32768 bytes))"
  by auto
termination by (relation "measure length") auto

declare binary_slices.simps [simp del]

definition replaceAll :: "char \<Rightarrow> char \<Rightarrow> string \<Rightarrow> string" where
  "replaceAll a b s = map (\<lambda>c. if c = a then b else c) s"

definition toBase64url :: "string \<Rightarrow> string" where
  "toBase64url bytes =
    (let t = replaceAll CHR ''/'' CHR ''_'' (replaceAll CHR ''+'' CHR ''-'' (btoa (binary_slices bytes)))
     in rev (dropWhile (\<lambda>c. c = CHR ''='') (rev t)))"

definition fromBase64url :: "string \<Rightarrow> string option" where
  "fromBase64url s = atob (replaceAll CHR ''_'' CHR ''/'' (replaceAll CHR ''-'' CHR ''+'' s))"

section \<open>Properties\<close>

lemma binary_slices_id [simp]: "binary_slices bytes = bytes"
proof (induction bytes rule: binary_slices.induct)
  case (1 bytes)
  then show ?case by (subst binary_slices.simps) auto
qed

lemma dropWhile_replicate: "P x \<Longrightarrow> dropWhile P (replicate n x @ xs) = dropWhile P xs"
  by (induction n) auto

text \<open>The alphabet with its two characters replaced, and back.\<close>

definition url_char :: "nat \<Rightarrow> char" where
  "url_char n = hd (replaceAll CHR ''/'' CHR ''_'' (replaceAll CHR ''+'' CHR ''-'' [b64_char n]))"

definition url_char_ok :: "nat \<Rightarrow> bool" where
  "url_char_ok n \<longleftrightarrow>
     replaceAll CHR ''_'' CHR ''/'' (replaceAll CHR ''-'' CHR ''+'' [url_char n]) = [b64_char n] \<and>
     isBase64url (url_char n) \<and> url_char n \<noteq> CHR ''=''"

lemma url_char_ok: "n < 64 \<Longrightarrow> url_char_ok n"
proof -
  have "list_all url_char_ok [0..<64]" by code_simp
  then show "n < 64 \<Longrightarrow> url_char_ok n" by (simp add: list_all_iff)
qed

lemma replaceAll_map:
  "replaceAll c d (replaceAll a b (map f xs)) = map (\<lambda>x. hd (replaceAll c d (replaceAll a b [f x]))) xs"
  by (simp add: replaceAll_def)

lemma replaceAll_append: "replaceAll a b (xs @ ys) = replaceAll a b xs @ replaceAll a b ys"
  by (simp add: replaceAll_def)

lemma replaceAll_replicate: "x \<noteq> a \<Longrightarrow> replaceAll a b (replicate n x) = replicate n x"
  by (simp add: replaceAll_def)

lemma sextets_of_string: "x \<in> set (sextets (map of_char (s::string))) \<Longrightarrow> x < 64"
  using sextets_bound [of "map of_char s"] by auto

lemma toBase64url_url_char: "toBase64url bytes = map url_char (sextets (map of_char bytes))"
proof -
  let ?x = "sextets (map of_char bytes :: nat list)"
  have "rev (map url_char ?x) = [] \<or> hd (rev (map url_char ?x)) \<noteq> CHR ''=''"
  proof (cases "rev ?x")
    case (Cons n ns)
    then have "n < 64" using sextets_of_string [of n bytes] by (metis list.set_intros(1) set_rev)
    then have "url_char n \<noteq> CHR ''=''" using url_char_ok by (simp add: url_char_ok_def)
    then show ?thesis using Cons by (simp add: rev_map)
  qed (simp add: rev_map)
  then have "dropWhile (\<lambda>c. c = CHR ''='') (rev (map url_char ?x)) = rev (map url_char ?x)"
    by (cases "rev (map url_char ?x)") auto
  then show ?thesis
    by (simp add: toBase64url_def btoa_def Let_def replaceAll_append replaceAll_replicate replaceAll_map
        url_char_def [abs_def, symmetric] dropWhile_replicate)
qed

text \<open>C38: Sealed values survive their text form: reading base64url back gives exactly the bytes that
  were written, for every byte string of any length, and the text uses only the characters a URL and
  a row key may hold.\<close>

theorem base64url_roundtrip:
  "fromBase64url (toBase64url bytes) = Some bytes \<and> list_all isBase64url (toBase64url bytes)"
proof -
  let ?x = "sextets (map of_char bytes :: nat list)"
  have ok: "url_char_ok n" if "n \<in> set ?x" for n
    by (rule url_char_ok [OF sextets_of_string [OF that]])
  have "replaceAll CHR ''_'' CHR ''/'' (replaceAll CHR ''-'' CHR ''+'' (map url_char ?x)) = map b64_char ?x"
    unfolding replaceAll_map using ok by (simp add: url_char_ok_def)
  then have "fromBase64url (toBase64url bytes) = atob (map b64_char ?x)"
    by (simp only: fromBase64url_def toBase64url_url_char)
  moreover have "list_all isBase64url (map url_char ?x)"
    using ok by (simp add: list_all_iff url_char_ok_def)
  ultimately show ?thesis by (simp add: atob_unpadded toBase64url_url_char)
qed

text \<open>C40: \<open>compareStamps\<close> is a strict total order on stamps, and zero only on equal ones, so every
  client that sorts or merges by it agrees.\<close>

theorem compareStamps_total_order:
  "(compareStamps a b = 0 \<longleftrightarrow> a = b) \<and> (compareStamps a b < 0 \<longleftrightarrow> compareStamps b a > 0) \<and>
   (compareStamps a b > 0 \<and> compareStamps b c > 0 \<longrightarrow> compareStamps a c > 0) \<and>
   (a = b \<or> compareStamps a b > 0 \<or> compareStamps b a > 0)"
  using stamps.cmp_eq stamps.cmp_anti stamps.cmp_trans [of a b c] stamps.not_later [of a b] by blast

theorem compareStamps_total_order_witness:
  "compareStamps (2, 0, ''a'') (1, 9, ''b'') > 0 \<and> compareStamps (1, 9, ''b'') (1, 9, ''a'') > 0 \<and>
   compareStamps (2, 0, ''a'') (1, 9, ''a'') > 0"
  using compareStamps_total_order [of "(2, 0, ''a'')" "(1, 9, ''b'')" "(1, 9, ''a'')"]
  by (simp add: less_char_def)

lemma fix_stamp_idem [simp]: "0 \<le> now \<Longrightarrow> fix_stamp now (fix_stamp now s) = fix_stamp now s"
  by (simp add: fix_stamp_def ZERO_STAMP_def FUTURE_TOLERANCE_MS_def)

lemma fix_stamp_bound: "0 \<le> now \<Longrightarrow> fst (fix_stamp now s) \<le> now + FUTURE_TOLERANCE_MS"
  by (simp add: fix_stamp_def ZERO_STAMP_def FUTURE_TOLERANCE_MS_def)

lemma fixed_idem [simp]: "0 \<le> now \<Longrightarrow> fixed now (fixed now s) = fixed now s"
  by (simp add: fixed_def)

lemma at_fixed [simp]: "at_stamp (fixed now s) = fix_stamp now (at_stamp s)"
  by (simp add: fixed_def)

lemma row_stamps_believe: "0 \<le> now \<Longrightarrow> row_stamps (believe now r) = map (fix_stamp now) (row_stamps r)"
proof (cases r)
  case (RecRow t)
  assume "0 \<le> now"
  then have "fix_stamp now ZERO_STAMP = ZERO_STAMP"
    by (simp add: fix_stamp_def ZERO_STAMP_def FUTURE_TOLERANCE_MS_def)
  with RecRow show ?thesis by (simp add: min.assoc split: option.split)
qed (simp_all add: split_def comp_def)

lemma newestSummary_latest:
  "\<not> isDocument r \<Longrightarrow> newestSummary now r = (stamps.latest ZERO_STAMP (row_stamps r), None)"
  by (cases r) (simp_all add: stamps.latest_def)

text \<open>A row with every stamp of it read as the zero stamp: what is left of it when stamps do not count.\<close>

fun unstamped :: "row \<Rightarrow> row" where
  "unstamped (DocRow d) = DocRow d"
| "unstamped (EpRow r) = EpRow (r\<lparr> er_progress := (er_progress r)\<lparr> at_stamp := ZERO_STAMP \<rparr> \<rparr>)"
| "unstamped (SetRow r) = SetRow (r\<lparr> sr_values := map (\<lambda>(k, v). (k, v\<lparr> at_stamp := ZERO_STAMP \<rparr>)) (sr_values r) \<rparr>)"
| "unstamped (RecRow r) = RecRow (r\<lparr> tr_status := (tr_status r)\<lparr> at_stamp := ZERO_STAMP \<rparr>,
     tr_resume := (tr_resume r)\<lparr> at_stamp := ZERO_STAMP \<rparr>, tr_reaction := (tr_reaction r)\<lparr> at_stamp := ZERO_STAMP \<rparr>,
     tr_deleted := (tr_deleted r)\<lparr> at_stamp := ZERO_STAMP \<rparr>, tr_dismissed := (tr_dismissed r)\<lparr> at_stamp := ZERO_STAMP \<rparr>,
     tr_episodesReset := map_option (\<lambda>_. ZERO_STAMP) (tr_episodesReset r) \<rparr>)"

lemma unstamped_believe: "unstamped (believe now r) = unstamped r"
proof (cases r)
  case (RecRow t)
  then show ?thesis by (cases "tr_episodesReset t") (simp_all add: fixed_def)
qed (simp_all add: fixed_def split_def comp_def)

text \<open>C39: A stamp from more than a day ahead wins nothing, and nothing else is touched. \<open>believe\<close> reads each stamp of a title,
  episode or settings row by itself: one that is more than a day ahead becomes the zero stamp, any other stays, whatever the
  rest of the row holds; values, names and every other field stay; so the newest stamp the clock is shown is within the
  tolerance, and believing twice changes nothing more. A document is returned as it is.\<close>

theorem believe_bounds:
  assumes "0 \<le> now"
  shows "row_stamps (believe now r) = map (\<lambda>s. if fst s > now + 24 * 60 * 60 * 1000 then (0, 0, []) else s) (row_stamps r) \<and>
     unstamped (believe now r) = unstamped r \<and>
     (isDocument r \<longrightarrow> believe now r = r) \<and>
     (\<not> isDocument r \<longrightarrow> fst (fst (newestSummary now (believe now r))) \<le> now + 24 * 60 * 60 * 1000) \<and>
     believe now (believe now r) = believe now r"
proof -
  have bel: "row_stamps (believe now r) = map (fix_stamp now) (row_stamps r)"
    by (rule row_stamps_believe [OF assms])
  have "fix_stamp now = (\<lambda>s. if fst s > now + 24 * 60 * 60 * 1000 then (0, 0, []) else s)"
    by (rule ext) (simp add: fix_stamp_def FUTURE_TOLERANCE_MS_def ZERO_STAMP_def)
  moreover have "fst (fst (newestSummary now (believe now r))) \<le> now + FUTURE_TOLERANCE_MS" if doc: "\<not> isDocument r"
  proof -
    have all: "fst s \<le> now + FUTURE_TOLERANCE_MS" if "s \<in> set (row_stamps (believe now r))" for s
      using that fix_stamp_bound [OF assms] unfolding bel set_map by blast
    have zero: "fst ZERO_STAMP \<le> now + FUTURE_TOLERANCE_MS" using assms by (simp add: ZERO_STAMP_def FUTURE_TOLERANCE_MS_def)
    have "\<not> isDocument (believe now r)" using doc by (cases r) simp_all
    then show ?thesis
      using stamps.latest_in [of ZERO_STAMP "row_stamps (believe now r)"] zero all
      by (simp add: newestSummary_latest) (metis insertE)
  qed
  moreover have "believe now (believe now r) = believe now r"
  proof (cases r)
    case (RecRow t)
    show ?thesis unfolding RecRow using assms by (cases "tr_episodesReset t") simp_all
  qed (use assms in \<open>simp_all add: split_def comp_def\<close>)
  moreover have "isDocument r \<longrightarrow> believe now r = r" by (cases r) simp_all
  ultimately show ?thesis using bel unstamped_believe [of now r] by (simp add: FUTURE_TOLERANCE_MS_def)
qed

definition demo_episode :: row where
  "demo_episode = EpRow \<lparr> er_type = ''tv'', er_id = 7, er_season = 1, er_episode = 2,
     er_progress = \<lparr> members = JNull, at_stamp = (99999999, 0, ''d'') \<rparr>, er_rest = JNull \<rparr>"

definition demo_settings :: row where
  "demo_settings = SetRow \<lparr> sr_name = ''player'', sr_values = [(''a'', \<lparr> members = JBool True, at_stamp = (99999999, 0, ''d'') \<rparr>),
     (''b'', \<lparr> members = JBool False, at_stamp = (4, 0, ''d'') \<rparr>)], sr_rest = JNull \<rparr>"

theorem believe_bounds_witness:
  "row_stamps (believe 5 demo_settings) = [(0, 0, []), (4, 0, ''d'')] \<and>
   fst (fst (newestSummary 5 (believe 5 demo_settings))) \<le> 5 + 24 * 60 * 60 * 1000 \<and>
   \<not> fst (fst (newestSummary 5 demo_settings)) \<le> 5 + 24 * 60 * 60 * 1000"
proof -
  have "\<not> fst (fst (newestSummary 5 demo_settings)) \<le> 5 + 24 * 60 * 60 * 1000" by code_simp
  moreover have "\<not> isDocument demo_settings" "row_stamps demo_settings = [(99999999, 0, ''d''), (4, 0, ''d'')]"
    by (simp_all add: demo_settings_def)
  ultimately show ?thesis using believe_bounds [of 5 demo_settings] by simp
qed

text \<open>The newest stamp of a row is one of the row's stamps (or the zero stamp of an empty one), and
  none of its stamps is later: a clock that has seen it issues only later stamps.\<close>

theorem newestSummary_is_newest:
  assumes "\<not> isDocument r"
  shows "fst (newestSummary now r) \<in> insert ZERO_STAMP (set (row_stamps r)) \<and>
     (\<forall>s \<in> set (row_stamps r). \<not> compareStamps s (fst (newestSummary now r)) > 0)"
  using newestSummary_latest [OF assms, of now] stamps.latest_in [of ZERO_STAMP "row_stamps r"]
    stamps.latest_max [of _ "row_stamps r" ZERO_STAMP]
  by simp

theorem newestSummary_is_newest_witness:
  "fst (newestSummary 0 demo_episode) \<in> {ZERO_STAMP, (99999999, 0, ''d'')}"
  using newestSummary_is_newest [of demo_episode 0] by (simp add: demo_episode_def)

subsection \<open>Documents\<close>

abbreviation believable :: "int \<Rightarrow> stamp \<Rightarrow> bool" where
  "believable now s \<equiv> fst s \<le> now + FUTURE_TOLERANCE_MS"

lemma fold_visit_newest:
  "fst (fold (visit_stamp now) ss (a, r)) = stamps.latest a (filter (believable now) ss)"
proof (induction ss arbitrary: a r)
  case (Cons s ss)
  then show ?case by (cases "believable now s") (simp_all add: visit_stamp_def Let_def)
qed simp

text \<open>When the earliest of the disbelieved stamps becomes believable.\<close>

lemma fold_visit_reconsider:
  "snd (fold (visit_stamp now) ss (a, r)) =
     (let later = map (\<lambda>s. fst s - FUTURE_TOLERANCE_MS) (filter (\<lambda>s. \<not> believable now s) ss) in
      if later = [] then r
      else Some (case r of None \<Rightarrow> Min (set later) | Some t \<Rightarrow> min t (Min (set later))))"
proof (induction ss arbitrary: a r)
  case (Cons s ss)
  show ?case
  proof (cases "believable now s")
    case True
    then show ?thesis using Cons by (simp add: visit_stamp_def)
  next
    case False
    let ?later = "map (\<lambda>s. fst s - FUTURE_TOLERANCE_MS) (filter (\<lambda>s. \<not> believable now s) ss)"
    let ?b = "fst s - FUTURE_TOLERANCE_MS"
    have step: "visit_stamp now s (a, r) = (a, Some (min (case r of Some t \<Rightarrow> t | None \<Rightarrow> ?b) ?b))"
      using False by (simp add: visit_stamp_def Let_def)
    have ins: "Min (insert ?b (set ?later)) = min ?b (Min (set ?later))" if "?later \<noteq> []"
      by (rule Min_insert [OF finite_set]) (use that in \<open>simp only: set_empty, simp\<close>)
    have IH: "snd (fold (visit_stamp now) ss (a, Some t)) =
      (if ?later = [] then Some t else Some (min t (Min (set ?later))))" for t
      using Cons.IH [of a "Some t"] by (simp only: Let_def option.case)
    show ?thesis
    proof (cases "?later = []")
      case True
      with False step IH show ?thesis by (simp add: Let_def split: option.split)
    next
      case nonempty: False
      have "snd (fold (visit_stamp now) (s # ss) (a, r)) =
        Some (min (min (case r of Some t \<Rightarrow> t | None \<Rightarrow> ?b) ?b) (Min (set ?later)))"
        unfolding fold_simps comp_apply step IH using nonempty by (simp only: if_False)
      moreover have "map (\<lambda>s. fst s - FUTURE_TOLERANCE_MS) (filter (\<lambda>s. \<not> believable now s) (s # ss)) = ?b # ?later"
        using False by simp
      ultimately show ?thesis
        using ins [OF nonempty] by (simp only: Let_def list.simps if_False) (simp add: min.assoc split: option.split)
    qed
  qed
qed simp

lemma reconsider_None:
  "snd (documentNewest now d) = None \<longleftrightarrow> (\<forall>s \<in> set (doc_stamps d). believable now s)"
  by (auto simp: documentNewest_def fold_visit_reconsider Let_def filter_empty_conv)

lemma reconsider_le:
  assumes "snd (documentNewest now d) = Some t" and "s \<in> set (doc_stamps d)" and "\<not> believable now s"
  shows "t \<le> fst s - FUTURE_TOLERANCE_MS"
proof -
  let ?later = "map (\<lambda>s. fst s - FUTURE_TOLERANCE_MS) (filter (\<lambda>s. \<not> believable now s) (doc_stamps d))"
  have "fst s - FUTURE_TOLERANCE_MS \<in> set ?later" using assms(2,3) by auto
  moreover from this have "?later \<noteq> []" by (metis empty_iff list.set(1))
  then have "t = Min (set ?later)"
    using assms(1) by (simp add: documentNewest_def fold_visit_reconsider Let_def split: if_splits)
  ultimately show ?thesis by simp
qed

text \<open>The answer about a document is stable until the time it names. The newest stamp is the latest
  among the stamps not more than a day ahead; asking again at any later moment before
  \<open>reconsiderAt\<close>, or at any later moment at all when there is none, gives the same answer.\<close>

theorem documentNewest_stable:
  assumes "now \<le> now'" and "\<And>t. snd (documentNewest now d) = Some t \<Longrightarrow> now' < t"
  shows "documentNewest now' d = documentNewest now d \<and>
     (\<forall>s \<in> set (doc_stamps d). fst s \<le> now' + FUTURE_TOLERANCE_MS \<longrightarrow>
        \<not> compareStamps s (fst (documentNewest now d)) > 0)"
proof -
  have same: "believable now' s \<longleftrightarrow> believable now s" if s: "s \<in> set (doc_stamps d)" for s
  proof (cases "believable now s")
    case False
    then obtain t where t: "snd (documentNewest now d) = Some t" using s reconsider_None [of now d] by auto
    have "now' < fst s - FUTURE_TOLERANCE_MS"
      using reconsider_le [OF t s False] assms(2) [OF t] by simp
    with False show ?thesis by simp
  qed (use assms(1) in simp)
  then have f: "filter (believable now') (doc_stamps d) = filter (believable now) (doc_stamps d)"
    "filter (\<lambda>s. \<not> believable now' s) (doc_stamps d) = filter (\<lambda>s. \<not> believable now s) (doc_stamps d)"
    by (auto intro: filter_cong)
  have "documentNewest now' d = documentNewest now d"
    unfolding documentNewest_def
    by (rule prod_eqI) (simp_all add: fold_visit_newest fold_visit_reconsider f)
  moreover have "\<not> 0 < compareStamps s (fst (documentNewest now d))"
    if "s \<in> set (doc_stamps d)" "believable now' s" for s
    using that same stamps.latest_max [of s "filter (believable now) (doc_stamps d)" ZERO_STAMP]
    by (simp add: documentNewest_def fold_visit_newest)
  ultimately show ?thesis by blast
qed

definition demo_document :: jsval where
  "demo_document = JObj [(''kind'', JStr ''title''),
     (''status'', JArr [jint 5, jint 0, JStr ''a'']), (''seen'', JArr [JArr [jint 200000000, jint 1, JStr ''b'']])]"

lemma demo_document_newest: "documentNewest 0 demo_document = ((5, 0, ''a''), Some 113600000)"
  by (simp add: documentNewest_def demo_document_def visit_stamp_def ZERO_STAMP_def
      FUTURE_TOLERANCE_MS_def)

theorem documentNewest_stable_witness:
  "documentNewest 1000 demo_document = documentNewest 0 demo_document"
  using documentNewest_stable [of 0 1000 demo_document] by (simp add: demo_document_newest)

end
