(* ===== verification/ClockStore.thy ===== *)
theory ClockStore
  imports JsonText Wire Transitions
begin

text \<open>
  \<^verbatim>\<open>web/src/lib/clockStore.ts\<close>: the durable hybrid clock of the library service. Its state is JSON text under one key of the vault, shared by every tab and worker
  of the browser. The model has any number of opened instances over one vault and both ways the
  code writes it: \<open>vault.update\<close>, one atomic read-modify-write, or reads and writes inside the
  exclusive lock. One operation is one step; a write that fails is a flag of the step. The stamp
  itself is issued by den-core (\<open>Clock.issue\<close>), the parameter \<open>I\<close>.
\<close>

section \<open>Stored state\<close>

record stored_clock =
  sc_device :: string
  sc_last :: stamp
  sc_historicalCounter :: int

definition validDevice :: "jsval \<Rightarrow> bool" where
  "validDevice value \<longleftrightarrow> strWith (re_exactly isHexLower 16) value"

fun validStamp :: "jsval \<Rightarrow> bool" where
  "validStamp (JArr [t, c, JStr d]) \<longleftrightarrow>
     isSafeInteger t \<and> num_ge t 0 \<and> isSafeInteger c \<and> num_ge c 0"
| "validStamp _ \<longleftrightarrow> False"

fun copyStamp :: "jsval \<Rightarrow> stamp" where
  "copyStamp (JArr [t, c, d]) = (\<lfloor>ratOf t\<rfloor>, \<lfloor>ratOf c\<rfloor>, strOf d)"
| "copyStamp _ = ZERO_STAMP"

fun stampValue :: "stamp \<Rightarrow> jsval" where
  "stampValue (t, c, d) = JArr [jint t, jint c, JStr d]"

definition clockValue :: "stored_clock \<Rightarrow> jsval" where
  "clockValue st = JObj
     [(''version'', jint 1), (''device'', JStr (sc_device st)), (''last'', stampValue (sc_last st)),
      (''historicalCounter'', jint (sc_historicalCounter st))]"

definition clock_encode :: "js_env \<Rightarrow> stored_clock \<Rightarrow> nat list" where
  "clock_encode E st = utf8_encode (json_text E (clockValue st))"

fun isObject :: "jsval \<Rightarrow> bool" where
  "isObject (JArr _) = True"
| "isObject (JObj _) = True"
| "isObject _ = False"

definition readClock :: "jsval \<Rightarrow> stored_clock option" where
  "readClock value =
    (if \<not> isObject value then None
     else if fld value ''version'' \<noteq> jint 1 \<or> \<not> validDevice (fld value ''device'') \<or>
             \<not> validStamp (fld value ''last'') then None
     else let stored = fld value ''historicalCounter'';
              historicalCounter = (if stored = JUndef \<or> stored = JNull then jint 0 else stored) in
       if \<not> isSafeInteger historicalCounter \<or> \<not> num_ge historicalCounter 0 then None
       else Some \<lparr> sc_device = strOf (fld value ''device''), sc_last = copyStamp (fld value ''last''),
                   sc_historicalCounter = \<lfloor>ratOf historicalCounter\<rfloor> \<rparr>)"

definition clock_decode :: "js_env \<Rightarrow> nat list option \<Rightarrow> stored_clock option" where
  "clock_decode E stored =
    (case stored of
       None \<Rightarrow> None
     | Some bytes \<Rightarrow>
         (case utf8_decode bytes of
            None \<Rightarrow> None
          | Some s \<Rightarrow> (case json_parse E s of None \<Rightarrow> None | Some value \<Rightarrow> readClock value)))"

section \<open>Operations\<close>

datatype clock_error =
    StorageFailed
  | InvalidState
  | BadDevice
  | BadTime
  | CounterExhausted
  | BadStamp

text \<open>The vault's value under the clock's key, and the state of each opened instance.\<close>

record clock_world =
  cell :: "nat list option"
  insts :: "nat \<Rightarrow> stored_clock option"

abbreviation set_inst :: "nat \<Rightarrow> stored_clock \<Rightarrow> clock_world \<Rightarrow> clock_world" where
  "set_inst i st w \<equiv> w\<lparr> insts := (insts w)(i \<mapsto> st) \<rparr>"

text \<open>\<open>vault.put\<close> and \<open>vault.update\<close>; the flag says whether the write succeeds.\<close>

definition vault_put :: "bool \<Rightarrow> nat list \<Rightarrow> clock_world \<Rightarrow> (clock_error + unit) \<times> clock_world" where
  "vault_put ok bytes w = (if ok then (Inr (), w\<lparr> cell := Some bytes \<rparr>) else (Inl StorageFailed, w))"

definition vault_update ::
  "bool \<Rightarrow> (nat list option \<Rightarrow> clock_error + nat list) \<Rightarrow> clock_world \<Rightarrow> (clock_error + nat list) \<times> clock_world" where
  "vault_update ok updater w =
    (case updater (cell w) of
       Inl e \<Rightarrow> (Inl e, w)
     | Inr bytes \<Rightarrow> if ok then (Inr bytes, w\<lparr> cell := Some bytes \<rparr>) else (Inl StorageFailed, w))"

text \<open>What a new clock starts from: the old page clock, where it is valid, or a new device.\<close>

definition seed :: "jsval \<Rightarrow> string \<Rightarrow> clock_error + stored_clock" where
  "seed legacy created =
    (let device = (if validDevice (fld legacy ''device'') then strOf (fld legacy ''device'') else created) in
     if \<not> validDevice (JStr device) then Inl BadDevice
     else Inr \<lparr> sc_device = device,
                sc_last = (if validStamp (fld legacy ''last'') then copyStamp (fld legacy ''last'') else (0, 0, [])),
                sc_historicalCounter = 0 \<rparr>)"

definition open_atomic ::
  "js_env \<Rightarrow> bool \<Rightarrow> jsval \<Rightarrow> string \<Rightarrow> clock_world \<Rightarrow> (clock_error + stored_clock) \<times> clock_world" where
  "open_atomic E ok legacy created w =
    (case vault_update ok (\<lambda>current.
         case (clock_decode E current, current) of
           (Some _, Some bytes) \<Rightarrow> Inr bytes
         | _ \<Rightarrow> map_sum id (clock_encode E) (seed legacy created)) w of
       (Inl e, w1) \<Rightarrow> (Inl e, w1)
     | (Inr bytes, w1) \<Rightarrow>
         (case clock_decode E (Some bytes) of
            None \<Rightarrow> (Inl InvalidState, w1)
          | Some opened \<Rightarrow> (Inr opened, w1)))"

definition open_locked ::
  "js_env \<Rightarrow> bool \<Rightarrow> jsval \<Rightarrow> string \<Rightarrow> clock_world \<Rightarrow> (clock_error + stored_clock) \<times> clock_world" where
  "open_locked E ok legacy created w =
    (case clock_decode E (cell w) of
       Some durable \<Rightarrow> (Inr durable, w)
     | None \<Rightarrow>
         (case seed legacy created of
            Inl e \<Rightarrow> (Inl e, w)
          | Inr seeded \<Rightarrow>
              (case vault_put ok (clock_encode E seeded) w of
                 (Inl e, w1) \<Rightarrow> (Inl e, w1)
               | (Inr _, w1) \<Rightarrow> (Inr seeded, w1))))"

definition openClockStore ::
  "js_env \<Rightarrow> bool \<Rightarrow> bool \<Rightarrow> jsval \<Rightarrow> string \<Rightarrow> nat \<Rightarrow> clock_world \<Rightarrow> (clock_error + stamp list) \<times> clock_world" where
  "openClockStore E atomic ok legacy created i w =
    (case (if atomic then open_atomic E ok legacy created w else open_locked E ok legacy created w) of
       (Inl e, w1) \<Rightarrow> (Inl e, w1)
     | (Inr st, w1) \<Rightarrow> (Inr [], set_inst i st w1))"

text \<open>\<open>atomically(change)\<close>; \<open>change\<close> runs inside the update, on the vault's current value. It gives
  \<open>None\<close> for the object it was handed, unchanged, beside the stamps it left in the closure.\<close>

definition atomically ::
  "js_env \<Rightarrow> bool \<Rightarrow> nat \<Rightarrow> (stored_clock \<Rightarrow> clock_error + stamp list \<times> stored_clock option) \<Rightarrow> stored_clock
     \<Rightarrow> clock_world \<Rightarrow> (clock_error + stamp list \<times> stored_clock) \<times> clock_world" where
  "atomically E ok i change st w =
    (let durable = (case clock_decode E (cell w) of Some d \<Rightarrow> d | None \<Rightarrow> st) in
     case change durable of
       Inl e \<Rightarrow> (Inl e, w)
     | Inr (out, changed) \<Rightarrow>
         (case vault_update ok (\<lambda>current.
              Inr (case (changed, current) of
                     (Some st', _) \<Rightarrow> clock_encode E st'
                   | (None, Some bytes) \<Rightarrow> bytes
                   | (None, None) \<Rightarrow> clock_encode E durable)) w of
            (Inl e, w1) \<Rightarrow> (Inl e, w1)
          | (Inr bytes, w1) \<Rightarrow>
              (case clock_decode E (Some bytes) of
                 None \<Rightarrow> (Inl InvalidState, w1)
               | Some stored \<Rightarrow> (Inr (out, stored), set_inst i stored w1))))"

definition refresh ::
  "js_env \<Rightarrow> bool \<Rightarrow> nat \<Rightarrow> stored_clock \<Rightarrow> clock_world \<Rightarrow> (clock_error + stored_clock) \<times> clock_world" where
  "refresh E ok i st w =
    (case clock_decode E (cell w) of
       Some durable \<Rightarrow> (Inr durable, set_inst i durable w)
     | None \<Rightarrow>
         (case vault_put ok (clock_encode E st) w of
            (Inl e, w1) \<Rightarrow> (Inl e, w1)
          | (Inr _, w1) \<Rightarrow> (Inr st, w1)))"

text \<open>Storing a new state, then making it this instance's: \<open>commit\<close>, and the end of \<open>historical\<close>.\<close>

definition commit ::
  "js_env \<Rightarrow> bool \<Rightarrow> nat \<Rightarrow> stored_clock \<Rightarrow> clock_world \<Rightarrow> (clock_error + unit) \<times> clock_world" where
  "commit E ok i updated w =
    (case vault_put ok (clock_encode E updated) w of
       (Inl e, w1) \<Rightarrow> (Inl e, w1)
     | (Inr _, w1) \<Rightarrow> (Inr (), set_inst i updated w1))"

text \<open>The change of an operation run inside the lock: read again, apply it, store it if it changed.\<close>

definition locked ::
  "js_env \<Rightarrow> bool \<Rightarrow> bool \<Rightarrow> nat \<Rightarrow> (stored_clock \<Rightarrow> clock_error + stamp list \<times> stored_clock option) \<Rightarrow> stored_clock
     \<Rightarrow> clock_world \<Rightarrow> (clock_error + stamp list \<times> stored_clock) \<times> clock_world" where
  "locked E ok1 ok2 i change st w =
    (case refresh E ok1 i st w of
       (Inl e, w1) \<Rightarrow> (Inl e, w1)
     | (Inr current, w1) \<Rightarrow>
         (case change current of
            Inl e \<Rightarrow> (Inl e, w1)
          | Inr (out, None) \<Rightarrow> (Inr (out, current), w1)
          | Inr (out, Some changed) \<Rightarrow>
              (case commit E ok2 i changed w1 of
                 (Inl e, w2) \<Rightarrow> (Inl e, w2)
               | (Inr _, w2) \<Rightarrow> (Inr (out, changed), w2))))"

definition change_clock ::
  "js_env \<Rightarrow> bool \<Rightarrow> bool \<times> bool \<Rightarrow> nat \<Rightarrow> (stored_clock \<Rightarrow> clock_error + stamp list \<times> stored_clock option) \<Rightarrow> stored_clock
     \<Rightarrow> clock_world \<Rightarrow> (clock_error + stamp list \<times> stored_clock) \<times> clock_world" where
  "change_clock E atomic ok i change st w =
    (if atomic then atomically E (snd ok) i change st w else locked E (fst ok) (snd ok) i change st w)"

text \<open>The four operations: what each makes of the current state, and what it answers with.\<close>

definition issueChange :: "(stamp \<Rightarrow> int \<Rightarrow> string \<Rightarrow> stamp) \<Rightarrow> int \<Rightarrow> stored_clock \<Rightarrow> clock_error + stamp list \<times> stored_clock option" where
  "issueChange I now current = Inr ([], Some (current\<lparr> sc_last := I (sc_last current) now (sc_device current) \<rparr>))"

definition reserved :: "int list \<Rightarrow> stored_clock \<Rightarrow> stamp list" where
  "reserved milliseconds current =
     map (\<lambda>(t, i). (t, sc_historicalCounter current + int i + 1, sc_device current))
       (zip milliseconds [0..<length milliseconds])"

definition reserve :: "int list \<Rightarrow> stored_clock \<Rightarrow> clock_error + stamp list \<times> stored_clock option" where
  "reserve milliseconds current =
    (if of_int (sc_historicalCounter current + int (length milliseconds)) > MAX_SAFE_INTEGER then Inl CounterExhausted
     else Inr (reserved milliseconds current, Some (current\<lparr>
       sc_historicalCounter := sc_historicalCounter current + int (length (reserved milliseconds current)),
       sc_last := foldl (\<lambda>a b. if 0 < compareStamps b a then b else a) (sc_last current)
         (reserved milliseconds current) \<rparr>)))"

definition seeChange :: "stamp \<Rightarrow> stored_clock \<Rightarrow> clock_error + stamp list \<times> stored_clock option" where
  "seeChange stamp current =
    (if 0 < compareStamps stamp (sc_last current) then Inr ([], Some (current\<lparr> sc_last := stamp \<rparr>)) else Inr ([], None))"

datatype clock_call =
    Open jsval string
  | Issue int
  | Historical "jsval list"
  | See jsval
  | Current

fun clock_run ::
  "js_env \<Rightarrow> (stamp \<Rightarrow> int \<Rightarrow> string \<Rightarrow> stamp) \<Rightarrow> bool \<Rightarrow> bool \<times> bool \<Rightarrow> nat \<Rightarrow> stored_clock \<Rightarrow> clock_call
     \<Rightarrow> clock_world \<Rightarrow> (clock_error + stamp list) \<times> clock_world" where
  "clock_run E I atomic ok i st (Open legacy created) w = openClockStore E atomic (snd ok) legacy created i w"
| "clock_run E I atomic ok i st (Issue now) w =
    (case change_clock E atomic ok i (issueChange I now) st w of
       (Inl e, w1) \<Rightarrow> (Inl e, w1)
     | (Inr (_, updated), w1) \<Rightarrow> (Inr [sc_last updated], w1))"
| "clock_run E I atomic ok i st (Historical milliseconds) w =
    (if \<not> list_all (\<lambda>v. isSafeInteger v \<and> num_ge v 0) milliseconds then (Inl BadTime, w)
     else if milliseconds = [] then (Inr [], w)
     else case change_clock E atomic ok i (reserve (map (\<lambda>v. \<lfloor>ratOf v\<rfloor>) milliseconds)) st w of
         (Inl e, w1) \<Rightarrow> (Inl e, w1)
       | (Inr (stamps, _), w1) \<Rightarrow> (Inr stamps, w1))"
| "clock_run E I atomic ok i st (See stamp) w =
    (if \<not> validStamp stamp then (Inl BadStamp, w)
     else case change_clock E atomic ok i (seeChange (copyStamp stamp)) st w of
         (Inl e, w1) \<Rightarrow> (Inl e, w1)
       | (Inr _, w1) \<Rightarrow> (Inr [], w1))"
| "clock_run E I atomic ok i st Current w =
    (case change_clock E atomic ok i (\<lambda>_. Inr ([], None)) st w of
       (Inl e, w1) \<Rightarrow> (Inl e, w1)
     | (Inr (_, durable), w1) \<Rightarrow> (Inr [sc_last durable], w1))"

section \<open>The stored form\<close>

abbreviation safe_nat :: "int \<Rightarrow> bool" where
  "safe_nat n \<equiv> 0 \<le> n \<and> n \<le> 9007199254740991"

fun stamp_ok :: "stamp \<Rightarrow> bool" where
  "stamp_ok (t, c, d) \<longleftrightarrow> safe_nat t \<and> safe_nat c"

definition clock_ok :: "stored_clock \<Rightarrow> bool" where
  "clock_ok st \<longleftrightarrow> re_exactly isHexLower 16 (sc_device st) \<and> stamp_ok (sc_last st) \<and> safe_nat (sc_historicalCounter st)"

lemma validStamp_iff: "validStamp v \<longleftrightarrow> (\<exists>s. v = stampValue s \<and> stamp_ok s)"
proof
  assume "validStamp v"
  then obtain t c d where v: "v = JArr [t, c, JStr d]" and ok: "isSafeInteger t" "num_ge t 0" "isSafeInteger c" "num_ge c 0"
    by (cases v rule: validStamp.cases) auto
  obtain m where m: "t = jint m" "\<bar>m\<bar> \<le> 9007199254740991" using ok(1) by (rule isSafeIntegerE)
  obtain n where n: "c = jint n" "\<bar>n\<bar> \<le> 9007199254740991" using ok(3) by (rule isSafeIntegerE)
  have "v = stampValue (m, n, d) \<and> stamp_ok (m, n, d)" using v ok m n by simp
  then show "\<exists>s. v = stampValue s \<and> stamp_ok s" by blast
next
  assume "\<exists>s. v = stampValue s \<and> stamp_ok s"
  then obtain t c d where "v = stampValue (t, c, d)" "stamp_ok (t, c, d)" by (metis prod_cases3)
  then show "validStamp v" unfolding stampValue.simps by (simp del: isSafeInteger.simps)
qed

lemma validStamp_value: "stamp_ok s \<Longrightarrow> validStamp (stampValue s)"
  using validStamp_iff by blast

lemma guarded_Some: "(if P then None else X) = Some y \<longleftrightarrow> \<not> P \<and> X = Some y"
  by simp

lemma copyStamp_value [simp]: "copyStamp (stampValue s) = s"
  by (cases s) simp

lemma clock_keys_plain: "\<not> isIndexKey ''version'' \<and> \<not> isIndexKey ''device'' \<and> \<not> isIndexKey ''last'' \<and> \<not> isIndexKey ''historicalCounter''"
  by (simp add: isIndexKey_def char_classes)

lemma clockValue_plain:
  assumes "clock_ok st"
  shows "json_plain (clockValue st)"
proof -
  obtain t c d where "sc_last st = (t, c, d)" by (metis prod_cases3)
  then show ?thesis
    using assms clock_keys_plain isSafeInteger_jint [of 1]
    by (simp add: clockValue_def clock_ok_def key_before_def del: isSafeInteger.simps)
qed

lemma readClock_value:
  assumes "clock_ok st"
  shows "readClock (clockValue st) = Some st"
proof -
  have "validDevice (JStr (sc_device st))" and "validStamp (stampValue (sc_last st))"
    and "isSafeInteger (jint (sc_historicalCounter st))"
    using assms validStamp_value unfolding isSafeInteger_jint by (auto simp: clock_ok_def validDevice_def)
  then show ?thesis
    using assms by (simp add: readClock_def clockValue_def clock_ok_def Let_def del: isSafeInteger.simps)
qed

lemma clock_decode_encode: "clock_ok st \<Longrightarrow> clock_decode E (Some (clock_encode E st)) = Some st"
  by (simp add: clock_decode_def clock_encode_def json_roundtrip clockValue_plain readClock_value)

lemma clock_decode_ok: "clock_decode E b = Some st \<Longrightarrow> clock_ok st"
proof -
  assume "clock_decode E b = Some st"
  then obtain v where v: "readClock v = Some st"
    by (auto simp: clock_decode_def split: option.splits)
  let ?h = "if fld v ''historicalCounter'' = JUndef \<or> fld v ''historicalCounter'' = JNull then jint 0
    else fld v ''historicalCounter''"
  have d: "validDevice (fld v ''device'')" and s: "validStamp (fld v ''last'')"
    and h: "isSafeInteger ?h" "num_ge ?h 0"
    and st: "st = \<lparr> sc_device = strOf (fld v ''device''), sc_last = copyStamp (fld v ''last''),
       sc_historicalCounter = \<lfloor>ratOf ?h\<rfloor> \<rparr>"
    using v unfolding readClock_def Let_def guarded_Some by (simp_all only: de_Morgan_disj not_not option.inject)
  obtain n where n: "?h = jint n" "\<bar>n\<bar> \<le> 9007199254740991" using h(1) by (rule isSafeIntegerE)
  have "safe_nat \<lfloor>ratOf ?h\<rfloor>" using h(2) n(2) unfolding n(1) by simp
  moreover have "re_exactly isHexLower 16 (strOf (fld v ''device''))"
    using d unfolding validDevice_def by (rule strWithE) simp
  moreover have "stamp_ok (copyStamp (fld v ''last''))" using s validStamp_iff by auto
  ultimately show ?thesis unfolding st clock_ok_def by simp
qed

lemma seed_ok: "seed legacy created = Inr st \<Longrightarrow> clock_ok st"
proof -
  assume seed: "seed legacy created = Inr st"
  have "stamp_ok (if validStamp (fld legacy ''last'') then copyStamp (fld legacy ''last'') else (0, 0, []))"
    using validStamp_iff by auto
  then show ?thesis
    using seed by (auto simp: seed_def Let_def clock_ok_def validDevice_def split: if_splits)
qed


section \<open>Both ways of writing are one transaction on the stored state\<close>

text \<open>
  What the operations rely on: a change is applied to the state the vault holds, whatever an instance
  remembers, and either it is stored and answered with, or an error is answered and the vault
  still holds the state it held.
\<close>

locale transaction =
  fixes durable :: "'w \<Rightarrow> 'd option"
    and sound :: "'d \<Rightarrow> bool"
    and transact :: "('d \<Rightarrow> 'e + 'o \<times> 'd option) \<Rightarrow> 'w \<Rightarrow> ('e + 'o \<times> 'd) \<times> 'w"
  assumes transact_law:
    "durable w = Some d \<Longrightarrow> (\<And>out d'. change d = Inr (out, Some d') \<Longrightarrow> sound d') \<Longrightarrow>
     transact change w = (r, w1) \<Longrightarrow>
       (\<exists>e. r = Inl e \<and> durable w1 = Some d) \<or>
       (\<exists>out changed. change d = Inr (out, changed) \<and>
          r = Inr (out, case changed of None \<Rightarrow> d | Some d' \<Rightarrow> d') \<and>
          durable w1 = Some (case changed of None \<Rightarrow> d | Some d' \<Rightarrow> d'))"
begin

lemma transact_refused:
  assumes "durable w = Some d" and "change d = Inl e"
  shows "\<exists>e. fst (transact change w) = Inl e \<and> durable (snd (transact change w)) = Some d"
proof -
  obtain r w1 where t: "transact change w = (r, w1)" by (cases "transact change w")
  show ?thesis
    using transact_law [OF assms(1) _ t] assms(2) t by auto
qed

lemma transact_changed:
  assumes "durable w = Some d" and "change d = Inr (out, Some d')" and "sound d'" and "transact change w = (r, w1)"
  shows "(\<exists>e. r = Inl e) \<and> durable w1 = Some d \<or> r = Inr (out, d') \<and> durable w1 = Some d'"
  using transact_law [OF assms(1) _ assms(4)] assms(2,3) by auto

lemma transact_unchanged:
  assumes "durable w = Some d" and "change d = Inr (out, None)" and "transact change w = (r, w1)"
  shows "((\<exists>e. r = Inl e) \<or> r = Inr (out, d)) \<and> durable w1 = Some d"
  using transact_law [OF assms(1) _ assms(3)] assms(2) by auto

end

abbreviation durable_clock :: "js_env \<Rightarrow> clock_world \<Rightarrow> stored_clock option" where
  "durable_clock E w \<equiv> clock_decode E (cell w)"

interpretation upd: transaction "durable_clock E" clock_ok "\<lambda>change. atomically E ok i change st" for E ok i st
proof unfold_locales
  fix w d change r w1
  assume d: "durable_clock E w = Some d" and ok: "\<And>out d'. change d = Inr (out, Some d') \<Longrightarrow> clock_ok d'"
    and r: "atomically E ok i change st w = (r, w1)"
  obtain bytes where cell: "cell w = Some bytes" using d by (cases "cell w") (simp_all add: clock_decode_def)
  have stored: "clock_decode E (Some bytes) = Some d" using d cell by simp
  show "(\<exists>e. r = Inl e \<and> durable_clock E w1 = Some d) \<or>
    (\<exists>out changed. change d = Inr (out, changed) \<and> r = Inr (out, case changed of None \<Rightarrow> d | Some d' \<Rightarrow> d') \<and>
       durable_clock E w1 = Some (case changed of None \<Rightarrow> d | Some d' \<Rightarrow> d'))"
  proof (cases "change d")
    case (Inl e)
    with r d show ?thesis by (auto simp: atomically_def)
  next
    case (Inr oc)
    obtain out changed where oc: "oc = (out, changed)" by (cases oc)
    have "clock_decode E (Some (case (changed, cell w) of (Some st', _) \<Rightarrow> clock_encode E st'
      | (None, Some bytes) \<Rightarrow> bytes | (None, None) \<Rightarrow> clock_encode E d)) = Some (case changed of None \<Rightarrow> d | Some d' \<Rightarrow> d')"
      using ok [of out] Inr oc cell stored by (cases changed) (simp_all add: clock_decode_encode)
    with r d Inr oc cell show ?thesis
      by (cases ok) (auto simp: atomically_def vault_update_def split: option.splits)
  qed
qed

interpretation lck: transaction "durable_clock E" clock_ok "\<lambda>change. locked E ok1 ok2 i change st" for E ok1 ok2 i st
proof unfold_locales
  fix w d change r w1
  assume d: "durable_clock E w = Some d" and ok: "\<And>out d'. change d = Inr (out, Some d') \<Longrightarrow> clock_ok d'"
    and r: "locked E ok1 ok2 i change st w = (r, w1)"
  have rf: "refresh E ok1 i st w = (Inr d, set_inst i d w)" using d by (simp add: refresh_def)
  show "(\<exists>e. r = Inl e \<and> durable_clock E w1 = Some d) \<or>
    (\<exists>out changed. change d = Inr (out, changed) \<and> r = Inr (out, case changed of None \<Rightarrow> d | Some d' \<Rightarrow> d') \<and>
       durable_clock E w1 = Some (case changed of None \<Rightarrow> d | Some d' \<Rightarrow> d'))"
  proof (cases "change d")
    case (Inl e)
    with r rf d show ?thesis by (auto simp: locked_def)
  next
    case (Inr oc)
    obtain out changed where oc: "oc = (out, changed)" by (cases oc)
    show ?thesis
    proof (cases changed)
      case None
      with r rf d Inr oc show ?thesis by (auto simp: locked_def)
    next
      case (Some d')
      have "clock_ok d'" using ok Inr oc Some by blast
      with r rf d Inr oc Some show ?thesis
        by (cases ok2) (auto simp: locked_def commit_def vault_put_def clock_decode_encode)
    qed
  qed
qed

interpretation store: transaction "durable_clock E" clock_ok "\<lambda>change. change_clock E atomic ok i change st"
  for E atomic ok i st
proof unfold_locales
  fix w d change r w1
  assume "durable_clock E w = Some d" and "\<And>out d'. change d = Inr (out, Some d') \<Longrightarrow> clock_ok d'"
    and "change_clock E atomic ok i change st w = (r, w1)"
  then show "(\<exists>e. r = Inl e \<and> durable_clock E w1 = Some d) \<or>
    (\<exists>out changed. change d = Inr (out, changed) \<and> r = Inr (out, case changed of None \<Rightarrow> d | Some d' \<Rightarrow> d') \<and>
       durable_clock E w1 = Some (case changed of None \<Rightarrow> d | Some d' \<Rightarrow> d'))"
    using upd.transact_law [of E w d change] lck.transact_law [of E w d change]
    by (cases atomic) (simp_all add: change_clock_def)
qed

section \<open>The operations on the stored state\<close>

definition latestOf :: "stamp \<Rightarrow> stamp list \<Rightarrow> stamp" where
  "latestOf z ss = foldl (\<lambda>a b. if 0 < compareStamps b a then b else a) z ss"

text \<open>What an operation that succeeds answers, and what it makes of the stored state.\<close>

fun clock_spec ::
  "(stamp \<Rightarrow> int \<Rightarrow> string \<Rightarrow> stamp) \<Rightarrow> clock_call \<Rightarrow> stored_clock \<Rightarrow> stamp list \<times> stored_clock" where
  "clock_spec I (Issue now) d =
     (let s = I (sc_last d) now (sc_device d) in ([s], d\<lparr> sc_last := s \<rparr>))"
| "clock_spec I (Historical milliseconds) d =
     (let ss = reserved (map (\<lambda>v. \<lfloor>ratOf v\<rfloor>) milliseconds) d in
      (ss, d\<lparr> sc_historicalCounter := sc_historicalCounter d + int (length ss),
              sc_last := latestOf (sc_last d) ss \<rparr>))"
| "clock_spec I (See s) d = ([], d\<lparr> sc_last := latestOf (sc_last d) [copyStamp s] \<rparr>)"
| "clock_spec I Current d = ([sc_last d], d)"
| "clock_spec I (Open _ _) d = ([], d)"

text \<open>The stamp den-core would issue now can be stored.\<close>

fun fits :: "(stamp \<Rightarrow> int \<Rightarrow> string \<Rightarrow> stamp) \<Rightarrow> clock_call \<Rightarrow> stored_clock \<Rightarrow> bool" where
  "fits I (Issue now) d = stamp_ok (I (sc_last d) now (sc_device d))"
| "fits I _ d = True"

lemma reserved_ok:
  assumes "clock_ok d" and "\<forall>t \<in> set ms. safe_nat t"
    and "sc_historicalCounter d + int (length ms) \<le> 9007199254740991" and "s \<in> set (reserved ms d)"
  shows "stamp_ok s"
proof -
  obtain k where "k < length ms" and "s = (ms ! k, sc_historicalCounter d + int k + 1, sc_device d)"
    using assms(4) by (auto simp: reserved_def set_zip)
  with assms show ?thesis by (simp add: clock_ok_def)
qed

lemma latestOf_ok: "stamp_ok z \<Longrightarrow> \<forall>s \<in> set ss. stamp_ok s \<Longrightarrow> stamp_ok (latestOf z ss)"
  using stamps.latest_in [of z ss] unfolding latestOf_def stamps.latest_def by auto

lemma length_reserved [simp]: "length (reserved ms d) = length ms"
  by (simp add: reserved_def)


lemma reserve_spec:
  assumes "clock_ok d" and "\<forall>t \<in> set ms. safe_nat t"
  shows "reserve ms d = Inl CounterExhausted \<or>
    (\<exists>d'. d' = d\<lparr> sc_historicalCounter := sc_historicalCounter d + int (length ms), sc_last := latestOf (sc_last d) (reserved ms d) \<rparr>
       \<and> reserve ms d = Inr (reserved ms d, Some d') \<and> clock_ok d')"
proof (cases "sc_historicalCounter d + int (length ms) \<le> 9007199254740991")
  case True
  then have "rat_of_int (sc_historicalCounter d + int (length ms)) \<le> rat_of_int 9007199254740991"
    by (simp only: of_int_le_iff)
  then have "\<not> rat_of_int (sc_historicalCounter d + int (length ms)) > MAX_SAFE_INTEGER"
    by (simp add: MAX_SAFE_INTEGER_def)
  moreover have "stamp_ok (latestOf (sc_last d) (reserved ms d))"
    using assms reserved_ok [OF assms True] by (intro latestOf_ok) (auto simp: clock_ok_def)
  ultimately show ?thesis
    using assms(1) True by (auto simp: reserve_def latestOf_def clock_ok_def)
next
  case False
  then have "rat_of_int (sc_historicalCounter d + int (length ms)) > rat_of_int 9007199254740991"
    by (simp only: of_int_less_iff not_le)
  then show ?thesis by (simp add: reserve_def MAX_SAFE_INTEGER_def)
qed

lemma historical_times:
  assumes "list_all (\<lambda>v. isSafeInteger v \<and> num_ge v 0) milliseconds"
  shows "\<forall>t \<in> set (map (\<lambda>v. \<lfloor>ratOf v\<rfloor>) milliseconds). safe_nat t"
proof -
  have "safe_nat \<lfloor>ratOf v\<rfloor>" if "isSafeInteger v" "num_ge v 0" for v
    using that(1) by (rule isSafeIntegerE) (use that(2) in simp)
  then show ?thesis using assms by (auto simp: list_all_iff)
qed

abbreviation is_open :: "clock_call \<Rightarrow> bool" where
  "is_open call \<equiv> (case call of Open _ _ \<Rightarrow> True | _ \<Rightarrow> False)"

text \<open>Every operation of an instance refines its specification: it fails and the stored state stays, or
  it answers and stores what the specification says, whatever the instance remembers.\<close>

lemma clock_run_spec:
  assumes "durable_clock E w = Some d" and "fits I call d" and "clock_run E I atomic ok i st call w = (r, w1)"
    and "\<not> is_open call"
  shows "(\<exists>e. r = Inl e) \<and> durable_clock E w1 = Some d \<or>
     r = Inr (fst (clock_spec I call d)) \<and> durable_clock E w1 = Some (snd (clock_spec I call d))"
proof (cases call)
  case (Issue now)
  let ?d = "d\<lparr> sc_last := I (sc_last d) now (sc_device d) \<rparr>"
  obtain r1 w2 where t: "change_clock E atomic ok i (issueChange I now) st w = (r1, w2)"
    by (cases "change_clock E atomic ok i (issueChange I now) st w")
  have "clock_ok ?d" using clock_decode_ok [OF assms(1)] assms(2) Issue by (simp add: clock_ok_def)
  from store.transact_changed [OF assms(1) _ this t, of "[]"] show ?thesis
    using assms(3) Issue t by (auto simp: issueChange_def Let_def)
next
  case (Historical milliseconds)
  let ?ms = "map (\<lambda>v. \<lfloor>ratOf v\<rfloor>) milliseconds"
  consider (bad) "\<not> list_all (\<lambda>v. isSafeInteger v \<and> num_ge v 0) milliseconds"
    | (none) "milliseconds = []" | (some) "list_all (\<lambda>v. isSafeInteger v \<and> num_ge v 0) milliseconds" "milliseconds \<noteq> []"
    by blast
  then show ?thesis
  proof cases
    case bad
    then show ?thesis using assms(1,3) Historical by auto
  next
    case none
    then show ?thesis using assms(1,3) Historical by (auto simp: reserved_def latestOf_def Let_def)
  next
    case some
    obtain r1 w2 where t: "change_clock E atomic ok i (reserve ?ms) st w = (r1, w2)"
      by (cases "change_clock E atomic ok i (reserve ?ms) st w")
    have run: "clock_run E I atomic ok i st (Historical milliseconds) w =
      (case r1 of Inl e \<Rightarrow> (Inl e, w2) | Inr (stamps, _) \<Rightarrow> (Inr stamps, w2))"
      using some t by (simp split: sum.split prod.split)
    from reserve_spec [OF clock_decode_ok [OF assms(1)] historical_times [OF some(1)]]
    show ?thesis
    proof (elim disjE exE conjE)
      assume "reserve ?ms d = Inl CounterExhausted"
      from store.transact_refused [where change = "reserve ?ms", OF assms(1) this, of atomic ok i st]
      show ?thesis using t run assms(3) Historical by (auto simp: Let_def)
    next
      fix d' assume d': "d' = d\<lparr> sc_historicalCounter := sc_historicalCounter d + int (length ?ms),
        sc_last := latestOf (sc_last d) (reserved ?ms d) \<rparr>" and "reserve ?ms d = Inr (reserved ?ms d, Some d')" "clock_ok d'"
      from store.transact_changed [where change = "reserve ?ms", OF assms(1) this(2,3) t]
      show ?thesis using run assms(3) Historical d' by (auto simp: Let_def)
    qed
  qed
next
  case (See s)
  obtain r1 w2 where t: "change_clock E atomic ok i (seeChange (copyStamp s)) st w = (r1, w2)"
    by (cases "change_clock E atomic ok i (seeChange (copyStamp s)) st w")
  have run: "clock_run E I atomic ok i st (See s) w =
    (if \<not> validStamp s then (Inl BadStamp, w) else case r1 of Inl e \<Rightarrow> (Inl e, w2) | Inr _ \<Rightarrow> (Inr [], w2))"
    using t by simp
  show ?thesis
  proof (cases "validStamp s")
    case bad: False
    then show ?thesis using run assms(1,3) See by auto
  next
    case valid: True
    show ?thesis
    proof (cases "0 < compareStamps (copyStamp s) (sc_last d)")
      case True
      then have "clock_ok (d\<lparr> sc_last := copyStamp s \<rparr>)"
        using clock_decode_ok [OF assms(1)] valid validStamp_iff [of s] by (auto simp: clock_ok_def)
      from store.transact_changed [OF assms(1) _ this t, of "[]"] show ?thesis
        using True valid run assms(3) See by (auto simp: seeChange_def latestOf_def)
    next
      case False
      then show ?thesis
        using store.transact_unchanged [OF assms(1) _ t, of "[]"] valid run assms(1,3) See
        by (auto simp: seeChange_def latestOf_def)
    qed
  qed
next
  case Current
  obtain r1 w2 where t: "change_clock E atomic ok i (\<lambda>_. Inr ([], None)) st w = (r1, w2)"
    by (cases "change_clock E atomic ok i (\<lambda>_. Inr ([], None)) st w")
  from store.transact_unchanged [OF assms(1) _ t, of "[]"] show ?thesis
    using assms(3) Current t by auto
qed (use assms(4) in simp)

lemma open_spec:
  assumes "openClockStore E atomic ok legacy created i w = (r, w1)"
  shows "(\<exists>e. r = Inl e) \<and> insts w1 = insts w \<and> (durable_clock E w \<noteq> None \<longrightarrow> durable_clock E w1 = durable_clock E w) \<or>
    r = Inr [] \<and> (\<exists>d. durable_clock E w1 = Some d \<and> (durable_clock E w = Some d \<or>
       durable_clock E w = None \<and> seed legacy created = Inr d))"
proof (cases "durable_clock E w")
  case (Some d)
  then obtain bytes where "cell w = Some bytes" by (cases "cell w") (simp_all add: clock_decode_def)
  with Some assms show ?thesis
    by (cases atomic; cases ok) (auto simp: openClockStore_def open_atomic_def open_locked_def vault_update_def)
next
  case None
  show ?thesis
  proof (cases "seed legacy created")
    case (Inl e)
    with None assms show ?thesis
      by (cases atomic; cases "cell w")
        (auto simp: openClockStore_def open_atomic_def open_locked_def vault_update_def)
  next
    case (Inr d)
    then have "clock_decode E (Some (clock_encode E d)) = Some d" by (intro clock_decode_encode seed_ok)
    with None Inr assms show ?thesis
      by (cases atomic; cases ok; cases "cell w")
        (auto simp: openClockStore_def open_atomic_def open_locked_def vault_update_def vault_put_def)
  qed
qed


section \<open>Any number of instances over one vault\<close>

type_synonym clock_log = "(clock_call \<times> (clock_error + stamp list)) list"

definition stored_or :: "js_env \<Rightarrow> stored_clock \<Rightarrow> clock_world \<Rightarrow> stored_clock" where
  "stored_or E st w = (case durable_clock E w of Some d \<Rightarrow> d | None \<Rightarrow> st)"

inductive clock_step ::
  "js_env \<Rightarrow> (stamp \<Rightarrow> int \<Rightarrow> string \<Rightarrow> stamp) \<Rightarrow> bool \<Rightarrow> clock_world \<times> clock_log \<Rightarrow> clock_world \<times> clock_log \<Rightarrow> bool"
  for E :: js_env and I :: "stamp \<Rightarrow> int \<Rightarrow> string \<Rightarrow> stamp" and atomic :: bool where
  step_open: "insts w i = None \<Longrightarrow> openClockStore E atomic ok legacy created i w = (r, w1) \<Longrightarrow>
    clock_step E I atomic (w, h) (w1, h @ [(Open legacy created, r)])"
| step_call: "insts w i = Some st \<Longrightarrow> \<not> is_open call \<Longrightarrow> fits I call (stored_or E st w) \<Longrightarrow>
    clock_run E I atomic ok i st call w = (r, w1) \<Longrightarrow> clock_step E I atomic (w, h) (w1, h @ [(call, r)])"

definition clock_start :: "clock_world \<times> clock_log \<Rightarrow> bool" where
  "clock_start s \<longleftrightarrow> (\<forall>i. insts (fst s) i = None) \<and> snd s = []"

text \<open>The stamps the clock has answered with or been shown, and those reserved for imported events.\<close>

fun known_of :: "clock_call \<times> (clock_error + stamp list) \<Rightarrow> stamp list" where
  "known_of (See s, Inr _) = [copyStamp s]"
| "known_of (_, Inr ss) = ss"
| "known_of (_, Inl _) = []"

fun reserved_of :: "clock_call \<times> (clock_error + stamp list) \<Rightarrow> stamp list" where
  "reserved_of (Historical _, Inr ss) = ss"
| "reserved_of _ = []"

abbreviation known :: "clock_log \<Rightarrow> stamp list" where
  "known h \<equiv> concat (map known_of h)"

abbreviation reservations :: "clock_log \<Rightarrow> stamp list" where
  "reservations h \<equiv> concat (map reserved_of h)"

definition issues_later :: "clock_log \<Rightarrow> bool" where
  "issues_later h \<longleftrightarrow> (\<forall>before now s after. h = before @ (Issue now, Inr [s]) # after \<longrightarrow>
     (\<forall>x \<in> set (known before). 0 < compareStamps s x))"

definition clock_inv :: "js_env \<Rightarrow> clock_world \<times> clock_log \<Rightarrow> bool" where
  "clock_inv E s \<longleftrightarrow>
    (case s of (w, h) \<Rightarrow>
      issues_later h \<and> distinct (reservations h) \<and>
      ((\<forall>i. insts w i = None) \<and> known h = [] \<and> reservations h = [] \<or>
       (\<exists>d. durable_clock E w = Some d \<and> (\<forall>x \<in> set (known h). \<not> 0 < compareStamps x (sc_last d)) \<and>
          (\<forall>x \<in> set (reservations h). fst (snd x) \<le> sc_historicalCounter d))))"

definition later_issuer :: "(stamp \<Rightarrow> int \<Rightarrow> string \<Rightarrow> stamp) \<Rightarrow> bool" where
  "later_issuer I \<longleftrightarrow> (\<forall>s now d. 0 < compareStamps (I s now d) s \<and> snd (snd (I s now d)) = d)"

lemma issues_later_snoc:
  "issues_later (h @ [e]) \<longleftrightarrow> issues_later h \<and>
     (\<forall>now s. e = (Issue now, Inr [s]) \<longrightarrow> (\<forall>x \<in> set (known h). 0 < compareStamps s x))"
proof (intro iffI conjI allI impI)
  assume l: "issues_later (h @ [e])"
  show "issues_later h"
    unfolding issues_later_def
  proof (intro allI impI)
    fix before now s after assume "h = before @ (Issue now, Inr [s]) # after"
    then have "h @ [e] = before @ (Issue now, Inr [s]) # (after @ [e])" by simp
    with l show "\<forall>x \<in> set (known before). 0 < compareStamps s x" unfolding issues_later_def by blast
  qed
  fix now s assume "e = (Issue now, Inr [s])"
  then have "h @ [e] = h @ (Issue now, Inr [s]) # []" by simp
  with l show "\<forall>x \<in> set (known h). 0 < compareStamps s x" unfolding issues_later_def by blast
next
  assume l: "issues_later h \<and> (\<forall>now s. e = (Issue now, Inr [s]) \<longrightarrow> (\<forall>x \<in> set (known h). 0 < compareStamps s x))"
  show "issues_later (h @ [e])"
    unfolding issues_later_def
  proof (intro allI impI)
    fix before now s after assume h: "h @ [e] = before @ (Issue now, Inr [s]) # after"
    show "\<forall>x \<in> set (known before). 0 < compareStamps s x"
    proof (cases after rule: rev_cases)
      case Nil
      with h have "h = before" and "e = (Issue now, Inr [s])" by simp_all
      with l show ?thesis by blast
    next
      case (snoc after' e')
      with h have "h = before @ (Issue now, Inr [s]) # after'" by simp
      with l show ?thesis unfolding issues_later_def by blast
    qed
  qed
qed

lemma latestOf_ge: "\<not> 0 < compareStamps z (latestOf z ss)" "x \<in> set ss \<Longrightarrow> \<not> 0 < compareStamps x (latestOf z ss)"
  using stamps.latest_ge [of z ss] stamps.latest_max [of x ss z] unfolding latestOf_def stamps.latest_def by auto

lemma clock_spec_grows:
  assumes "later_issuer I"
  shows "\<not> 0 < compareStamps (sc_last d) (sc_last (snd (clock_spec I call d)))"
    and "sc_historicalCounter d \<le> sc_historicalCounter (snd (clock_spec I call d))"
    and "x \<in> set (known_of (call, Inr (fst (clock_spec I call d)))) \<Longrightarrow>
      \<not> 0 < compareStamps x (sc_last (snd (clock_spec I call d)))"
proof -
  have "0 < compareStamps (I (sc_last d) now (sc_device d)) (sc_last d)" for now
    using assms unfolding later_issuer_def by blast
  then have i: "\<not> 0 < compareStamps (sc_last d) (I (sc_last d) now (sc_device d))" for now
    using stamps.later_not by blast
  show "\<not> 0 < compareStamps (sc_last d) (sc_last (snd (clock_spec I call d)))"
    by (cases call) (simp_all add: Let_def i latestOf_ge(1))
  show "sc_historicalCounter d \<le> sc_historicalCounter (snd (clock_spec I call d))"
    by (cases call) (simp_all add: Let_def)
  show "\<not> 0 < compareStamps x (sc_last (snd (clock_spec I call d)))"
    if "x \<in> set (known_of (call, Inr (fst (clock_spec I call d))))"
    using that by (cases call) (auto simp: Let_def latestOf_ge(2))
qed

lemma reserved_counters:
  "map (\<lambda>s. fst (snd s)) (reserved ms d) = map (\<lambda>k. sc_historicalCounter d + int k + 1) [0..<length ms]"
  by (rule nth_equalityI) (simp_all add: reserved_def)

lemma reserved_distinct: "distinct (reserved ms d)"
proof -
  have "distinct (map (\<lambda>s. fst (snd s)) (reserved ms d))"
    unfolding reserved_counters by (simp add: distinct_map inj_on_def)
  then show ?thesis by (simp add: distinct_map)
qed

lemma reserved_counter_range:
  assumes "x \<in> set (reserved ms d)"
  shows "sc_historicalCounter d < fst (snd x) \<and> fst (snd x) \<le> sc_historicalCounter d + int (length ms)"
proof -
  have "fst (snd x) \<in> set (map (\<lambda>s. fst (snd s)) (reserved ms d))" using assms by force
  then show ?thesis unfolding reserved_counters by auto
qed

lemma reserved_of_spec:
  "distinct (reserved_of (call, Inr (fst (clock_spec I call d)))) \<and>
   (\<forall>x \<in> set (reserved_of (call, Inr (fst (clock_spec I call d)))).
      sc_historicalCounter d < fst (snd x) \<and> fst (snd x) \<le> sc_historicalCounter (snd (clock_spec I call d)))"
proof (cases call)
  case (Historical ms)
  then show ?thesis
    using reserved_distinct reserved_counter_range [of _ "map (\<lambda>v. \<lfloor>ratOf v\<rfloor>) ms" d]
    by (auto simp: Let_def)
qed simp_all

lemma clock_inv_step:
  assumes "later_issuer I" and "clock_inv E s" and "clock_step E I atomic s t"
  shows "clock_inv E t"
  using assms(3)
proof cases
  case (step_open w i ok legacy created r w1 h)
  have inv: "issues_later h" "distinct (reservations h)"
    "(\<forall>i. insts w i = None) \<and> known h = [] \<and> reservations h = [] \<or>
       (\<exists>d. durable_clock E w = Some d \<and> (\<forall>x \<in> set (known h). \<not> 0 < compareStamps x (sc_last d)) \<and>
          (\<forall>x \<in> set (reservations h). fst (snd x) \<le> sc_historicalCounter d))"
    using assms(2) step_open(1) by (auto simp: clock_inv_def)
  note spec = open_spec [OF step_open(4)]
  have none: "known_of (Open legacy created, r) = []" "reserved_of (Open legacy created, r) = []"
    using spec by auto
  have "issues_later (h @ [(Open legacy created, r)])" using inv(1) by (simp add: issues_later_snoc)
  moreover have "(\<forall>i. insts w1 i = None) \<and> known h = [] \<and> reservations h = [] \<or>
       (\<exists>d. durable_clock E w1 = Some d \<and> (\<forall>x \<in> set (known h). \<not> 0 < compareStamps x (sc_last d)) \<and>
          (\<forall>x \<in> set (reservations h). fst (snd x) \<le> sc_historicalCounter d))"
    using spec inv(3) by auto
  ultimately show ?thesis
    unfolding step_open(2) clock_inv_def using inv(2) none by simp
next
  case (step_call w i st call ok r w1 h)
  obtain d where d: "durable_clock E w = Some d" and inv: "issues_later h" "distinct (reservations h)"
    and below: "\<forall>x \<in> set (known h). \<not> 0 < compareStamps x (sc_last d)"
    and count: "\<forall>x \<in> set (reservations h). fst (snd x) \<le> sc_historicalCounter d"
    using assms(2) step_call(1,3) by (auto simp: clock_inv_def)
  have fit: "fits I call d" using step_call(5) d by (simp add: stored_or_def)
  from clock_run_spec [OF d fit step_call(6,4)] show ?thesis
  proof
    assume "(\<exists>e. r = Inl e) \<and> durable_clock E w1 = Some d"
    then obtain e where "r = Inl e" "durable_clock E w1 = Some d" by blast
    then show ?thesis
      unfolding step_call(2) clock_inv_def using inv below count by (simp add: issues_later_snoc)
  next
    let ?d = "snd (clock_spec I call d)" and ?e = "(call, Inr (fst (clock_spec I call d)) :: clock_error + stamp list)"
    assume "r = Inr (fst (clock_spec I call d)) \<and> durable_clock E w1 = Some ?d"
    then have e: "(call, r) = ?e" and d': "durable_clock E w1 = Some ?d" by simp_all
    note grow = clock_spec_grows [OF assms(1), where call = call and d = d]
    have "\<forall>x \<in> set (known h). 0 < compareStamps s x" if "?e = (Issue now, Inr [s])" for now s
    proof -
      have "s = I (sc_last d) now (sc_device d)" using that by (auto simp: Let_def)
      then have "0 < compareStamps s (sc_last d)" using assms(1) unfolding later_issuer_def by blast
      then show ?thesis using below stamps.later_trans by blast
    qed
    then have "issues_later (h @ [?e])" using inv(1) by (simp only: issues_later_snoc) blast
    moreover have "distinct (reservations (h @ [?e]))"
      using inv(2) reserved_of_spec [of call I d] count by fastforce
    moreover have "\<forall>x \<in> set (known (h @ [?e])). \<not> 0 < compareStamps x (sc_last ?d)"
    proof
      fix x assume "x \<in> set (known (h @ [?e]))"
      then consider "x \<in> set (known h)" | "x \<in> set (known_of ?e)" by auto
      then show "\<not> 0 < compareStamps x (sc_last ?d)"
      proof cases
        case 1
        with below have "\<not> 0 < compareStamps x (sc_last d)" by blast
        then show ?thesis by (rule stamps.not_later_trans [OF _ grow(1)])
      next
        case 2
        then show ?thesis by (rule grow(3))
      qed
    qed
    moreover have "\<forall>x \<in> set (reservations (h @ [?e])). fst (snd x) \<le> sc_historicalCounter ?d"
      using count grow(2) reserved_of_spec [of call I d] by fastforce
    ultimately show ?thesis unfolding step_call(2) e clock_inv_def using d' by blast
  qed
qed


interpretation clk: stepping "\<lambda>s. later_issuer I \<and> clock_start s" "clock_step E I atomic"
  "\<lambda>s. later_issuer I \<and> clock_inv E s" for E I atomic
proof unfold_locales
  fix s :: "clock_world \<times> clock_log"
  assume "later_issuer I \<and> clock_start s"
  then show "later_issuer I \<and> clock_inv E s"
    by (cases s) (auto simp: clock_start_def clock_inv_def issues_later_def)
qed (use clock_inv_step in blast)

section \<open>Properties\<close>

text \<open>C8: A device never issues two stamps out of order: in any run of any number of tabs and workers over
  one vault, with writes that fail at any point, a stamp that \<open>issue\<close> answers is later than every
  stamp the clock had answered before (issued, reserved or read) and than every stamp it was shown.
  Relied on of den-core: the stamp it issues is later than the last one and carries the device.\<close>

theorem clock_stamps_ordered:
  assumes "later_issuer I" and "clock_start s"
    and "(clock_step E I atomic)\<^sup>*\<^sup>* s (w, before @ (Issue now, Inr [t]) # after)" and "x \<in> set (known before)"
  shows "0 < compareStamps t x"
proof -
  have "clock_inv E (w, before @ (Issue now, Inr [t]) # after)"
    using clk.inv_reachable [of I s E atomic] assms(1-3) by blast
  then have "issues_later (before @ (Issue now, Inr [t]) # after)" by (simp add: clock_inv_def)
  then show ?thesis using assms(4) unfolding issues_later_def by blast
qed

text \<open>C33: Stamps reserved for imported events never meet each other: over a whole run, across calls,
  instances and failed writes, all reserved stamps are distinct, however many events share a time.\<close>

theorem historical_distinct:
  assumes "later_issuer I" and "clock_start s" and "(clock_step E I atomic)\<^sup>*\<^sup>* s (w, h)"
  shows "distinct (reservations h)"
  using clk.inv_reachable [of I s E atomic "(w, h)"] assms by (simp add: clock_inv_def)

text \<open>C16: The vault alone decides. Both ways of writing, the atomic update and the locked read and write,
  carry out the same specification on the state the vault holds, whatever the instance remembers: an
  operation answers an error and the stored state stays, or it answers and stores what is specified.\<close>

theorem clock_refines:
  assumes "clock_decode E (cell w) = Some d" and "fits I call d" and "\<not> is_open call"
  shows "let (r, w1) = clock_run E I atomic ok i st call w; (ss, d') = clock_spec I call d in
     (\<exists>e. r = Inl e) \<and> clock_decode E (cell w1) = Some d \<or> r = Inr ss \<and> clock_decode E (cell w1) = Some d'"
proof -
  obtain r w1 where run: "clock_run E I atomic ok i st call w = (r, w1)"
    by (cases "clock_run E I atomic ok i st call w")
  from clock_run_spec [OF assms(1,2) run assms(3)] show ?thesis by (simp add: run split_def Let_def)
qed

text \<open>A stored clock reads back as it was written exactly when it is well formed: a device of 16
  hexadecimal digits, and times and counters that are safe integers.\<close>

theorem clock_roundtrip:
  "clock_decode E (Some (clock_encode E st)) = Some st \<longleftrightarrow> clock_ok st"
  using clock_decode_encode clock_decode_ok by blast

section \<open>A run\<close>

text \<open>A concrete issuer for the examples below, in the place of den-core: the later of the last stamp and now, counting up
  within a millisecond.\<close>

definition demo_issue :: "stamp \<Rightarrow> int \<Rightarrow> string \<Rightarrow> stamp" where
  "demo_issue s now d = (if fst s < now then (now, 0, d) else (fst s, fst (snd s) + 1, d))"

lemma demo_issue_apply: "demo_issue (a, b, c) now d = (if a < now then (now, 0, d) else (a, b + 1, d))"
  by (simp add: demo_issue_def)

lemma demo_issue_later: "later_issuer demo_issue"
  by (auto simp: later_issuer_def demo_issue_def)

definition demo_device :: string where "demo_device = ''0123456789abcdef''"

definition demo_clock :: "stamp \<Rightarrow> int \<Rightarrow> stored_clock" where
  "demo_clock s n = \<lparr> sc_device = demo_device, sc_last = s, sc_historicalCounter = n \<rparr>"

definition demo_world :: "js_env \<Rightarrow> stamp \<Rightarrow> int \<Rightarrow> clock_world" where
  "demo_world E s n = \<lparr> cell = Some (clock_encode E (demo_clock s n)), insts = [0 \<mapsto> demo_clock s n] \<rparr>"

lemma demo_clock_ok: "stamp_ok s \<Longrightarrow> safe_nat n \<Longrightarrow> clock_ok (demo_clock s n)"
  by (simp add: clock_ok_def demo_clock_def demo_device_def re_exactly_def char_classes)

lemma demo_decode: "stamp_ok s \<Longrightarrow> safe_nat n \<Longrightarrow> clock_decode E (Some (clock_encode E (demo_clock s n))) = Some (demo_clock s n)"
  by (intro clock_decode_encode demo_clock_ok) simp_all

lemma demo_open:
  "clock_step E I True (\<lparr> cell = None, insts = Map.empty \<rparr>, [])
     (demo_world E (0, 0, []) 0, [(Open JUndef demo_device, Inr [])])"
proof -
  have seed: "seed JUndef demo_device = Inr (demo_clock (0, 0, []) 0)"
    by (simp add: seed_def validDevice_def demo_device_def demo_clock_def re_exactly_def char_classes)
  have none: "clock_decode E None = None" by (simp add: clock_decode_def)
  have "openClockStore E True True JUndef demo_device 0 \<lparr> cell = None, insts = Map.empty \<rparr> =
    (Inr [], demo_world E (0, 0, []) 0)"
    using demo_decode [of "(0, 0, [])" 0 E]
    by (simp add: openClockStore_def open_atomic_def vault_update_def seed none demo_world_def)
  then show ?thesis using step_open [of "\<lparr> cell = None, insts = Map.empty \<rparr>" 0 E True True JUndef demo_device "Inr []" _ I "[]"]
    by simp
qed

lemma demo_change:
  assumes "stamp_ok s" and "safe_nat n" and "change (demo_clock s n) = Inr (out, Some (demo_clock s' n'))"
    and "stamp_ok s'" and "safe_nat n'"
  shows "change_clock E True (True, True) 0 change (demo_clock s n) (demo_world E s n) =
    (Inr (out, demo_clock s' n'), demo_world E s' n')"
  using assms(3) demo_decode [OF assms(1,2), of E] demo_decode [OF assms(4,5), of E]
  by (simp add: change_clock_def atomically_def vault_update_def demo_world_def)

lemma demo_call:
  assumes "clock_run E I True (True, True) 0 (demo_clock s n) call (demo_world E s n) = (r, demo_world E s' n')"
    and "\<not> is_open call" and "fits I call (demo_clock s n)" and "stamp_ok s" and "safe_nat n"
  shows "clock_step E I True (demo_world E s n, h) (demo_world E s' n', h @ [(call, r)])"
proof (rule step_call [OF _ assms(2) _ assms(1)])
  show "insts (demo_world E s n) 0 = Some (demo_clock s n)" by (simp add: demo_world_def)
  show "fits I call (stored_or E (demo_clock s n) (demo_world E s n))"
    using assms(3) demo_decode [OF assms(4,5), of E] by (simp add: stored_or_def demo_world_def)
qed

lemma demo_issued:
  assumes "stamp_ok s" and "safe_nat n" and "s' = demo_issue s now demo_device" and "stamp_ok s'"
  shows "clock_step E demo_issue True (demo_world E s n, h) (demo_world E s' n, h @ [(Issue now, Inr [s'])])"
proof (rule demo_call)
  have "issueChange demo_issue now (demo_clock s n) = Inr ([], Some (demo_clock s' n))"
    by (simp add: issueChange_def demo_clock_def assms(3))
  from demo_change [where change = "issueChange demo_issue now", OF assms(1,2) this assms(4,2), of E]
  show "clock_run E demo_issue True (True, True) 0 (demo_clock s n) (Issue now) (demo_world E s n) =
    (Inr [s'], demo_world E s' n)" by (simp add: demo_clock_def)
qed (use assms in \<open>simp_all add: demo_clock_def\<close>)

lemma demo_run:
  "(clock_step E demo_issue True)\<^sup>*\<^sup>* (\<lparr> cell = None, insts = Map.empty \<rparr>, [])
    (demo_world E (200, 0, demo_device) 0,
     [(Open JUndef demo_device, Inr []), (Issue 100, Inr [(100, 0, demo_device)]),
      (Issue 100, Inr [(100, 1, demo_device)]), (Issue 200, Inr [(200, 0, demo_device)])])"
proof -
  note one = demo_issued [of "(0, 0, [])" 0 "(100, 0, demo_device)" 100 E "[(Open JUndef demo_device, Inr [])]"]
  note two = demo_issued [of "(100, 0, demo_device)" 0 "(100, 1, demo_device)" 100 E]
  note three = demo_issued [of "(100, 1, demo_device)" 0 "(200, 0, demo_device)" 200 E]
  have "(clock_step E demo_issue True)\<^sup>*\<^sup>* (\<lparr> cell = None, insts = Map.empty \<rparr>, [])
    (demo_world E (0, 0, []) 0, [(Open JUndef demo_device, Inr [])])"
    using demo_open by (rule r_into_rtranclp)
  from rtranclp.rtrancl_into_rtrancl [OF this one]
  have "(clock_step E demo_issue True)\<^sup>*\<^sup>* (\<lparr> cell = None, insts = Map.empty \<rparr>, [])
    (demo_world E (100, 0, demo_device) 0, [(Open JUndef demo_device, Inr []), (Issue 100, Inr [(100, 0, demo_device)])])"
    by (simp add: demo_issue_apply)
  from rtranclp.rtrancl_into_rtrancl [OF this two]
  have "(clock_step E demo_issue True)\<^sup>*\<^sup>* (\<lparr> cell = None, insts = Map.empty \<rparr>, [])
    (demo_world E (100, 1, demo_device) 0, [(Open JUndef demo_device, Inr []), (Issue 100, Inr [(100, 0, demo_device)]),
      (Issue 100, Inr [(100, 1, demo_device)])])"
    by (simp add: demo_issue_apply)
  from rtranclp.rtrancl_into_rtrancl [OF this three] show ?thesis by (simp add: demo_issue_apply)
qed

lemma demo_import:
  "(clock_step E demo_issue True)\<^sup>*\<^sup>* (\<lparr> cell = None, insts = Map.empty \<rparr>, [])
    (demo_world E (200, 0, demo_device) 2,
     [(Open JUndef demo_device, Inr []), (Issue 100, Inr [(100, 0, demo_device)]),
      (Issue 100, Inr [(100, 1, demo_device)]), (Issue 200, Inr [(200, 0, demo_device)]),
      (Historical [jint 100, jint 100], Inr [(100, 1, demo_device), (100, 2, demo_device)])])"
proof -
  have change: "reserve [100, 100] (demo_clock (200, 0, demo_device) 0) =
    Inr ([(100, 1, demo_device), (100, 2, demo_device)], Some (demo_clock (200, 0, demo_device) 2))"
    by (simp add: reserve_def reserved_def demo_clock_def MAX_SAFE_INTEGER_def)
  have "clock_run E demo_issue True (True, True) 0 (demo_clock (200, 0, demo_device) 0)
    (Historical [jint 100, jint 100]) (demo_world E (200, 0, demo_device) 0) =
    (Inr [(100, 1, demo_device), (100, 2, demo_device)], demo_world E (200, 0, demo_device) 2)"
    using demo_change [where change = "reserve [100, 100]" and E = E, OF _ _ change] by (simp add: MAX_SAFE_INTEGER_def)
  from demo_call [OF this, where h = "[(Open JUndef demo_device, Inr []), (Issue 100, Inr [(100, 0, demo_device)]),
      (Issue 100, Inr [(100, 1, demo_device)]), (Issue 200, Inr [(200, 0, demo_device)])]"]
  show ?thesis using rtranclp.rtrancl_into_rtrancl [OF demo_run [of E]] by simp
qed

lemma demo_start: "clock_start (\<lparr> cell = None, insts = Map.empty \<rparr>, [])"
  by (simp add: clock_start_def)

theorem clock_stamps_ordered_witness: "0 < compareStamps (200, 0, demo_device) (100, 1, demo_device)"
  using clock_stamps_ordered [OF demo_issue_later demo_start, of plain_env True _
      "[(Open JUndef demo_device, Inr []), (Issue 100, Inr [(100, 0, demo_device)]), (Issue 100, Inr [(100, 1, demo_device)])]"
      200 "(200, 0, demo_device)" "[]"] demo_run [of plain_env]
  by simp

theorem historical_distinct_witness:
  "distinct (reservations [(Open JUndef demo_device, Inr []), (Issue 100, Inr [(100, 0, demo_device)]),
      (Issue 100, Inr [(100, 1, demo_device)]), (Issue 200, Inr [(200, 0, demo_device)]),
      (Historical [jint 100, jint 100], Inr [(100, 1, demo_device), (100, 2, demo_device)])])"
  by (rule historical_distinct [OF demo_issue_later demo_start demo_import [of plain_env]])

theorem clock_refines_witness:
  "let (r, w1) = clock_run plain_env demo_issue False (True, False) 3 (demo_clock (0, 0, []) 7) (Issue 5)
       (demo_world plain_env (100, 0, demo_device) 0);
     (ss, d') = clock_spec demo_issue (Issue 5) (demo_clock (100, 0, demo_device) 0) in
     (\<exists>e. r = Inl e) \<and> clock_decode plain_env (cell w1) = Some (demo_clock (100, 0, demo_device) 0) \<or>
     r = Inr ss \<and> clock_decode plain_env (cell w1) = Some d'"
  using clock_refines [where w = "demo_world plain_env (100, 0, demo_device) 0" and E = plain_env
      and d = "demo_clock (100, 0, demo_device) 0" and I = demo_issue and call = "Issue 5" and atomic = False
      and ok = "(True, False)" and i = 3 and st = "demo_clock (0, 0, []) 7"]
    demo_decode [of "(100, 0, demo_device)" 0 plain_env]
  by (simp add: demo_world_def) (simp add: demo_clock_def demo_issue_def)

text \<open>Reserved stamps may meet issued ones. Two stamps issued in one millisecond, then an import of an
  event at that millisecond: the reserved stamp is the second of the two.\<close>

theorem reserved_meets_issued:
  "\<exists>w h s. (clock_step E demo_issue True)\<^sup>*\<^sup>* (\<lparr> cell = None, insts = Map.empty \<rparr>, []) (w, h) \<and>
     (Issue 100, Inr [s]) \<in> set h \<and> s \<in> set (reservations h)"
proof (intro exI conjI)
  show "(Issue 100, Inr [(100, 1, demo_device)]) \<in> set [(Open JUndef demo_device, Inr []),
      (Issue 100, Inr [(100, 0, demo_device)]), (Issue 100, Inr [(100, 1, demo_device)]),
      (Issue 200, Inr [(200, 0, demo_device)]),
      (Historical [jint 100, jint 100], Inr [(100, 1, demo_device), (100, 2, demo_device)])]" by simp
qed (rule demo_import, simp)

end
