(* ===== verification/LocalValue.thy ===== *)
theory LocalValue
  imports JsonText
begin

text \<open>
  \<^verbatim>\<open>web/src/lib/libraryLocalValue.ts\<close>: how a value is sealed for the vault. The cipher is Web Crypto's
  AES-GCM, a parameter: \<open>aead\<close> names what is relied on of it, that decrypting under the same nonce
  and associated data gives the plain text back, and that a sealed text is at least its tag long.
\<close>

record cipher =
  c_encrypt :: "nat list \<Rightarrow> nat list \<Rightarrow> nat list \<Rightarrow> nat list"
  c_decrypt :: "nat list \<Rightarrow> nat list \<Rightarrow> nat list \<Rightarrow> nat list option"

definition aead :: "cipher \<Rightarrow> bool" where
  "aead C \<longleftrightarrow> (\<forall>iv aad plain. c_decrypt C iv aad (c_encrypt C iv aad plain) = Some plain \<and>
     16 \<le> length (c_encrypt C iv aad plain))"

text \<open>The nonce is drawn at random by the caller's platform. \<open>TextEncoder\<close> encodes \<open>undefined\<close>, the
  serialisation of a value that has none, as no bytes.\<close>

definition sealLibraryLocalValue :: "js_env \<Rightarrow> cipher \<Rightarrow> nat list \<Rightarrow> string \<Rightarrow> jsval \<Rightarrow> nat list" where
  "sealLibraryLocalValue E C iv aad v =
     iv @ c_encrypt C iv (utf8_encode aad) (utf8_encode (json_text E v))"

definition openLibraryLocalValue :: "js_env \<Rightarrow> cipher \<Rightarrow> string \<Rightarrow> nat list \<Rightarrow> jsval option" where
  "openLibraryLocalValue E C aad bytes =
    (if length bytes < 13 then None
     else case c_decrypt C (take 12 bytes) (utf8_encode aad) (drop 12 bytes) of
            None \<Rightarrow> None
          | Some plain \<Rightarrow> (case utf8_decode plain of None \<Rightarrow> None | Some s \<Rightarrow> json_parse E s))"

lemma sealed_opens:
  assumes "aead C" and "length iv = 12" and "json_plain v"
  shows "openLibraryLocalValue E C aad (sealLibraryLocalValue E C iv aad v) = Some v"
proof -
  let ?s = "c_encrypt C iv (utf8_encode aad) (utf8_encode (json_text E v))"
  have "c_decrypt C iv (utf8_encode aad) ?s = Some (utf8_encode (json_text E v))" and "16 \<le> length ?s"
    using assms(1) by (simp_all add: aead_def)
  moreover from this(2) have "?s \<noteq> []" by auto
  ultimately show ?thesis
    using assms(2) json_roundtrip [OF assms(3), of E]
    by (simp add: openLibraryLocalValue_def sealLibraryLocalValue_def)
qed

text \<open>C37: A value sealed for the vault opens to itself, whatever its nesting and text: numbers that are
  safe integers, strings with any escapes, objects in enumeration order.\<close>

theorem local_value_roundtrip:
  assumes "aead C" and "length iv = 12" and "json_plain v"
  shows "openLibraryLocalValue E C name (sealLibraryLocalValue E C iv name v) = Some v"
  by (rule sealed_opens [OF assms])

text \<open>A cipher that only appends a tag.\<close>

definition tag_cipher :: cipher where
  "tag_cipher = \<lparr> c_encrypt = (\<lambda>iv aad plain. replicate 16 0 @ plain), c_decrypt = (\<lambda>iv aad bytes. Some (drop 16 bytes)) \<rparr>"

lemma tag_cipher_aead: "aead tag_cipher"
  by (simp add: aead_def tag_cipher_def)

theorem local_value_roundtrip_witness:
  "openLibraryLocalValue plain_env tag_cipher ''n'' (sealLibraryLocalValue plain_env tag_cipher (replicate 12 7) ''n''
     (JArr [jint 5, JStr [CHR 0x22, CHR 0x0A], JObj [(''a'', JBool True)]])) =
   Some (JArr [jint 5, JStr [CHR 0x22, CHR 0x0A], JObj [(''a'', JBool True)]])"
  using isSafeInteger_jint [of 5]
  by (intro local_value_roundtrip tag_cipher_aead) (simp_all del: isSafeInteger.simps)

end
