(* ===== verification/OperationJournal.thy ===== *)
theory OperationJournal
  imports LocalValue CoreFacts "HOL-Library.While_Combinator"
begin

text \<open>
  \<^verbatim>\<open>web/src/lib/libraryOperationAuthority.ts\<close>: the durable journal of operations around the authority,
  with \<open>LibraryLog\<close>'s \<open>keep\<close> and \<open>kept\<close> (\<^verbatim>\<open>log.ts\<close>) below it. An operation leaves an intent in the
  journal before its effect and a receipt after it; a repeated operation is answered from the
  receipt. The journal is one sealed value of the vault, so it outlives the worker. SHA-256 is Web
  Crypto's, a parameter. One operation holds the lock of its library: it is one function.
\<close>

section \<open>Kept values\<close>

text \<open>The wrapped authority's world, the vault's values, and how many writes were attempted.\<close>

record 'w jworld =
  j_inner :: 'w
  j_vault :: "(string, nat list) jmap"
  j_writes :: nat

text \<open>What the platform supplies: the cipher, SHA-256, the nonce of each write and what it rejects with;
  the library's id, and whether it has local storage.\<close>

record host =
  h_cipher :: cipher
  h_sha256 :: "nat list \<Rightarrow> nat list"
  h_nonce :: "nat \<Rightarrow> nat list"
  h_putError :: "nat \<Rightarrow> thrown option"
  h_libraryId :: string
  h_local :: bool

definition vaultKey :: "host \<Rightarrow> string \<Rightarrow> string" where
  "vaultKey H name = h_libraryId H @ '':'' @ name"

definition log_keep :: "js_env \<Rightarrow> host \<Rightarrow> string \<Rightarrow> jsval \<Rightarrow> 'w jworld \<Rightarrow> (thrown + unit) \<times> 'w jworld" where
  "log_keep E H name v w =
    (if \<not> h_local H then (Inr (), w)
     else let n = j_writes w; w1 = w\<lparr> j_writes := Suc n \<rparr> in
       case h_putError H n of
         None \<Rightarrow> (Inr (), w1\<lparr> j_vault := jm_set (vaultKey H name)
                    (sealLibraryLocalValue E (h_cipher H) (h_nonce H n) name v) (j_vault w) \<rparr>)
       | Some e \<Rightarrow> (Inl e, w1))"

text \<open>\<open>kept\<close>, for reads that succeed: the source takes a \<open>vault.get\<close> that rejects for a value that is not there.\<close>

definition log_kept :: "js_env \<Rightarrow> host \<Rightarrow> string \<Rightarrow> 'w jworld \<Rightarrow> jsval" where
  "log_kept E H name w =
    (if \<not> h_local H then JUndef
     else case jm_get (j_vault w) (vaultKey H name) of
            None \<Rightarrow> JUndef
          | Some bytes \<Rightarrow>
              (case openLibraryLocalValue E (h_cipher H) name bytes of None \<Rightarrow> JUndef | Some v \<Rightarrow> v))"

section \<open>Entries\<close>

datatype operation_kind = CommandKind | TaskKind

text \<open>An entry without a result is an intent, one with a result is complete.\<close>

record entry =
  e_kind :: operation_kind
  e_operationId :: string
  e_requestDigest :: jsval
  e_result :: "jsval option"

definition LIBRARY_OPERATION_JOURNAL :: string where
  "LIBRARY_OPERATION_JOURNAL = ''library-service-operations.v2''"

definition LEGACY_JOURNAL :: string where
  "LEGACY_JOURNAL = ''library-service-operations.v1''"

definition ENTRY_LIMIT :: nat where "ENTRY_LIMIT = 64"
definition BYTE_LIMIT :: nat where "BYTE_LIMIT = 256 * 1024"
definition RESULT_BYTE_LIMIT :: nat where "RESULT_BYTE_LIMIT = 32 * 1024"

definition conflict :: thrown where
  "conflict = AuthorityError (failureOf ''conflict'' ''operationId was already used for another operation'' False)"

definition storageFailure :: "string \<Rightarrow> thrown" where
  "storageFailure message = AuthorityError (failureOf ''storage'' message True)"

text \<open>\<open>value.toString(16).padStart(2, '0')\<close> of a byte.\<close>

definition hexByte :: "nat \<Rightarrow> string" where
  "hexByte b = [hex_digit (b div 16), hex_digit (b mod 16)]"

definition digest :: "js_env \<Rightarrow> host \<Rightarrow> jsval \<Rightarrow> string" where
  "digest E H request = concat (map hexByte (h_sha256 H (utf8_encode (json_text E request))))"

fun kindText :: "operation_kind \<Rightarrow> string" where
  "kindText CommandKind = ''command''"
| "kindText TaskKind = ''task''"

definition readKind :: "jsval \<Rightarrow> operation_kind option" where
  "readKind v = (if v = JStr ''command'' then Some CommandKind
                 else if v = JStr ''task'' then Some TaskKind else None)"

definition entryValue :: "entry \<Rightarrow> jsval" where
  "entryValue e = JObj
     ([(''kind'', JStr (kindText (e_kind e))), (''operationId'', JStr (e_operationId e)),
       (''requestDigest'', e_requestDigest e),
       (''state'', JStr (case e_result e of None \<Rightarrow> ''intent'' | Some _ \<Rightarrow> ''complete''))]
      @ (case e_result e of None \<Rightarrow> [] | Some r \<Rightarrow> [(''result'', r)]))"

text \<open>\<open>/^[0-9a-f]{64}$/.test(value ?? '')\<close>, which turns what it is given into a string.\<close>

definition isDigest :: "js_env \<Rightarrow> jsval \<Rightarrow> bool" where
  "isDigest E v \<longleftrightarrow> v \<noteq> JUndef \<and> v \<noteq> JNull \<and> re_exactly isHexLower 64 (js_String E v)"

definition decodedEntry :: "js_env \<Rightarrow> jsval \<Rightarrow> entry option" where
  "decodedEntry E candidate =
    (if \<not> isRecord candidate then None
     else case (readKind (fld candidate ''kind''), fld candidate ''operationId'') of
       (Some kind, JStr operationId) \<Rightarrow>
         (let state = fld candidate ''state''; result = fld candidate ''result'' in
          if \<not> isDigest E (fld candidate ''requestDigest'') \<or>
             (state \<noteq> JStr ''intent'' \<and> state \<noteq> JStr ''complete'') \<or>
             (state = JStr ''complete'' \<and> \<not> truthy result)
          then None
          else Some \<lparr> e_kind = kind, e_operationId = operationId,
                      e_requestDigest = fld candidate ''requestDigest'',
                      e_result = (if state = JStr ''complete'' then Some result else None) \<rparr>)
     | _ \<Rightarrow> None)"

fun decodedEntries :: "js_env \<Rightarrow> jsval \<Rightarrow> entry list" where
  "decodedEntries E (JArr xs) = List.map_filter (decodedEntry E) xs"
| "decodedEntries E _ = []"

text \<open>A receipt of the journal's first version, which held the request itself.\<close>

definition migratedEntry :: "js_env \<Rightarrow> host \<Rightarrow> jsval \<Rightarrow> entry option" where
  "migratedEntry E H candidate =
    (if \<not> isRecord candidate then None
     else case (readKind (fld candidate ''kind''), fld candidate ''operationId'', fld candidate ''request'') of
       (Some kind, JStr operationId, JStr request) \<Rightarrow>
         (if \<not> truthy (fld candidate ''result'') then None
          else case json_parse E request of
            None \<Rightarrow> None
          | Some v \<Rightarrow> Some \<lparr> e_kind = kind, e_operationId = operationId,
                       e_requestDigest = JStr (digest E H v), e_result = Some (fld candidate ''result'') \<rparr>)
     | _ \<Rightarrow> None)"

definition entries :: "js_env \<Rightarrow> host \<Rightarrow> 'w jworld \<Rightarrow> entry list" where
  "entries E H w =
    (let current = log_kept E H LIBRARY_OPERATION_JOURNAL w in
     if current \<noteq> JUndef then decodedEntries E current
     else case log_kept E H LEGACY_JOURNAL w of
            JArr xs \<Rightarrow> List.map_filter (migratedEntry E H) xs
          | _ \<Rightarrow> [])"

section \<open>The bounded journal\<close>

definition journalValue :: "entry list \<Rightarrow> jsval" where
  "journalValue es = JArr (map entryValue es)"

definition journalBytes :: "js_env \<Rightarrow> entry list \<Rightarrow> nat" where
  "journalBytes E es = length (utf8_encode (json_text E (journalValue es)))"

definition removable :: "string \<Rightarrow> entry list \<Rightarrow> nat option" where
  "removable protectedId kept =
    (let before = takeWhile (\<lambda>e. e_operationId e = protectedId) kept in
     if length before = length kept then None else Some (length before))"

definition spliceOne :: "nat \<Rightarrow> 'a list \<Rightarrow> 'a list" where
  "spliceOne i xs = take i xs @ drop (Suc i) xs"

lemma removable_less: "removable protectedId kept = Some i \<Longrightarrow> i < length kept"
  using length_takeWhile_le [of "\<lambda>e. e_operationId e = protectedId" kept]
  by (auto simp: removable_def Let_def split: if_splits)

lemma length_spliceOne [simp]: "i < length xs \<Longrightarrow> length (spliceOne i xs) = length xs - 1"
  by (simp add: spliceOne_def)

text \<open>The \<open>while\<close> loop; finding nothing removable breaks out of it.\<close>

function evict :: "js_env \<Rightarrow> string \<Rightarrow> entry list \<Rightarrow> entry list" where
  "evict E protectedId kept =
    (if journalBytes E kept > BYTE_LIMIT \<and> length kept > 1 then
       (case removable protectedId kept of
          None \<Rightarrow> kept
        | Some i \<Rightarrow> evict E protectedId (spliceOne i kept))
     else kept)"
  by pat_completeness auto
termination
  by (relation "measure (\<lambda>(_, _, kept). length kept)") (auto dest: removable_less)

declare evict.simps [simp del]

definition lastEntries :: "entry list \<Rightarrow> entry list" where
  "lastEntries current = drop (length current - ENTRY_LIMIT) current"

definition bounded :: "js_env \<Rightarrow> entry list \<Rightarrow> string \<Rightarrow> thrown + entry list" where
  "bounded E current protectedId =
    (let kept = evict E protectedId (lastEntries current) in
     if journalBytes E kept > BYTE_LIMIT
     then Inl (storageFailure ''operation result exceeds the durable journal limit'')
     else Inr kept)"

definition keep_entries ::
  "js_env \<Rightarrow> host \<Rightarrow> entry list \<Rightarrow> string \<Rightarrow> 'w jworld \<Rightarrow> (thrown + unit) \<times> 'w jworld" where
  "keep_entries E H current protectedId w =
    (case bounded E current protectedId of
       Inl e \<Rightarrow> (Inl e, w)
     | Inr kept \<Rightarrow> log_keep E H LIBRARY_OPERATION_JOURNAL (journalValue kept) w)"

section \<open>Operations\<close>

definition findEntry :: "string \<Rightarrow> entry list \<Rightarrow> entry option" where
  "findEntry operationId es = List.find (\<lambda>e. e_operationId e = operationId) es"

definition sameOperation :: "operation_kind \<Rightarrow> string \<Rightarrow> entry \<Rightarrow> bool" where
  "sameOperation kind requestDigest e \<longleftrightarrow> e_kind e = kind \<and> e_requestDigest e = JStr requestDigest"

text \<open>\<open>current[current.indexOf(found)] = complete\<close> for the entry found, or \<open>current.push(complete)\<close>.\<close>

fun putEntry :: "string \<Rightarrow> entry \<Rightarrow> entry list \<Rightarrow> entry list" where
  "putEntry operationId receipt [] = [receipt]"
| "putEntry operationId receipt (e # es) =
    (if e_operationId e = operationId then receipt # es else e # putEntry operationId receipt es)"

text \<open>The receipt of an operation whose work is done.\<close>

definition recordResult ::
  "js_env \<Rightarrow> host \<Rightarrow> operation_kind \<Rightarrow> string \<Rightarrow> string \<Rightarrow> jsval \<Rightarrow> 'w jworld \<Rightarrow> (thrown + jsval) \<times> 'w jworld" where
  "recordResult E H kind operationId requestDigest result w =
    (let latest = entries E H w in
     case findEntry operationId latest of
       Some intent \<Rightarrow>
         if \<not> sameOperation kind requestDigest intent then (Inl conflict, w)
         else (case keep_entries E H (putEntry operationId \<lparr> e_kind = kind, e_operationId = operationId,
                 e_requestDigest = JStr requestDigest, e_result = Some result \<rparr> latest) operationId w of
                 (Inl e, w1) \<Rightarrow> (Inl e, w1)
               | (Inr _, w1) \<Rightarrow> (Inr result, w1))
     | None \<Rightarrow>
         (case keep_entries E H (latest @ [\<lparr> e_kind = kind, e_operationId = operationId,
                 e_requestDigest = JStr requestDigest, e_result = Some result \<rparr>]) operationId w of
            (Inl e, w1) \<Rightarrow> (Inl e, w1)
          | (Inr _, w1) \<Rightarrow> (Inr result, w1)))"

definition incompleteImport :: "operation_kind \<Rightarrow> jsval \<Rightarrow> bool" where
  "incompleteImport kind result \<longleftrightarrow>
     kind = TaskKind \<and> fld (fld result ''result'') ''kind'' = JStr ''history.import'' \<and>
     \<not> truthy (fld (fld result ''result'') ''complete'')"

text \<open>\<open>#perform\<close>: the work, and then the receipt of what it did.\<close>

definition runWork ::
  "js_env \<Rightarrow> host \<Rightarrow> operation_kind \<Rightarrow> string \<Rightarrow> string \<Rightarrow> ('w jworld \<Rightarrow> (thrown + jsval) \<times> 'w jworld)
     \<Rightarrow> 'w jworld \<Rightarrow> (thrown + jsval) \<times> 'w jworld" where
  "runWork E H kind operationId requestDigest work w =
    (case work w of
       (Inl e, w1) \<Rightarrow> (Inl e, w1)
     | (Inr result, w1) \<Rightarrow>
         if incompleteImport kind result then (Inr result, w1)
         else if length (utf8_encode (json_text E result)) > RESULT_BYTE_LIMIT
         then (Inl (storageFailure ''operation result exceeds the durable result limit''), w1)
         else recordResult E H kind operationId requestDigest result w1)"

definition perform ::
  "js_env \<Rightarrow> host \<Rightarrow> operation_kind \<Rightarrow> string \<Rightarrow> jsval \<Rightarrow> ('w jworld \<Rightarrow> (thrown + jsval) \<times> 'w jworld)
     \<Rightarrow> 'w jworld \<Rightarrow> (thrown + jsval) \<times> 'w jworld" where
  "perform E H kind operationId request work w =
    (let requestDigest = digest E H request; current = entries E H w in
     case findEntry operationId current of
       Some found \<Rightarrow>
         if \<not> sameOperation kind requestDigest found then (Inl conflict, w)
         else (case e_result found of
                 Some result \<Rightarrow> (Inr result, w)
               | None \<Rightarrow> runWork E H kind operationId requestDigest work w)
     | None \<Rightarrow>
         (case keep_entries E H (current @ [\<lparr> e_kind = kind, e_operationId = operationId,
                 e_requestDigest = JStr requestDigest, e_result = None \<rparr>]) operationId w of
            (Inl e, w1) \<Rightarrow> (Inl e, w1)
          | (Inr _, w1) \<Rightarrow> runWork E H kind operationId requestDigest work w1))"

text \<open>\<open>completeDurableTaskOperation\<close>: a finished task copied into another library's journal.\<close>

definition completeDurableTaskOperation ::
  "js_env \<Rightarrow> host \<Rightarrow> string \<Rightarrow> jsval \<Rightarrow> jsval \<Rightarrow> 'w jworld \<Rightarrow> (thrown + jsval) \<times> 'w jworld" where
  "completeDurableTaskOperation E H operationId request result w =
    (if length (utf8_encode (json_text E result)) > RESULT_BYTE_LIMIT
     then (Inl (storageFailure ''operation result exceeds the durable result limit''), w)
     else recordResult E H TaskKind operationId (digest E H request) result w)"

section \<open>The wrapped authority\<close>

definition commandValue :: "command_result \<Rightarrow> jsval" where
  "commandValue r = JObj [(''outcome'', enc_change (c_outcome r)), (''delivery'', enc_delivery (c_delivery r)),
     (''affected'', JArr (c_affected r))]"

definition readCommand :: "jsval \<Rightarrow> command_result" where
  "readCommand v = \<lparr> c_outcome = (if fld v ''outcome'' = JStr ''applied'' then Applied else Unchanged),
     c_delivery = (if fld v ''delivery'' = JStr ''synced'' then Synced
                   else if fld v ''delivery'' = JStr ''queued'' then Queued else LocalOnly),
     c_affected = arrOf (fld v ''affected'') \<rparr>"

definition taskValue :: "task_outcome \<Rightarrow> jsval" where
  "taskValue r = JObj [(''result'', t_result r), (''affected'', JArr (t_affected r))]"

definition readTask :: "jsval \<Rightarrow> task_outcome" where
  "readTask v = \<lparr> t_result = fld v ''result'', t_affected = arrOf (fld v ''affected'') \<rparr>"

text \<open>A call of the wrapped authority, seen from the journal's world.\<close>

definition inside :: "('w \<Rightarrow> (thrown + 'r) \<times> 'w) \<Rightarrow> 'w jworld \<Rightarrow> (thrown + 'r) \<times> 'w jworld" where
  "inside f w = (case f (j_inner w) of (r, u) \<Rightarrow> (r, w\<lparr> j_inner := u \<rparr>))"

abbreviation mapped :: "('a \<Rightarrow> 'b) \<Rightarrow> (thrown + 'a) \<times> 'w \<Rightarrow> (thrown + 'b) \<times> 'w" where
  "mapped f \<equiv> map_prod (map_sum id f) id"

definition durableAuthority :: "js_env \<Rightarrow> host \<Rightarrow> 'w authority \<Rightarrow> 'w jworld authority" where
  "durableAuthority E H A =
    \<lparr> a_open = (\<lambda>req w. case a_open A req (j_inner w) of (r, u) \<Rightarrow> (r, w\<lparr> j_inner := u \<rparr>)),
      a_generation = (\<lambda>w. a_generation A (j_inner w)),
      a_select = (\<lambda>sel. inside (a_select A sel)),
      a_command = (\<lambda>cmd op w. mapped readCommand
         (perform E H CommandKind op cmd (\<lambda>w. mapped commandValue (inside (a_command A cmd op) w)) w)),
      a_query = (\<lambda>q. inside (a_query A q)),
      a_task = (\<lambda>t op w.
         if fld t ''kind'' = JStr ''assistant.publish'' then inside (a_task A t op) w
         else mapped readTask (perform E H TaskKind op t (\<lambda>w. mapped taskValue (inside (a_task A t op) w)) w)),
      a_observe = (\<lambda>ob. inside (a_observe A ob)) \<rparr>"

section \<open>The eviction loop\<close>

text \<open>C29: The loop that shrinks the journal ends. Written as the \<open>while\<close> loop it is, with its break, it
  terminates from every journal and for every protected operation, in what \<open>evict\<close> computes.\<close>

theorem evict_loop_terminates:
  "while_option (\<lambda>kept. journalBytes E kept > BYTE_LIMIT \<and> length kept > 1 \<and> removable protectedId kept \<noteq> None)
     (\<lambda>kept. spliceOne (the (removable protectedId kept)) kept) kept = Some (evict E protectedId kept)"
proof (induction E protectedId kept rule: evict.induct)
  case (1 E protectedId kept)
  show ?case
  proof (cases "journalBytes E kept > BYTE_LIMIT \<and> length kept > 1 \<and> removable protectedId kept \<noteq> None")
    case True
    then obtain i where "removable protectedId kept = Some i" by blast
    with True 1 show ?thesis
      by (subst while_option_unfold) (simp add: evict.simps [of E protectedId kept])
  next
    case False
    then show ?thesis
      by (subst while_option_unfold) (auto simp: evict.simps [of E protectedId kept] split: option.split)
  qed
qed

abbreviation protects :: "string \<Rightarrow> entry list \<Rightarrow> entry list" where
  "protects op es \<equiv> filter (\<lambda>e. e_operationId e = op) es"

lemma removable_other:
  assumes "removable op kept = Some i"
  shows "e_operationId (kept ! i) \<noteq> op" and "protects op (spliceOne i kept) = protects op kept"
proof -
  have i: "i = length (takeWhile (\<lambda>e. e_operationId e = op) kept)" and less: "i < length kept"
    using assms removable_less [OF assms] by (auto simp: removable_def Let_def split: if_splits)
  show other: "e_operationId (kept ! i) \<noteq> op"
    using nth_length_takeWhile [of "\<lambda>e. e_operationId e = op" kept] less by (simp add: i)
  have "protects op kept = protects op (take i kept @ kept ! i # drop (Suc i) kept)"
    using id_take_nth_drop [OF less] by simp
  then show "protects op (spliceOne i kept) = protects op kept" using other by (simp add: spliceOne_def)
qed

lemma subseq_spliceOne: "subseq (spliceOne i xs) xs"
proof -
  have "subseq (drop (Suc i) xs) (drop i xs)"
    using suffix_imp_subseq [OF suffix_drop [of 1 "drop i xs"]] by simp
  then have "subseq (take i xs @ drop (Suc i) xs) (take i xs @ drop i xs)"
    by (intro list_emb_append_mono) simp_all
  then show ?thesis by (simp add: spliceOne_def)
qed

lemma evict_spec:
  "subseq (evict E op kept) kept \<and> protects op (evict E op kept) = protects op kept \<and>
   (journalBytes E (evict E op kept) > BYTE_LIMIT \<longrightarrow> length (evict E op kept) \<le> 1 \<or>
      list_all (\<lambda>e. e_operationId e = op) (evict E op kept))"
proof (induction E op kept rule: evict.induct)
  case (1 E op kept)
  show ?case
  proof (cases "journalBytes E kept > BYTE_LIMIT \<and> length kept > 1")
    case True
    show ?thesis
    proof (cases "removable op kept")
      case None
      then have "takeWhile (\<lambda>e. e_operationId e = op) kept = kept"
        using takeWhile_eq_take [of "\<lambda>e. e_operationId e = op" kept]
        by (simp add: removable_def Let_def split: if_splits)
      then have "list_all (\<lambda>e. e_operationId e = op) kept"
        by (simp add: list_all_iff takeWhile_eq_all_conv)
      then show ?thesis using True None by (simp add: evict.simps [of E op kept])
    next
      case (Some i)
      have "evict E op kept = evict E op (spliceOne i kept)" using True Some by (simp add: evict.simps [of E op kept])
      with 1 [OF True Some] removable_other(2) [OF Some] subseq_spliceOne [of i kept] show ?thesis
        using subseq_order.trans by fastforce
    qed
  next
    case False
    then have "evict E op kept = kept" by (auto simp: evict.simps [of E op kept])
    with False show ?thesis by auto
  qed
qed

lemma lastEntries_length: "length (lastEntries es) \<le> ENTRY_LIMIT"
  by (simp add: lastEntries_def)

lemma lastEntries_all: "length es \<le> ENTRY_LIMIT \<Longrightarrow> lastEntries es = es"
  by (simp add: lastEntries_def)

lemma subseq_lastEntries: "subseq (lastEntries es) es"
  by (simp add: lastEntries_def suffix_imp_subseq suffix_drop)

text \<open>The entries without the oldest \<open>k\<close> of other operations.\<close>

fun drop_others :: "string \<Rightarrow> nat \<Rightarrow> entry list \<Rightarrow> entry list" where
  "drop_others op 0 es = es"
| "drop_others op (Suc k) [] = []"
| "drop_others op (Suc k) (e # es) = (if e_operationId e = op then e # drop_others op (Suc k) es else drop_others op k es)"

lemma drop_others_protected: "list_all (\<lambda>e. e_operationId e = op) es \<Longrightarrow> drop_others op k es = es"
  by (induction op k es rule: drop_others.induct) auto

lemma drop_others_again: "drop_others op k (drop_others op (Suc 0) es) = drop_others op (Suc k) es"
proof (induction es)
  case (Cons e es)
  then show ?case by (cases k) auto
qed (cases k; simp)

lemma drop_others_keeps: "protects op (drop_others op k es) = protects op es"
  by (induction op k es rule: drop_others.induct) auto

lemma removable_Nil [simp]: "removable op [] = None"
  by (simp add: removable_def)

lemma removable_Cons: "removable op (e # es) = (if e_operationId e = op then map_option Suc (removable op es) else Some 0)"
  by (simp add: removable_def Let_def)

lemma removable_first:
  "removable op es = Some i \<Longrightarrow> spliceOne i es = drop_others op (Suc 0) es"
  "removable op es = None \<Longrightarrow> list_all (\<lambda>e. e_operationId e = op) es"
  by (induction es arbitrary: i) (auto simp: removable_Cons spliceOne_def split: if_splits)

text \<open>Eviction removes the oldest entries of other operations, each only because the journal was too large with it.\<close>

lemma evict_drops:
  "\<exists>k. evict E op es = drop_others op k es \<and> (\<forall>j < k. journalBytes E (drop_others op j es) > BYTE_LIMIT) \<and>
     (journalBytes E (evict E op es) > BYTE_LIMIT \<longrightarrow>
        length (evict E op es) \<le> 1 \<or> list_all (\<lambda>e. e_operationId e = op) (evict E op es))"
proof (induction E op es rule: evict.induct)
  case (1 E op es)
  show ?case
  proof (cases "journalBytes E es > BYTE_LIMIT \<and> length es > 1 \<and> removable op es \<noteq> None")
    case True
    then obtain i where i: "removable op es = Some i" and big: "journalBytes E es > BYTE_LIMIT \<and> length es > 1" by auto
    let ?rest = "drop_others op (Suc 0) es"
    have eq: "evict E op es = evict E op ?rest" using big i removable_first(1) [OF i] by (simp add: evict.simps [of E op es])
    obtain k where k: "evict E op ?rest = drop_others op k ?rest" "\<forall>j < k. journalBytes E (drop_others op j ?rest) > BYTE_LIMIT"
      "journalBytes E (evict E op ?rest) > BYTE_LIMIT \<longrightarrow>
        length (evict E op ?rest) \<le> 1 \<or> list_all (\<lambda>e. e_operationId e = op) (evict E op ?rest)"
      using 1 [OF big i] unfolding removable_first(1) [OF i] by blast
    have "journalBytes E (drop_others op j es) > BYTE_LIMIT" if "j < Suc k" for j
      using that big k(2) by (cases j) (auto simp: drop_others_again)
    then show ?thesis using k eq by (intro exI [of _ "Suc k"]) (simp add: drop_others_again)
  next
    case False
    then have "evict E op es = es" by (auto simp: evict.simps [of E op es] split: option.split)
    moreover have "journalBytes E es > BYTE_LIMIT \<longrightarrow> length es \<le> 1 \<or> list_all (\<lambda>e. e_operationId e = op) es"
      using False removable_first(2) [of op es] by auto
    ultimately show ?thesis by (intro exI [of _ 0]) simp
  qed
qed

text \<open>C30: What the journal keeps. Of the last 64 entries, the operation at hand among them, it keeps all of that operation
  and of the others all but the oldest, dropping just as many as it takes to fit 256 KiB: with one fewer dropped they would
  not fit. It refuses only when the entries of the operation at hand alone do not fit.\<close>

theorem bounded_keeps:
  assumes "\<exists>e \<in> set (drop (length current - 64) current). e_operationId e = op"
  shows "case bounded E current op of
     Inr kept \<Rightarrow> journalBytes E kept \<le> 256 * 1024 \<and>
       (\<exists>k. kept = drop_others op k (drop (length current - 64) current) \<and>
          (\<forall>j < k. journalBytes E (drop_others op j (drop (length current - 64) current)) > 256 * 1024))
   | Inl e \<Rightarrow> (\<exists>f. e = AuthorityError f \<and> f_code f = ''storage'') \<and>
       journalBytes E (filter (\<lambda>e. e_operationId e = op) (drop (length current - 64) current)) > 256 * 1024"
proof -
  have last: "lastEntries current = drop (length current - 64) current" by (simp add: lastEntries_def ENTRY_LIMIT_def)
  let ?es = "lastEntries current"
  obtain k where k: "evict E op ?es = drop_others op k ?es" "\<forall>j < k. journalBytes E (drop_others op j ?es) > BYTE_LIMIT"
    "journalBytes E (evict E op ?es) > BYTE_LIMIT \<longrightarrow> length (evict E op ?es) \<le> 1 \<or> list_all (\<lambda>e. e_operationId e = op) (evict E op ?es)"
    using evict_drops by blast
  have own: "protects op (evict E op ?es) = protects op ?es" unfolding k(1) by (rule drop_others_keeps)
  show ?thesis
  proof (cases "journalBytes E (evict E op ?es) > BYTE_LIMIT")
    case True
    have "protects op ?es \<noteq> []" using assms unfolding last by (auto simp: filter_empty_conv)
    then have "list_all (\<lambda>e. e_operationId e = op) (evict E op ?es)"
      using own k(3) True by (cases "evict E op ?es") (auto split: if_splits)
    then have "protects op ?es = evict E op ?es" using own by (simp add: list_all_iff filter_id_conv)
    then show ?thesis using True unfolding last [symmetric] by (simp add: bounded_def Let_def BYTE_LIMIT_def storageFailure_def failureOf_def)
  next
    case False
    then show ?thesis using k(1,2) unfolding last [symmetric] by (auto simp: bounded_def Let_def BYTE_LIMIT_def)
  qed
qed

section \<open>What the journal reads back\<close>

definition host_ok :: "host \<Rightarrow> bool" where
  "host_ok H \<longleftrightarrow> aead (h_cipher H) \<and> (\<forall>n. length (h_nonce H n) = 12) \<and>
     (\<forall>bytes. length (h_sha256 H bytes) = 32 \<and> (\<forall>b \<in> set (h_sha256 H bytes). b < 256))"

definition entry_ok :: "entry \<Rightarrow> bool" where
  "entry_ok e \<longleftrightarrow> strWith (re_exactly isHexLower 64) (e_requestDigest e) \<and>
     (case e_result e of None \<Rightarrow> True | Some r \<Rightarrow> json_plain r \<and> truthy r)"

definition journal_ok :: "js_env \<Rightarrow> host \<Rightarrow> 'w jworld \<Rightarrow> bool" where
  "journal_ok E H w \<longleftrightarrow> list_all entry_ok (entries E H w) \<and> length (entries E H w) \<le> ENTRY_LIMIT"

lemma hex_digit_hex: "n < 16 \<Longrightarrow> isHexLower (hex_digit n)"
  by (simp add: hex_digit_def char_classes)

lemma hexByte_hex: "b < 256 \<Longrightarrow> c \<in> set (hexByte b) \<Longrightarrow> isHexLower c"
proof -
  assume "b < 256" and c: "c \<in> set (hexByte b)"
  then have "b div 16 < 16" and "b mod 16 < 16" by (simp_all add: div_less_iff_less_mult)
  then show ?thesis using c by (auto simp: hexByte_def hex_digit_hex)
qed

lemma subseq_subset: "subseq xs ys \<Longrightarrow> set xs \<subseteq> set ys"
  using set_nths_subset by (metis subseq_conv_nths)

lemma digest_ok:
  assumes "host_ok H"
  shows "re_exactly isHexLower 64 (digest E H request)"
proof -
  let ?b = "h_sha256 H (utf8_encode (json_text E request))"
  have "length ?b = 32" and byte: "b < 256" if "b \<in> set ?b" for b
    using assms that by (auto simp: host_ok_def)
  have "length ?b = 32" using assms by (simp add: host_ok_def)
  moreover have "length (concat (map hexByte bs)) = 2 * length bs" for bs
    by (induction bs) (simp_all add: hexByte_def)
  moreover have "isHexLower c" if "c \<in> set (concat (map hexByte ?b))" for c
    using that byte hexByte_hex by auto
  ultimately show ?thesis by (simp add: digest_def re_exactly_def list_all_iff)
qed

lemma entry_keys_plain:
  "\<not> isIndexKey ''kind'' \<and> \<not> isIndexKey ''operationId'' \<and> \<not> isIndexKey ''requestDigest'' \<and>
   \<not> isIndexKey ''state'' \<and> \<not> isIndexKey ''result''"
  by (simp add: isIndexKey_def char_classes)

lemma entryValue_plain: "entry_ok e \<Longrightarrow> json_plain (entryValue e)"
  using entry_keys_plain
  by (auto simp: entryValue_def entry_ok_def key_before_def elim!: strWithE split: option.splits)

lemma decodedEntry_value:
  assumes "entry_ok e"
  shows "decodedEntry E (entryValue e) = Some e"
proof -
  obtain d where d: "e_requestDigest e = JStr d" "re_exactly isHexLower 64 d"
    using assms by (auto simp: entry_ok_def elim!: strWithE)
  have "readKind (JStr (kindText (e_kind e))) = Some (e_kind e)"
    by (cases "e_kind e") (simp_all add: readKind_def)
  then show ?thesis
    using assms d by (cases "e_result e")
      (auto simp: decodedEntry_def entryValue_def isDigest_def Let_def entry_ok_def)
qed

lemma decodedEntries_value: "list_all entry_ok es \<Longrightarrow> decodedEntries E (journalValue es) = es"
  by (induction es) (simp_all add: journalValue_def map_filter_simps decodedEntry_value)

lemma kept_after_keep:
  assumes "host_ok H" and "h_local H" and "json_plain v" and "log_keep E H name v w = (Inr u, w1)"
  shows "log_kept E H name w1 = v" and "j_inner w1 = j_inner w"
proof -
  have "jm_get (j_vault w1) (vaultKey H name) =
      Some (sealLibraryLocalValue E (h_cipher H) (h_nonce H (j_writes w)) name v)" and "j_inner w1 = j_inner w"
    using assms(2,4)
    by (auto simp: log_keep_def Let_def jm_get_def jm_set_def update_conv' split: option.splits)
  then show "log_kept E H name w1 = v" and "j_inner w1 = j_inner w"
    using assms(1,2) sealed_opens [OF _ _ assms(3), of "h_cipher H" "h_nonce H (j_writes w)" E name]
    by (simp_all add: log_kept_def host_ok_def)
qed

lemma keep_entries_stores:
  assumes "host_ok H" and "h_local H" and "list_all entry_ok current"
    and "keep_entries E H current op w = (Inr u, w1)"
  shows "\<exists>kept. bounded E current op = Inr kept \<and> entries E H w1 = kept \<and> j_inner w1 = j_inner w \<and>
    list_all entry_ok kept \<and> length kept \<le> ENTRY_LIMIT"
proof -
  obtain kept where k: "bounded E current op = Inr kept"
    and keep: "log_keep E H LIBRARY_OPERATION_JOURNAL (journalValue kept) w = (Inr u, w1)"
    using assms(4) by (auto simp: keep_entries_def split: sum.splits)
  have ev: "kept = evict E op (lastEntries current)" using k by (auto simp: bounded_def Let_def split: if_splits)
  then have sub: "subseq kept (lastEntries current)" using evict_spec by blast
  then have "set kept \<subseteq> set current"
    using subseq_subset [OF sub] subseq_subset [OF subseq_lastEntries [of current]] by blast
  then have ok: "list_all entry_ok kept" using assms(3) by (auto simp: list_all_iff)
  then have "json_plain (journalValue kept)" by (auto simp: journalValue_def list_all_iff entryValue_plain)
  from kept_after_keep [OF assms(1,2) this keep]
  have "entries E H w1 = kept" and "j_inner w1 = j_inner w"
    using decodedEntries_value [OF ok, of E] by (simp_all add: entries_def Let_def journalValue_def)
  moreover have "length kept \<le> ENTRY_LIMIT"
    using sub lastEntries_length [of current] list_emb_length by (metis (no_types) order_trans)
  ultimately show ?thesis using k ok by blast
qed

section \<open>Operations and their receipts\<close>

lemma findEntry_protects: "findEntry op es = (case protects op es of [] \<Rightarrow> None | e # _ \<Rightarrow> Some e)"
  by (induction es) (simp_all add: findEntry_def)

lemma findEntry_id: "findEntry op es = Some e \<Longrightarrow> e_operationId e = op"
  by (auto simp: findEntry_def find_Some_iff)

lemma findEntry_putEntry: "e_operationId e = op \<Longrightarrow> findEntry op (putEntry op e es) = Some e"
  by (induction es) (simp_all add: findEntry_def)

lemma putEntry_ok: "entry_ok e \<Longrightarrow> list_all entry_ok es \<Longrightarrow> list_all entry_ok (putEntry op e es)"
  by (induction es) simp_all

lemma length_putEntry: "findEntry op es \<noteq> None \<Longrightarrow> length (putEntry op e es) = length es"
  by (induction es) (auto simp: findEntry_def split: if_splits)

lemma protects_lastEntries_snoc:
  "findEntry op es = None \<Longrightarrow> e_operationId e = op \<Longrightarrow> protects op (lastEntries (es @ [e])) = [e]"
proof -
  assume none: "findEntry op es = None" and op: "e_operationId e = op"
  have "protects op es = []" using none by (simp add: findEntry_protects split: list.splits)
  then have "protects op (drop n es) = []" for n
    by (metis (no_types, lifting) append_is_Nil_conv append_take_drop_id filter_append)
  moreover have "lastEntries (es @ [e]) = drop (Suc (length es) - ENTRY_LIMIT) es @ [e]"
    by (simp add: lastEntries_def ENTRY_LIMIT_def)
  ultimately show ?thesis using op by simp
qed

text \<open>The journal's contents do not depend on what an operation's work does, and its results can be
  stored.\<close>

definition journal_free :: "js_env \<Rightarrow> host \<Rightarrow> ('w jworld \<Rightarrow> (thrown + jsval) \<times> 'w jworld) \<Rightarrow> bool" where
  "journal_free E H work \<longleftrightarrow> (\<forall>w. entries E H (snd (work w)) = entries E H w) \<and>
     (\<forall>w r. fst (work w) = Inr r \<longrightarrow> json_plain r \<and> truthy r)"

text \<open>The journal holds an entry of this operation.\<close>

definition announced :: "js_env \<Rightarrow> host \<Rightarrow> operation_kind \<Rightarrow> string \<Rightarrow> string \<Rightarrow> 'w jworld \<Rightarrow> bool" where
  "announced E H kind op d w \<longleftrightarrow> (\<exists>e. findEntry op (entries E H w) = Some e \<and> sameOperation kind d e)"

definition receipt :: "js_env \<Rightarrow> host \<Rightarrow> operation_kind \<Rightarrow> string \<Rightarrow> string \<Rightarrow> jsval \<Rightarrow> 'w jworld \<Rightarrow> bool" where
  "receipt E H kind op d r w \<longleftrightarrow>
     (\<exists>e. findEntry op (entries E H w) = Some e \<and> sameOperation kind d e \<and> e_result e = Some r)"

lemma perform_receipt: "receipt E H kind op (digest E H request) r w \<Longrightarrow> perform E H kind op request work w = (Inr r, w)"
  by (auto simp: receipt_def perform_def Let_def)

lemma keep_intent:
  assumes "host_ok H" and "h_local H" and "journal_ok E H w" and "findEntry op (entries E H w) = None"
    and "keep_entries E H (entries E H w @ [\<lparr> e_kind = kind, e_operationId = op, e_requestDigest = JStr (digest E H request),
        e_result = None \<rparr>]) op w = (Inr u, w1)"
  shows "announced E H kind op (digest E H request) w1 \<and> journal_ok E H w1 \<and> j_inner w1 = j_inner w"
proof -
  let ?e = "\<lparr> e_kind = kind, e_operationId = op, e_requestDigest = JStr (digest E H request), e_result = None \<rparr>"
  have "list_all entry_ok (entries E H w @ [?e])"
    using assms(3) digest_ok [OF assms(1)] by (simp add: journal_ok_def entry_ok_def)
  from keep_entries_stores [OF assms(1,2) this assms(5)]
  obtain kept where k: "bounded E (entries E H w @ [?e]) op = Inr kept" "entries E H w1 = kept"
    "j_inner w1 = j_inner w" "list_all entry_ok kept" "length kept \<le> ENTRY_LIMIT" by blast
  have "protects op kept = protects op (lastEntries (entries E H w @ [?e]))"
    using evict_spec k(1) by (auto simp: bounded_def Let_def split: if_splits)
  also have "\<dots> = [?e]" by (rule protects_lastEntries_snoc [OF assms(4)]) simp
  finally have "findEntry op (entries E H w1) = Some ?e" unfolding k(2) by (simp add: findEntry_protects)
  with k show ?thesis by (simp add: announced_def sameOperation_def journal_ok_def)
qed

lemma recordResult_receipt:
  assumes "host_ok H" and "h_local H" and "journal_ok E H w" and "announced E H kind op (digest E H request) w"
    and "json_plain r \<and> truthy r" and "recordResult E H kind op (digest E H request) r w = (Inr r', w1)"
  shows "r' = r \<and> receipt E H kind op (digest E H request) r w1 \<and> journal_ok E H w1 \<and> j_inner w1 = j_inner w"
proof -
  let ?e = "\<lparr> e_kind = kind, e_operationId = op, e_requestDigest = JStr (digest E H request), e_result = Some r \<rparr>"
  let ?es = "putEntry op ?e (entries E H w)"
  obtain intent where i: "findEntry op (entries E H w) = Some intent" "sameOperation kind (digest E H request) intent"
    using assms(4) by (auto simp: announced_def)
  then obtain u where keep: "keep_entries E H ?es op w = (Inr u, w1)" and r: "r' = r"
    using assms(6) by (auto simp: recordResult_def Let_def split: prod.splits sum.splits)
  have "entry_ok ?e" using digest_ok [OF assms(1)] assms(5) by (simp add: entry_ok_def)
  then have "list_all entry_ok ?es" using assms(3) by (simp add: putEntry_ok journal_ok_def)
  from keep_entries_stores [OF assms(1,2) this keep]
  obtain kept where k: "bounded E ?es op = Inr kept" "entries E H w1 = kept"
    "j_inner w1 = j_inner w" "list_all entry_ok kept" "length kept \<le> ENTRY_LIMIT" by blast
  have "length ?es \<le> ENTRY_LIMIT" using assms(3) i(1) length_putEntry [of op "entries E H w"] by (simp add: journal_ok_def)
  then have "protects op kept = protects op ?es"
    using evict_spec k(1) by (auto simp: bounded_def Let_def lastEntries_all split: if_splits)
  then have "findEntry op (entries E H w1) = Some ?e"
    using findEntry_putEntry [of ?e op "entries E H w"] unfolding k(2) by (simp add: findEntry_protects)
  with k r show ?thesis by (simp add: receipt_def sameOperation_def journal_ok_def)
qed

lemma runWork_receipt:
  assumes "host_ok H" and "h_local H" and "journal_ok E H w" and "announced E H kind op (digest E H request) w"
    and "journal_free E H work" and "runWork E H kind op (digest E H request) work w = (Inr r, w1)"
    and "\<not> incompleteImport kind r"
  shows "receipt E H kind op (digest E H request) r w1 \<and> journal_ok E H w1 \<and>
    (\<exists>w2. work w = (Inr r, w2) \<and> j_inner w1 = j_inner w2)"
proof -
  obtain q w2 where q: "work w = (q, w2)" by (cases "work w")
  have "entries E H (snd (work w)) = entries E H w" using assms(5) unfolding journal_free_def by blast
  then have same: "entries E H w2 = entries E H w" using q by simp
  obtain r2 where r2: "q = Inr r2" using assms(6) q by (cases q) (auto simp: runWork_def)
  have "fst (work w) = Inr r2" using q r2 by simp
  then have plain: "json_plain r2 \<and> truthy r2" using assms(5) unfolding journal_free_def by blast
  have "r2 = r \<or> recordResult E H kind op (digest E H request) r2 w2 = (Inr r, w1)"
    using assms(6) q r2 by (auto simp: runWork_def split: if_splits)
  moreover have "\<not> incompleteImport kind r2 \<longrightarrow> recordResult E H kind op (digest E H request) r2 w2 = (Inr r, w1)"
    using assms(6) q r2 by (auto simp: runWork_def split: if_splits)
  ultimately have rec: "recordResult E H kind op (digest E H request) r2 w2 = (Inr r, w1)"
    using assms(7) by auto
  have "journal_ok E H w2" and "announced E H kind op (digest E H request) w2"
    using assms(3,4) same by (simp_all add: journal_ok_def announced_def)
  from recordResult_receipt [OF assms(1,2) this plain rec] q r2 show ?thesis by auto
qed

lemma perform_records:
  assumes "host_ok H" and "h_local H" and "journal_ok E H w" and "journal_free E H work"
    and "perform E H kind op request work w = (Inr r, w1)" and "\<not> incompleteImport kind r"
  shows "receipt E H kind op (digest E H request) r w1"
proof (cases "findEntry op (entries E H w)")
  case None
  then obtain u w0 where keep: "keep_entries E H (entries E H w @ [\<lparr> e_kind = kind, e_operationId = op,
      e_requestDigest = JStr (digest E H request), e_result = None \<rparr>]) op w = (Inr u, w0)"
    and run: "runWork E H kind op (digest E H request) work w0 = (Inr r, w1)"
    using assms(5) by (auto simp: perform_def Let_def split: prod.splits sum.splits)
  from keep_intent [OF assms(1-3) None keep] runWork_receipt [OF assms(1,2) _ _ assms(4) run assms(6)]
  show ?thesis by blast
next
  case (Some e)
  then have same: "sameOperation kind (digest E H request) e"
    using assms(5) by (auto simp: perform_def Let_def split: if_splits)
  show ?thesis
  proof (cases "e_result e")
    case None
    then have "runWork E H kind op (digest E H request) work w = (Inr r, w1)"
      using assms(5) Some same by (simp add: perform_def Let_def)
    moreover have "announced E H kind op (digest E H request) w" using Some same by (simp add: announced_def)
    ultimately show ?thesis using runWork_receipt [OF assms(1-3) _ assms(4) _ assms(6)] by blast
  next
    case (Some q)
    then have "r = q \<and> w1 = w"
      using assms(5) \<open>findEntry op (entries E H w) = Some e\<close> same by (simp add: perform_def Let_def)
    then show ?thesis
      using \<open>findEntry op (entries E H w) = Some e\<close> same Some by (simp add: receipt_def)
  qed
qed

text \<open>C2: Durable replay. Once an operation has succeeded, repeating it with any journal that still is as it
  was left, in this worker or after a restart, answers the recorded result, whatever the work would
  do: the work is not run and nothing is written. Relied on of the platform: authenticated
  encryption opens what it sealed, and SHA-256 gives 32 bytes.\<close>

theorem operation_replay:
  assumes "host_ok H" and "h_local H" and "journal_ok E H w" and "journal_free E H work"
    and "perform E H kind op request work w = (Inr r, w1)" and "\<not> incompleteImport kind r"
    and "entries E H w2 = entries E H w1"
  shows "perform E H kind op request work' w2 = (Inr r, w2)"
proof -
  have "receipt E H kind op (digest E H request) r w2"
    using perform_records [OF assms(1-6)] assms(7) by (simp add: receipt_def)
  then show ?thesis by (rule perform_receipt)
qed

text \<open>C9: No effect without an intent. An operation's work is only ever run in a world whose journal already
  holds the operation, under its kind and its request: two works that agree on such worlds cannot be
  told apart.\<close>

theorem intent_before_effect:
  assumes "host_ok H" and "h_local H" and "journal_ok E H w"
    and "\<And>u. announced E H kind op (digest E H request) u \<Longrightarrow> work u = work' u"
  shows "perform E H kind op request work w = perform E H kind op request work' w"
proof (cases "findEntry op (entries E H w)")
  case None
  let ?keep = "keep_entries E H (entries E H w @ [\<lparr> e_kind = kind, e_operationId = op,
      e_requestDigest = JStr (digest E H request), e_result = None \<rparr>]) op w"
  obtain q w0 where keep: "?keep = (q, w0)" by (cases ?keep)
  show ?thesis
  proof (cases q)
    case (Inr u)
    then have "announced E H kind op (digest E H request) w0"
      using keep_intent [OF assms(1-3) None] keep by blast
    from assms(4) [OF this] show ?thesis using None keep Inr by (simp add: perform_def Let_def runWork_def)
  qed (use None keep in \<open>simp add: perform_def Let_def\<close>)
next
  case (Some e)
  show ?thesis
  proof (cases "sameOperation kind (digest E H request) e")
    case True
    then have "announced E H kind op (digest E H request) w" using Some by (simp add: announced_def)
    from assms(4) [OF this] show ?thesis
      using Some by (simp add: perform_def Let_def runWork_def split: option.split)
  qed (use Some in \<open>simp add: perform_def Let_def\<close>)
qed

text \<open>An intent that cannot be stored, too large or not written, stops the operation: the work is not run and the vault is as
  it was.\<close>

lemma intent_refused:
  assumes "findEntry op (entries E H w) = None"
    and "keep_entries E H (entries E H w @ [\<lparr> e_kind = kind, e_operationId = op,
        e_requestDigest = JStr (digest E H request), e_result = None \<rparr>]) op w = (Inl err, w1)"
  shows "perform E H kind op request work w = (Inl err, w1) \<and> j_inner w1 = j_inner w \<and> j_vault w1 = j_vault w"
proof -
  have "j_inner w1 = j_inner w \<and> j_vault w1 = j_vault w"
    using assms(2) by (auto simp: keep_entries_def log_keep_def Let_def split: sum.splits if_splits option.splits)
  then show ?thesis using assms by (simp add: perform_def Let_def)
qed

lemma hex_digit_inject: "m < 16 \<Longrightarrow> n < 16 \<Longrightarrow> hex_digit m = hex_digit n \<Longrightarrow> m = n"
  by (drule arg_cong [of _ _ hex_val]) (simp only: hex_val_digit option.inject)

lemma hexByte_inject:
  assumes "a < 256" and "b < 256" and "hexByte a = hexByte b"
  shows "a = b"
proof -
  have less: "a div 16 < 16" "b div 16 < 16" "a mod 16 < 16" "b mod 16 < 16"
    using assms(1,2) by (simp_all add: div_less_iff_less_mult)
  have "hex_digit (a div 16) = hex_digit (b div 16)" "hex_digit (a mod 16) = hex_digit (b mod 16)"
    using assms(3) unfolding hexByte_def by (simp_all only: list.inject)
  then have "a div 16 = b div 16" "a mod 16 = b mod 16" using hex_digit_inject less by blast+
  then show ?thesis using div_mult_mod_eq [of a 16] div_mult_mod_eq [of b 16] by metis
qed

lemma hexes_inject:
  "\<forall>b \<in> set xs. b < 256 \<Longrightarrow> \<forall>b \<in> set ys. b < 256 \<Longrightarrow> length xs = length ys \<Longrightarrow>
     concat (map hexByte xs) = concat (map hexByte ys) \<longleftrightarrow> xs = ys"
proof (induction xs arbitrary: ys)
  case (Cons x xs)
  then obtain y zs where ys: "ys = y # zs" by (cases ys) auto
  have "length (hexByte x) = length (hexByte y)" by (simp add: hexByte_def)
  then show ?case using Cons ys hexByte_inject [of x y] by auto
qed simp

lemma digest_inject:
  "host_ok H \<Longrightarrow> digest E H q = digest E H r \<longleftrightarrow> h_sha256 H (utf8_encode (json_text E q)) = h_sha256 H (utf8_encode (json_text E r))"
  unfolding digest_def by (rule hexes_inject) (simp_all add: host_ok_def)

text \<open>C34: An operation id is not used twice for different things. Once an operation has succeeded, its id with another kind,
  or with a request whose JSON text has another SHA-256 hash, is refused as a conflict with any journal that still is as it
  was left: the work is not run and nothing is written.\<close>

theorem operation_refused:
  assumes "host_ok H" and "h_local H" and "journal_ok E H w" and "journal_free E H work"
    and "perform E H kind op request work w = (Inr r, w1)" and "\<not> incompleteImport kind r"
    and "entries E H w2 = entries E H w1"
    and "kind' \<noteq> kind \<or> h_sha256 H (utf8_encode (json_text E request')) \<noteq> h_sha256 H (utf8_encode (json_text E request))"
  shows "perform E H kind' op request' work' w2 = (Inl conflict, w2)"
proof -
  obtain e where e: "findEntry op (entries E H w2) = Some e" "e_kind e = kind" "e_requestDigest e = JStr (digest E H request)"
    using perform_records [OF assms(1-6)] assms(7) by (auto simp: receipt_def sameOperation_def)
  then have "\<not> sameOperation kind' (digest E H request') e"
    using assms(8) digest_inject [OF assms(1), of E request request'] by (auto simp: sameOperation_def)
  then show ?thesis using e(1) by (simp add: perform_def Let_def)
qed

section \<open>Below the service\<close>

lemma log_kept_inner [simp]: "log_kept E H name (w\<lparr> j_inner := u \<rparr>) = log_kept E H name w"
  by (simp add: log_kept_def)

lemma entries_inner [simp]: "entries E H (w\<lparr> j_inner := u \<rparr>) = entries E H w"
  by (simp add: entries_def Let_def)

lemma readCommand_value [simp]: "readCommand (commandValue r) = r"
  by (cases "c_outcome r"; cases "c_delivery r") (simp_all add: readCommand_def commandValue_def)

lemma readTask_value [simp]: "readTask (taskValue r) = r"
  by (simp add: readTask_def taskValue_def)

lemma commandValue_plain: "list_all json_plain (c_affected r) \<Longrightarrow> json_plain (commandValue r)"
proof -
  have "\<not> isIndexKey ''outcome'' \<and> \<not> isIndexKey ''delivery'' \<and> \<not> isIndexKey ''affected''"
    by (simp add: isIndexKey_def char_classes)
  moreover assume "list_all json_plain (c_affected r)"
  ultimately show ?thesis
    by (cases "c_outcome r"; cases "c_delivery r") (simp_all add: commandValue_def key_before_def)
qed

definition plain_commands :: "'w authority \<Rightarrow> jsval \<Rightarrow> string \<Rightarrow> bool" where
  "plain_commands A cmd op \<longleftrightarrow> (\<forall>w r. fst (a_command A cmd op w) = Inr r \<longrightarrow> list_all json_plain (c_affected r))"

lemma inside_journal_free:
  assumes "plain_commands A cmd op"
  shows "journal_free E H (\<lambda>w. mapped commandValue (inside (a_command A cmd op) w))"
  unfolding journal_free_def
proof (intro conjI allI impI)
  fix w :: "'a jworld"
  show "entries E H (snd (mapped commandValue (inside (a_command A cmd op) w))) = entries E H w"
    by (simp add: inside_def split_def)
  fix r assume "fst (mapped commandValue (inside (a_command A cmd op) w)) = Inr r"
  then obtain q where q: "fst (a_command A cmd op (j_inner w)) = Inr q" "r = commandValue q"
    by (cases "fst (a_command A cmd op (j_inner w))") (simp_all add: inside_def split_def)
  then have "list_all json_plain (c_affected q)" using assms by (auto simp: plain_commands_def)
  then show "json_plain r" and "truthy r" using q(2) commandValue_plain by (simp_all add: commandValue_def)
qed

text \<open>A command the journal has completed is answered from the journal, whatever the rest of the world is.\<close>

lemma durable_command_again:
  assumes "host_ok H" and "h_local H" and "journal_ok E H w" and "plain_commands A cmd op"
    and "a_command (durableAuthority E H A) cmd op w = (Inr r, w1)" and "entries E H u = entries E H w1"
  shows "a_command (durableAuthority E H A) cmd op u = (Inr r, u)"
proof -
  let ?work = "\<lambda>w. mapped commandValue (inside (a_command A cmd op) w)"
  obtain q where q: "perform E H CommandKind op cmd ?work w = (Inr q, w1)" "r = readCommand q"
    using assms(5) by (cases "perform E H CommandKind op cmd ?work w"; cases "fst (perform E H CommandKind op cmd ?work w)")
      (auto simp: durableAuthority_def)
  have "\<not> incompleteImport CommandKind q" by (simp add: incompleteImport_def)
  from perform_records [OF assms(1-3) inside_journal_free [OF assms(4)] q(1) this]
  have "receipt E H CommandKind op (digest E H cmd) q u" using assms(6) by (simp add: receipt_def)
  from perform_receipt [OF this] show ?thesis by (simp add: durableAuthority_def q(2))
qed

section \<open>Concrete operations\<close>

definition demo_host :: host where
  "demo_host = \<lparr> h_cipher = tag_cipher, h_sha256 = (\<lambda>_. replicate 32 0), h_nonce = (\<lambda>_. replicate 12 0),
     h_putError = (\<lambda>_. None), h_libraryId = ''lib'', h_local = True \<rparr>"

definition demo_jworld :: "nat jworld" where
  "demo_jworld = \<lparr> j_inner = 0, j_vault = [], j_writes = 0 \<rparr>"

lemma demo_host_ok: "host_ok demo_host" "h_local demo_host"
  by (simp_all add: host_ok_def demo_host_def tag_cipher_aead)

lemma demo_journal_ok: "entries E demo_host demo_jworld = []" "journal_ok E demo_host demo_jworld"
  by (simp_all add: journal_ok_def entries_def log_kept_def demo_host_def demo_jworld_def jm_get_def Let_def)

definition demo_result :: command_result where
  "demo_result = \<lparr> c_outcome = Applied, c_delivery = Synced, c_affected = [JObj [(''kind'', JStr ''all'')]] \<rparr>"

definition demo_work :: "nat jworld \<Rightarrow> (thrown + jsval) \<times> nat jworld" where
  "demo_work w = mapped commandValue (inside (a_command demo_authority demo_command ''o1'') w)"


lemma bounded_fits:
  assumes "length es \<le> ENTRY_LIMIT" and "journalBytes E es \<le> BYTE_LIMIT"
  shows "bounded E es op = Inr es"
  using assms by (simp add: bounded_def Let_def lastEntries_all evict.simps [of E op es])

lemma keep_entries_fits:
  assumes "host_ok H" and "h_local H" and "h_putError H = (\<lambda>_. None)" and "list_all entry_ok es"
    and "length es \<le> ENTRY_LIMIT" and "journalBytes E es \<le> BYTE_LIMIT"
  shows "\<exists>w1. keep_entries E H es op w = (Inr (), w1) \<and> entries E H w1 = es \<and> j_inner w1 = j_inner w"
proof -
  obtain w1 where keep: "keep_entries E H es op w = (Inr (), w1)"
    using assms(2,3) bounded_fits [OF assms(5,6)] by (simp add: keep_entries_def log_keep_def Let_def)
  from keep_entries_stores [OF assms(1,2,4) keep] bounded_fits [OF assms(5,6), of op] keep show ?thesis by auto
qed

definition demo_entry :: "jsval option \<Rightarrow> entry" where
  "demo_entry r = \<lparr> e_kind = CommandKind, e_operationId = ''o1'', e_requestDigest = JStr (replicate 64 CHR ''0''), e_result = r \<rparr>"

lemma demo_digest: "digest E demo_host request = replicate 64 CHR ''0''"
proof -
  have "hexByte 0 = [CHR ''0'', CHR ''0'']" by (simp add: hexByte_def hex_digit_def char_of_def bit_Suc_0_iff)
  then have "concat (map hexByte (replicate n 0)) = replicate (2 * n) CHR ''0''" for n
    by (induction n) simp_all
  from this [of 32] show ?thesis by (simp add: digest_def demo_host_def)
qed

lemma demo_bytes:
  "journalBytes plain_env [demo_entry None] \<le> BYTE_LIMIT"
  "journalBytes plain_env [demo_entry (Some (commandValue demo_result))] \<le> BYTE_LIMIT"
  "length (utf8_encode (json_text plain_env (commandValue demo_result))) \<le> RESULT_BYTE_LIMIT"
proof -
  have "journalBytes plain_env [demo_entry None] \<le> 512" by code_simp
  moreover have "journalBytes plain_env [demo_entry (Some (commandValue demo_result))] \<le> 512" by code_simp
  moreover have "length (utf8_encode (json_text plain_env (commandValue demo_result))) \<le> 512" by code_simp
  ultimately show "journalBytes plain_env [demo_entry None] \<le> BYTE_LIMIT"
    "journalBytes plain_env [demo_entry (Some (commandValue demo_result))] \<le> BYTE_LIMIT"
    "length (utf8_encode (json_text plain_env (commandValue demo_result))) \<le> RESULT_BYTE_LIMIT"
    by (simp_all add: BYTE_LIMIT_def RESULT_BYTE_LIMIT_def)
qed

lemma demo_entry_ok: "entry_ok (demo_entry None)" "entry_ok (demo_entry (Some (commandValue demo_result)))"
proof -
  have "re_exactly isHexLower 64 (replicate 64 CHR ''0'')" by (simp add: re_exactly_def char_classes list_all_iff)
  moreover have "json_plain (commandValue demo_result)"
    by (rule commandValue_plain) (simp add: demo_result_def)
  ultimately show "entry_ok (demo_entry None)" "entry_ok (demo_entry (Some (commandValue demo_result)))"
    by (simp_all add: entry_ok_def demo_entry_def commandValue_def)
qed

lemma demo_performs:
  "\<exists>w1. perform plain_env demo_host CommandKind ''o1'' demo_command demo_work demo_jworld =
     (Inr (commandValue demo_result), w1) \<and> j_inner w1 = 1"
proof -
  have puts: "h_putError demo_host = (\<lambda>_. None)" by (simp add: demo_host_def)
  let ?r = "commandValue demo_result"
  obtain w1 where w1: "keep_entries plain_env demo_host [demo_entry None] ''o1'' demo_jworld = (Inr (), w1)"
    "entries plain_env demo_host w1 = [demo_entry None]" "j_inner w1 = 0"
    using keep_entries_fits [OF demo_host_ok puts, of "[demo_entry None]" plain_env "''o1''" demo_jworld] demo_entry_ok demo_bytes
    by (auto simp: ENTRY_LIMIT_def demo_jworld_def)
  have work: "demo_work w1 = (Inr ?r, w1\<lparr> j_inner := 1 \<rparr>)"
    using w1(3) by (simp add: demo_work_def inside_def demo_authority_def demo_result_def)
  obtain w2 where w2: "keep_entries plain_env demo_host [demo_entry (Some ?r)] ''o1'' (w1\<lparr> j_inner := 1 \<rparr>) = (Inr (), w2)"
    "j_inner w2 = 1"
    using keep_entries_fits [OF demo_host_ok puts, of "[demo_entry (Some ?r)]" plain_env "''o1''" "w1\<lparr> j_inner := 1 \<rparr>"]
      demo_entry_ok demo_bytes by (auto simp: ENTRY_LIMIT_def)
  have "runWork plain_env demo_host CommandKind ''o1'' (replicate 64 CHR ''0'') demo_work w1 = (Inr ?r, w2)"
    using work w1(2) w2(1) demo_bytes(3)
    by (simp add: runWork_def incompleteImport_def recordResult_def Let_def findEntry_def sameOperation_def)
      (simp add: demo_entry_def)
  then have "perform plain_env demo_host CommandKind ''o1'' demo_command demo_work demo_jworld = (Inr ?r, w2)"
    using w1(1) by (simp add: perform_def demo_digest demo_journal_ok findEntry_def demo_entry_def)
  then show ?thesis using w2(2) by blast
qed

lemma demo_plain: "plain_commands demo_authority demo_command ''o1''"
  by (simp add: plain_commands_def demo_authority_def)

lemma demo_work_free: "journal_free E demo_host demo_work"
  using inside_journal_free [OF demo_plain, of E demo_host] by (simp add: demo_work_def [abs_def])

theorem operation_replay_witness:
  "\<exists>w1. perform plain_env demo_host CommandKind ''o1'' demo_command demo_work demo_jworld =
      (Inr (commandValue demo_result), w1) \<and>
    perform plain_env demo_host CommandKind ''o1'' demo_command (\<lambda>w. (Inl OtherThrown, w)) w1 =
      (Inr (commandValue demo_result), w1)"
proof -
  obtain w1 where w1: "perform plain_env demo_host CommandKind ''o1'' demo_command demo_work demo_jworld =
      (Inr (commandValue demo_result), w1)" using demo_performs by blast
  moreover have "\<not> incompleteImport CommandKind (commandValue demo_result)" by (simp add: incompleteImport_def)
  ultimately show ?thesis
    using operation_replay [OF demo_host_ok demo_journal_ok(2) demo_work_free _ _ refl] by blast
qed

theorem intent_before_effect_witness:
  "perform plain_env demo_host CommandKind ''o1'' demo_command demo_work demo_jworld =
   perform plain_env demo_host CommandKind ''o1'' demo_command
     (\<lambda>u. if announced plain_env demo_host CommandKind ''o1'' (digest plain_env demo_host demo_command) u
          then demo_work u else (Inl OtherThrown, u)) demo_jworld"
  by (rule intent_before_effect [OF demo_host_ok demo_journal_ok(2)]) simp

theorem operation_refused_witness:
  "\<exists>w1. perform plain_env demo_host CommandKind ''o1'' demo_command demo_work demo_jworld = (Inr (commandValue demo_result), w1) \<and>
     perform plain_env demo_host TaskKind ''o1'' demo_command demo_work w1 = (Inl conflict, w1)"
proof -
  obtain w1 where w1: "perform plain_env demo_host CommandKind ''o1'' demo_command demo_work demo_jworld =
      (Inr (commandValue demo_result), w1)" using demo_performs by blast
  moreover have "\<not> incompleteImport CommandKind (commandValue demo_result)" by (simp add: incompleteImport_def)
  ultimately show ?thesis
    using operation_refused [OF demo_host_ok demo_journal_ok(2) demo_work_free w1 _ refl, of TaskKind] by simp
qed

theorem bounded_keeps_witness:
  "\<exists>kept. bounded plain_env [(demo_entry None)\<lparr> e_operationId := ''o2'' \<rparr>, demo_entry None] ''o1'' = Inr kept \<and>
     kept = [(demo_entry None)\<lparr> e_operationId := ''o2'' \<rparr>, demo_entry None]"
proof -
  let ?es = "[(demo_entry None)\<lparr> e_operationId := ''o2'' \<rparr>, demo_entry None]"
  have "journalBytes plain_env ?es \<le> 1024" by code_simp
  then have small: "\<not> journalBytes plain_env (drop_others ''o1'' 0 ?es) > 256 * 1024" by simp
  have "\<exists>e \<in> set (drop (length ?es - 64) ?es). e_operationId e = ''o1''" by (simp add: demo_entry_def)
  from bounded_keeps [OF this, of plain_env] show ?thesis
  proof (cases "bounded plain_env ?es ''o1''")
    case (Inl e)
    have "journalBytes plain_env (filter (\<lambda>e. e_operationId e = ''o1'') ?es) \<le> 512" by code_simp
    then show ?thesis using bounded_keeps [of ?es "''o1''" plain_env] Inl by (simp add: demo_entry_def)
  next
    case (Inr kept)
    then obtain k where "kept = drop_others ''o1'' k ?es" "\<forall>j < k. journalBytes plain_env (drop_others ''o1'' j ?es) > 256 * 1024"
      using bounded_keeps [of ?es "''o1''" plain_env] by (auto simp: demo_entry_def)
    moreover from this small have "k = 0" by (metis gr0I)
    ultimately show ?thesis using Inr by simp
  qed
qed

lemma demo_durable_command:
  obtains w1 where "a_command (durableAuthority plain_env demo_host demo_authority) demo_command ''o1'' demo_jworld = (Inr demo_result, w1)"
    and "j_inner w1 = 1"
proof -
  obtain w1 where "perform plain_env demo_host CommandKind ''o1'' demo_command demo_work demo_jworld =
      (Inr (commandValue demo_result), w1)" and "j_inner w1 = 1" using demo_performs by blast
  then show thesis using that [of w1] by (simp add: durableAuthority_def demo_work_def [abs_def])
qed

end
