(* ===== verification/Scheduler.thy ===== *)
theory Scheduler
  imports CoreFacts Transitions
begin

text \<open>
  \<^verbatim>\<open>web/src/lib/libraryServiceScheduledAuthority.ts\<close>: the refresh loop of the service, wrapped around an
  authority. A pass of maintenance, a delivery and a close each run over several turns of the event loop;
  every stretch between two awaits is one function here, and the step relation interleaves them with the
  calls of the service, the timers and the observations of the page in any order. The read of the log, the
  background work and the delivery are injected: a step takes what they answered.
\<close>

section \<open>State\<close>

definition ACTIVE_PLAYBACK_REFRESH_MS :: int where "ACTIVE_PLAYBACK_REFRESH_MS = 5000"
definition VISIBLE_REFRESH_MS :: int where "VISIBLE_REFRESH_MS = 30000"
definition HELD_WAIT_SECONDS :: int where "HELD_WAIT_SECONDS = 25"
definition HELD_AFTER_MS :: int where "HELD_AFTER_MS = HELD_WAIT_SECONDS * 1000 div 2"
definition HELD_SPACING_MS :: int where "HELD_SPACING_MS = 1000"

lemmas refresh_defs = ACTIVE_PLAYBACK_REFRESH_MS_def VISIBLE_REFRESH_MS_def HELD_WAIT_SECONDS_def HELD_AFTER_MS_def
  HELD_SPACING_MS_def

datatype maintenance_mode = OnlineMode | LocalMode

text \<open>What the constructor was given. \<open>background\<close> and \<open>delivery\<close> are optional.\<close>

record sched_config =
  g_mode :: maintenance_mode
  g_background :: bool
  g_delivery :: bool

text \<open>What the clock reads in one step, and what the background work says of its next turn then.\<close>

record tick =
  k_now :: int
  k_background :: "int option"

datatype pass_phase = Maintaining | InBackground | PassSettled

text \<open>The promise of \<open>#run\<close> and its local variables; \<open>p_hold\<close> stands for its \<open>AbortController\<close>.\<close>

record pass =
  p_hold :: nat
  p_wait :: int
  p_started :: int
  p_changed :: bool
  p_read :: int
  p_phase :: pass_phase

record delivery_run =
  d_epoch :: nat
  d_settled :: bool

text \<open>How far a call of \<open>close\<close> has come: not called, awaiting the pass, awaiting the delivery, done.\<close>

datatype close_phase = NotClosing | AwaitPass | AwaitDelivery | InnerClosed

text \<open>The fields of the class. The platform's timers that have not fired are \<open>h_timers\<close>, each with its
  delay; \<open>h_next\<close> numbers timers and controllers, and \<open>h_events\<close> is what the listeners were told.\<close>

record scheduler =
  h_lifecycle :: jsval
  h_timer :: "nat option"
  h_running :: "pass option"
  h_holding :: "nat option"
  h_aborted :: "nat list"
  h_deliveryRunning :: "delivery_run option"
  h_deliveryPending :: bool
  h_deliveryWaits :: bool
  h_deliveryEpoch :: nat
  h_foregroundReady :: bool
  h_lastStatus :: "authority_status option"
  h_halted :: bool
  h_closed :: bool
  h_closing :: close_phase
  h_timers :: "(nat \<times> int) list"
  h_next :: nat
  h_events :: "authority_event list"

definition new_scheduler :: scheduler where
  "new_scheduler =
    \<lparr> h_lifecycle = JObj [(''kind'', JStr ''lifecycle''), (''visible'', JBool False), (''online'', JBool False),
        (''playbackActive'', JBool False)],
      h_timer = None, h_running = None, h_holding = None, h_aborted = [], h_deliveryRunning = None,
      h_deliveryPending = False, h_deliveryWaits = False, h_deliveryEpoch = 0, h_foregroundReady = False,
      h_lastStatus = None, h_halted = False, h_closed = False, h_closing = NotClosing, h_timers = [], h_next = 0,
      h_events = [] \<rparr>"

section \<open>Eligibility and timers\<close>

abbreviation life :: "string \<Rightarrow> scheduler \<Rightarrow> bool" where
  "life k s \<equiv> truthy (fld (h_lifecycle s) k)"

definition eligible :: "sched_config \<Rightarrow> scheduler \<Rightarrow> bool" where
  "eligible G s =
    (if h_halted s \<or> \<not> life ''visible'' s \<or> life ''playerOpen'' s then False
     else g_mode G = LocalMode \<or> life ''online'' s)"

definition interval :: "sched_config \<Rightarrow> tick \<Rightarrow> scheduler \<Rightarrow> int" where
  "interval G K s =
    (let maintenance = (if life ''playbackActive'' s then ACTIVE_PLAYBACK_REFRESH_MS else VISIBLE_REFRESH_MS) in
     if \<not> g_background G \<or> \<not> h_foregroundReady s \<or> \<not> life ''online'' s then maintenance
     else case k_background K of None \<Rightarrow> maintenance | Some background \<Rightarrow> min maintenance background)"

definition cancelTimer :: "scheduler \<Rightarrow> scheduler" where
  "cancelTimer s =
    (case h_timer s of
       None \<Rightarrow> s
     | Some t \<Rightarrow> s\<lparr> h_timers := filter (\<lambda>(i, _). i \<noteq> t) (h_timers s), h_timer := None \<rparr>)"

definition schedule :: "sched_config \<Rightarrow> int \<Rightarrow> scheduler \<Rightarrow> scheduler" where
  "schedule G delay s =
    (let s1 = cancelTimer s in
     if h_closed s1 \<or> \<not> eligible G s1 then s1
     else if g_mode G = LocalMode \<and> h_running s1 \<noteq> None then s1
     else s1\<lparr> h_deliveryWaits := (delay = 0 \<and> h_foregroundReady s1), h_timer := Some (h_next s1),
            h_timers := h_timers s1 @ [(h_next s1, max 0 delay)], h_next := Suc (h_next s1) \<rparr>)"

definition nextDelay :: "sched_config \<Rightarrow> tick \<Rightarrow> bool \<Rightarrow> int \<Rightarrow> int \<Rightarrow> scheduler \<Rightarrow> int" where
  "nextDelay G K changed read elapsed s =
    (if life ''playbackActive'' s then max 0 (interval G K s - elapsed)
     else let held = (if changed then max 0 (HELD_SPACING_MS - elapsed)
                      else if read \<ge> HELD_AFTER_MS then 0
                      else max 0 (VISIBLE_REFRESH_MS - elapsed))
          in min held (max 0 (interval G K s - elapsed)))"

section \<open>Events, deliveries and passes\<close>

text \<open>\<open>#emit\<close>. A listener that throws is logged and changes nothing.\<close>

definition emit_event :: "authority_event \<Rightarrow> scheduler \<Rightarrow> scheduler" where
  "emit_event event s =
    (if h_closed s then s
     else
       let s1 = (case event of StatusEvent status \<Rightarrow> s\<lparr> h_lastStatus := Some status \<rparr> | _ \<Rightarrow> s);
           s2 = (case event of
                   StatusEvent (StatusMoved _) \<Rightarrow> (cancelTimer (s1\<lparr> h_halted := True \<rparr>))\<lparr> h_deliveryWaits := False \<rparr>
                 | _ \<Rightarrow> s1)
       in s2\<lparr> h_events := h_events s2 @ [event] \<rparr>)"

text \<open>\<open>sameStatus\<close> compares the JSON of two statuses, which determines them.\<close>

definition announce :: "authority_status \<Rightarrow> scheduler \<Rightarrow> scheduler" where
  "announce status s =
    (if h_lastStatus s = Some status then s
     else emit_event (StatusEvent status) (s\<lparr> h_lastStatus := Some status \<rparr>))"

definition requestDelivery :: "sched_config \<Rightarrow> scheduler \<Rightarrow> scheduler" where
  "requestDelivery G s =
    (if h_closed s \<or> \<not> g_delivery G \<or> \<not> h_foregroundReady s \<or> \<not> eligible G s \<or> g_mode G \<noteq> OnlineMode then s
     else if h_deliveryWaits s then s
     else if h_running s \<noteq> None then s
     else if h_deliveryRunning s \<noteq> None then s\<lparr> h_deliveryPending := True \<rparr>
     else s\<lparr> h_deliveryRunning := Some \<lparr> d_epoch = h_deliveryEpoch s, d_settled = False \<rparr> \<rparr>)"

text \<open>The function \<open>current\<close> a delivery is handed.\<close>

definition delivery_current :: "sched_config \<Rightarrow> delivery_run \<Rightarrow> scheduler \<Rightarrow> bool" where
  "delivery_current G d s \<longleftrightarrow>
     d_epoch d = h_deliveryEpoch s \<and> \<not> h_closed s \<and> eligible G s \<and> life ''online'' s"

definition delivery_answered :: "(unit + bool) \<Rightarrow> delivery_run \<Rightarrow> scheduler \<Rightarrow> scheduler" where
  "delivery_answered answer d s =
    (let s1 = (if answer = Inr True
               then emit_event (Changed [JObj [(''kind'', JStr ''simkl'')], JObj [(''kind'', JStr ''connections'')]]) s
               else s)
     in s1\<lparr> h_deliveryRunning := Some (d\<lparr> d_settled := True \<rparr>) \<rparr>)"

definition delivery_finally :: "sched_config \<Rightarrow> scheduler \<Rightarrow> scheduler" where
  "delivery_finally G s =
    (let s1 = s\<lparr> h_deliveryRunning := None, h_deliveryPending := False \<rparr> in
     if h_deliveryPending s then requestDelivery G s1 else s1)"

text \<open>\<open>#run\<close>: up to its first await.\<close>

definition sched_run :: "tick \<Rightarrow> scheduler \<Rightarrow> scheduler" where
  "sched_run K s =
    (if h_running s \<noteq> None then s
     else s\<lparr> h_holding := Some (h_next s),
            h_running := Some \<lparr> p_hold = h_next s,
              p_wait = (if life ''playbackActive'' s then ACTIVE_PLAYBACK_REFRESH_MS div 1000 else HELD_WAIT_SECONDS),
              p_started = k_now K, p_changed = False, p_read = 0, p_phase = Maintaining \<rparr>,
            h_next := Suc (h_next s) \<rparr>)"

text \<open>After the maintenance answered whether something changed, and the status, or rejected.\<close>

definition maintenance_answered ::
  "sched_config \<Rightarrow> tick \<Rightarrow> (unit + bool \<times> authority_status) \<Rightarrow> pass \<Rightarrow> scheduler \<Rightarrow> scheduler" where
  "maintenance_answered G K answer p s =
    (case answer of
       Inl _ \<Rightarrow>
         (if h_closed s then s else announce StatusReconnecting s)\<lparr> h_running := Some (p\<lparr> p_phase := PassSettled \<rparr>) \<rparr>
     | Inr (changed, status) \<Rightarrow>
         let p1 = p\<lparr> p_read := k_now K - p_started p, p_changed := changed \<rparr> in
         if h_closed s then s\<lparr> h_running := Some (p1\<lparr> p_phase := PassSettled \<rparr>) \<rparr>
         else
           let s1 = (if changed then emit_event (Changed [JObj [(''kind'', JStr ''all'')]]) s else s);
               s2 = announce status s1;
               phase = (if g_background G \<and> h_foregroundReady s2 \<and> life ''online'' s2 then InBackground else PassSettled)
           in s2\<lparr> h_running := Some (p1\<lparr> p_phase := phase \<rparr>) \<rparr>)"

definition downloads_changed :: authority_event where
  "downloads_changed = Changed [JObj [(''kind'', JStr ''downloads'')]]"

definition background_answered :: "(unit + bool) \<Rightarrow> pass \<Rightarrow> scheduler \<Rightarrow> scheduler" where
  "background_answered answer p s =
    (if answer = Inr True \<and> \<not> h_closed s then emit_event downloads_changed s else s)
      \<lparr> h_running := Some (p\<lparr> p_phase := PassSettled \<rparr>) \<rparr>"

text \<open>The \<open>finally\<close> of a pass.\<close>

definition pass_finally :: "sched_config \<Rightarrow> tick \<Rightarrow> pass \<Rightarrow> scheduler \<Rightarrow> scheduler" where
  "pass_finally G K p s =
    (let s1 = s\<lparr> h_running := None, h_holding := (if h_holding s = Some (p_hold p) then None else h_holding s),
                h_deliveryWaits := False \<rparr>;
         s2 = requestDelivery G s1
     in if \<not> h_closed s2 \<and> eligible G s2 \<and> g_mode G = OnlineMode
        then schedule G (nextDelay G K (p_changed p) (p_read p) (max 0 (k_now K - p_started p)) s2) s2
        else s2)"

text \<open>What a timer runs.\<close>

definition timer_fires :: "tick \<Rightarrow> nat \<Rightarrow> scheduler \<Rightarrow> scheduler" where
  "timer_fires K t s = sched_run K (s\<lparr> h_timers := filter (\<lambda>(i, _). i \<noteq> t) (h_timers s), h_timer := None \<rparr>)"

section \<open>The wrapped authority\<close>

text \<open>\<open>this.#holding?.abort()\<close>.\<close>

definition abort_holding :: "scheduler \<Rightarrow> scheduler" where
  "abort_holding s =
    (case h_holding s of None \<Rightarrow> s | Some c \<Rightarrow> s\<lparr> h_aborted := List.insert c (h_aborted s) \<rparr>)"

text \<open>\<open>observe\<close> once the authority below has answered.\<close>

definition sched_observe :: "sched_config \<Rightarrow> tick \<Rightarrow> jsval \<Rightarrow> scheduler \<Rightarrow> scheduler" where
  "sched_observe G K ob s =
    (if h_closed s then s
     else if fld ob ''kind'' = JStr ''foreground-ready'' then
       requestDelivery G
         (if h_foregroundReady s then s
          else let s1 = s\<lparr> h_foregroundReady := True \<rparr> in if eligible G s1 then schedule G 0 s1 else s1)
     else if fld ob ''kind'' \<noteq> JStr ''lifecycle'' then s
     else
       let wasEligible = eligible G s; previousInterval = interval G K s; s1 = s\<lparr> h_lifecycle := ob \<rparr> in
       if \<not> eligible G s1 then
         (let s2 = abort_holding s1 in
          (cancelTimer (s2\<lparr> h_deliveryEpoch := Suc (h_deliveryEpoch s2) \<rparr>))\<lparr> h_deliveryWaits := False \<rparr>)
       else if \<not> wasEligible then schedule G 0 s1
       else if interval G K s1 \<noteq> previousInterval then schedule G (interval G K s1) s1
       else s1)"

record 'w sworld =
  w_inner :: 'w
  w_sched :: scheduler

definition sched_inside ::
  "('w \<Rightarrow> 'r \<times> 'w) \<Rightarrow> ('r \<Rightarrow> scheduler \<Rightarrow> scheduler) \<Rightarrow> 'w sworld \<Rightarrow> 'r \<times> 'w sworld" where
  "sched_inside call react w =
    (case call (w_inner w) of (r, u) \<Rightarrow> (r, w\<lparr> w_inner := u, w_sched := react r (w_sched w) \<rparr>))"

definition scheduledAuthority :: "sched_config \<Rightarrow> tick \<Rightarrow> 'w authority \<Rightarrow> 'w sworld authority" where
  "scheduledAuthority G K A =
    \<lparr> a_open = (\<lambda>req. sched_inside (a_open A req) (\<lambda>_ s. s)),
      a_generation = (\<lambda>w. a_generation A (w_inner w)),
      a_select = (\<lambda>sel. sched_inside (a_select A sel) (\<lambda>_ s. s)),
      a_command = (\<lambda>cmd op. sched_inside (a_command A cmd op)
         (\<lambda>r s. case r of Inr result \<Rightarrow> if c_outcome result = Applied then requestDelivery G s else s | Inl _ \<Rightarrow> s)),
      a_query = (\<lambda>q. sched_inside (a_query A q) (\<lambda>_ s. s)),
      a_task = (\<lambda>t op. sched_inside (a_task A t op)
         (\<lambda>r s. case r of Inr result \<Rightarrow> if t_affected result \<noteq> [] then requestDelivery G s else s | Inl _ \<Rightarrow> s)),
      a_observe = (\<lambda>ob. sched_inside (a_observe A ob)
         (\<lambda>r s. case r of Inr _ \<Rightarrow> sched_observe G K ob s | Inl _ \<Rightarrow> s)) \<rparr>"

text \<open>\<open>close\<close>: what it does at once; after the pass it awaits; after the delivery.\<close>

definition sched_close_begin :: "scheduler \<Rightarrow> scheduler" where
  "sched_close_begin s =
    (if h_closed s then s
     else let s1 = abort_holding (s\<lparr> h_closed := True \<rparr>) in
       (cancelTimer (s1\<lparr> h_deliveryEpoch := Suc (h_deliveryEpoch s1) \<rparr>))\<lparr> h_deliveryWaits := False, h_closing := AwaitPass \<rparr>)"

definition sched_close_continue :: "scheduler \<Rightarrow> scheduler" where
  "sched_close_continue s =
    (if h_closing s = AwaitPass \<and> (case h_running s of None \<Rightarrow> True | Some p \<Rightarrow> p_phase p = PassSettled)
     then s\<lparr> h_closing := AwaitDelivery \<rparr>
     else if h_closing s = AwaitDelivery \<and> (case h_deliveryRunning s of None \<Rightarrow> True | Some d \<Rightarrow> d_settled d)
     then s\<lparr> h_closing := InnerClosed \<rparr>
     else s)"

section \<open>The maintenance of the log\<close>

text \<open>The log is injected: \<open>refresh\<close> and \<open>compact\<close> answer whether something changed, or throw.\<close>

record 'l log_port =
  l_refresh :: "int \<Rightarrow> 'l \<Rightarrow> (unit + bool) \<times> 'l"
  l_compact :: "'l \<Rightarrow> (unit + bool) \<times> 'l"
  l_moved :: "'l \<Rightarrow> bool"
  l_upgradeRequired :: "'l \<Rightarrow> int option"
  l_readOnlyReason :: "'l \<Rightarrow> string option"

definition logStatus :: "'l log_port \<Rightarrow> 'l \<Rightarrow> authority_status" where
  "logStatus L l =
    (if l_moved L l then StatusMoved None
     else case l_upgradeRequired L l of
            Some wire \<Rightarrow> StatusFailed \<lparr> f_code = ''update-required'',
              f_message = ''A newer version of Den is required to open this library.'', f_retryable = False,
              f_expectedProtocol = None, f_requiredWire = Some wire \<rparr>
          | None \<Rightarrow>
              (case l_readOnlyReason L l of
                 Some reason \<Rightarrow> if reason = [] then StatusReady else StatusReadOnly reason
               | None \<Rightarrow> StatusReady))"

definition libraryLogMaintenance ::
  "'l log_port \<Rightarrow> maintenance_mode \<Rightarrow> int \<Rightarrow> 'l \<Rightarrow> (unit + bool \<times> authority_status) \<times> 'l" where
  "libraryLogMaintenance L mode waitSeconds l =
    (case (if mode = OnlineMode then l_refresh L waitSeconds l else (Inr False, l)) of
       (Inl e, l1) \<Rightarrow> (Inl e, l1)
     | (Inr changed, l1) \<Rightarrow>
         if l_moved L l1 then (Inr (changed, logStatus L l1), l1)
         else if mode = OnlineMode
         then (case l_compact L l1 of
                 (Inl e, l2) \<Rightarrow> (Inl e, l2)
               | (Inr c, l2) \<Rightarrow> (Inr (c \<or> changed, logStatus L l2), l2))
         else (Inr (changed, logStatus L l1), l1))"

section \<open>Steps\<close>

text \<open>Everything that can happen to the scheduler, in any order. The service calls the wrapped authority;
  the authority below and the background work announce events; promises settle; timers fire.\<close>

inductive sched_step :: "sched_config \<Rightarrow> 'w authority \<Rightarrow> 'w sworld \<Rightarrow> 'w sworld \<Rightarrow> bool" for G A where
  commands: "a_command (scheduledAuthority G K A) cmd op w = (r, w') \<Longrightarrow> sched_step G A w w'"
| tasks: "a_task (scheduledAuthority G K A) t op w = (r, w') \<Longrightarrow> sched_step G A w w'"
| observes: "a_observe (scheduledAuthority G K A) ob w = (r, w') \<Longrightarrow> sched_step G A w w'"
| reads: "a_select (scheduledAuthority G K A) q w = (r, w') \<or> a_query (scheduledAuthority G K A) q w = (r, w') \<Longrightarrow>
    sched_step G A w w'"
| announces: "sched_step G A w (w\<lparr> w_sched := emit_event event (w_sched w) \<rparr>)"
| fires: "(t, d) \<in> set (h_timers (w_sched w)) \<Longrightarrow> sched_step G A w (w\<lparr> w_sched := timer_fires K t (w_sched w) \<rparr>)"
| maintains: "h_running (w_sched w) = Some p \<Longrightarrow> p_phase p = Maintaining \<Longrightarrow>
    sched_step G A w (w\<lparr> w_inner := u, w_sched := maintenance_answered G K answer p (w_sched w) \<rparr>)"
| backgrounds: "h_running (w_sched w) = Some p \<Longrightarrow> p_phase p = InBackground \<Longrightarrow>
    sched_step G A w (w\<lparr> w_inner := u, w_sched := background_answered done p (w_sched w) \<rparr>)"
| finishes: "h_running (w_sched w) = Some p \<Longrightarrow> p_phase p = PassSettled \<Longrightarrow>
    sched_step G A w (w\<lparr> w_sched := pass_finally G K p (w_sched w) \<rparr>)"
| delivers: "h_deliveryRunning (w_sched w) = Some d \<Longrightarrow> \<not> d_settled d \<Longrightarrow>
    sched_step G A w (w\<lparr> w_inner := u, w_sched := delivery_answered done d (w_sched w) \<rparr>)"
| delivered: "h_deliveryRunning (w_sched w) = Some d \<Longrightarrow> d_settled d \<Longrightarrow>
    sched_step G A w (w\<lparr> w_sched := delivery_finally G (w_sched w) \<rparr>)"
| closes: "sched_step G A w (w\<lparr> w_sched := sched_close_begin (w_sched w) \<rparr>)"
| closing: "sched_step G A w (w\<lparr> w_sched := sched_close_continue (w_sched w) \<rparr>)"

inductive_cases sched_step_cases: "sched_step G A w w'"

section \<open>The invariant\<close>

definition last_status :: "authority_event list \<Rightarrow> authority_status option" where
  "last_status es = foldl (\<lambda>a e. case e of StatusEvent status \<Rightarrow> Some status | Changed _ \<Rightarrow> a) None es"

lemma last_status_simps [simp]:
  "last_status [] = None"
  "last_status (es @ [Changed xs]) = last_status es"
  "last_status (es @ [StatusEvent status]) = Some status"
  by (simp_all add: last_status_def)

definition pass_over :: "scheduler \<Rightarrow> bool" where
  "pass_over s \<longleftrightarrow> (case h_running s of None \<Rightarrow> True | Some p \<Rightarrow> p_phase p = PassSettled)"

definition delivery_over :: "scheduler \<Rightarrow> bool" where
  "delivery_over s \<longleftrightarrow> (case h_deliveryRunning s of None \<Rightarrow> True | Some d \<Rightarrow> d_settled d)"

text \<open>The platform holds exactly the timer the class remembers.\<close>

definition timer_ok :: "scheduler \<Rightarrow> bool" where
  "timer_ok s \<longleftrightarrow> map fst (h_timers s) = (case h_timer s of None \<Rightarrow> [] | Some t \<Rightarrow> [t])"

text \<open>A timer is armed only for an open, eligible page, and an online one is always armed or being read.\<close>

definition polling_ok :: "sched_config \<Rightarrow> scheduler \<Rightarrow> bool" where
  "polling_ok G s \<longleftrightarrow>
     (h_timer s \<noteq> None \<longrightarrow> \<not> h_closed s \<and> eligible G s) \<and>
     (\<not> h_closed s \<and> eligible G s \<and> g_mode G = OnlineMode \<longrightarrow> h_timer s \<noteq> None \<or> h_running s \<noteq> None) \<and>
     (h_deliveryWaits s \<longrightarrow> h_timer s \<noteq> None \<or> h_running s \<noteq> None) \<and>
     h_holding s = map_option p_hold (h_running s)"

definition told_ok :: "scheduler \<Rightarrow> bool" where
  "told_ok s \<longleftrightarrow> h_lastStatus s = last_status (h_events s) \<and>
     (\<forall>successor. StatusEvent (StatusMoved successor) \<in> set (h_events s) \<longrightarrow> h_halted s)"

definition delivery_ok :: "sched_config \<Rightarrow> scheduler \<Rightarrow> bool" where
  "delivery_ok G s \<longleftrightarrow>
     (case h_deliveryRunning s of
        None \<Rightarrow> \<not> h_deliveryPending s
      | Some d \<Rightarrow> d_epoch d \<le> h_deliveryEpoch s \<and>
          (d_epoch d = h_deliveryEpoch s \<longrightarrow> \<not> h_closed s \<and> (eligible G s \<or> h_halted s)))"

definition closing_ok :: "scheduler \<Rightarrow> bool" where
  "closing_ok s \<longleftrightarrow> (h_closed s \<longleftrightarrow> h_closing s \<noteq> NotClosing) \<and>
     (h_closing s = AwaitDelivery \<or> h_closing s = InnerClosed \<longrightarrow> pass_over s) \<and>
     (h_closing s = InnerClosed \<longrightarrow> delivery_over s)"

definition sched_inv :: "sched_config \<Rightarrow> scheduler \<Rightarrow> bool" where
  "sched_inv G s \<longleftrightarrow> timer_ok s \<and> polling_ok G s \<and> told_ok s \<and> delivery_ok G s \<and> closing_ok s"

lemma eligible_frame [simp]:
  "eligible G (s\<lparr> h_timer := a \<rparr>) = eligible G s"
  "eligible G (s\<lparr> h_timers := b \<rparr>) = eligible G s"
  "eligible G (s\<lparr> h_running := c \<rparr>) = eligible G s"
  "eligible G (s\<lparr> h_holding := d \<rparr>) = eligible G s"
  "eligible G (s\<lparr> h_aborted := e \<rparr>) = eligible G s"
  "eligible G (s\<lparr> h_deliveryRunning := f \<rparr>) = eligible G s"
  "eligible G (s\<lparr> h_deliveryPending := g \<rparr>) = eligible G s"
  "eligible G (s\<lparr> h_deliveryWaits := g \<rparr>) = eligible G s"
  "eligible G (s\<lparr> h_deliveryEpoch := n \<rparr>) = eligible G s"
  "eligible G (s\<lparr> h_foregroundReady := g \<rparr>) = eligible G s"
  "eligible G (s\<lparr> h_lastStatus := st \<rparr>) = eligible G s"
  "eligible G (s\<lparr> h_closed := g \<rparr>) = eligible G s"
  "eligible G (s\<lparr> h_closing := cl \<rparr>) = eligible G s"
  "eligible G (s\<lparr> h_next := n \<rparr>) = eligible G s"
  "eligible G (s\<lparr> h_events := ev \<rparr>) = eligible G s"
  "\<not> eligible G (s\<lparr> h_halted := True \<rparr>)"
  by (simp_all add: eligible_def)

lemma eligible_not_halted: "eligible G s \<Longrightarrow> \<not> h_halted s"
  by (simp add: eligible_def split: if_splits)

lemma cancelTimer_eq: "timer_ok s \<Longrightarrow> cancelTimer s = s\<lparr> h_timers := [], h_timer := None \<rparr>"
  by (cases "h_timers s") (auto simp: timer_ok_def cancelTimer_def split: option.splits)

lemma fired_eq:
  assumes "timer_ok s" and "(t, d) \<in> set (h_timers s)"
  shows "timer_fires K t s = sched_run K (s\<lparr> h_timers := [], h_timer := None \<rparr>)"
proof -
  from assms have "map fst (h_timers s) = [t]" by (cases "h_timers s") (auto simp: timer_ok_def split: option.splits)
  then have "filter (\<lambda>(i, _). i \<noteq> t) (h_timers s) = []" by (auto simp: filter_empty_conv)
  then show ?thesis by (simp add: timer_fires_def)
qed

lemmas sched_inv_defs = sched_inv_def timer_ok_def polling_ok_def told_ok_def delivery_ok_def closing_ok_def
  pass_over_def delivery_over_def

lemma sched_inv_timer: "sched_inv G s \<Longrightarrow> timer_ok s"
  by (simp add: sched_inv_def)

lemma new_scheduler_inv: "sched_inv G new_scheduler"
  by (simp add: sched_inv_defs new_scheduler_def eligible_def)

lemma requestDelivery_inv: "sched_inv G s \<Longrightarrow> sched_inv G (requestDelivery G s)"
  by (auto simp: sched_inv_defs requestDelivery_def split: option.splits)

lemma emit_inv: "sched_inv G s \<Longrightarrow> sched_inv G (emit_event event s)"
  apply (frule sched_inv_timer)
  apply (cases event)
   apply (auto simp: sched_inv_defs emit_event_def split: option.splits) []
  subgoal for status
  by (cases status; auto simp: sched_inv_defs emit_event_def cancelTimer_eq Let_def split: option.splits)
  done

text \<open>Arming a timer restores what an operation may have broken before: only the holding of the read, and
  a wait for a timer that is now replaced, need to be as they were.\<close>

lemma schedule_inv:
  assumes "timer_ok s" and "told_ok s" and "delivery_ok G s" and "closing_ok s"
    and "h_holding s = map_option p_hold (h_running s)" and "eligible G s" and "\<not> h_closed s"
  shows "sched_inv G (schedule G delay s)"
  using assms by (auto simp: sched_inv_defs schedule_def cancelTimer_eq [OF assms(1)] Let_def split: option.splits)

lemma announce_inv: "sched_inv G s \<Longrightarrow> \<not> h_closed s \<Longrightarrow> sched_inv G (announce status s)"
  apply (frule sched_inv_timer)
  apply (cases status)
  apply (auto simp: sched_inv_defs announce_def emit_event_def cancelTimer_eq Let_def split: option.splits)
  done

lemma emit_frame [simp]:
  "h_running (emit_event event s) = h_running s" "h_closed (emit_event event s) = h_closed s"
  "h_closing (emit_event event s) = h_closing s" "h_deliveryRunning (emit_event event s) = h_deliveryRunning s"
  "h_deliveryEpoch (emit_event event s) = h_deliveryEpoch s" "h_foregroundReady (emit_event event s) = h_foregroundReady s"
  "h_lifecycle (emit_event event s) = h_lifecycle s"
  by (auto simp: emit_event_def cancelTimer_def Let_def split: authority_event.splits authority_status.splits option.splits)

lemma announce_frame [simp]:
  "h_running (announce status s) = h_running s" "h_closed (announce status s) = h_closed s"
  "h_closing (announce status s) = h_closing s" "h_deliveryRunning (announce status s) = h_deliveryRunning s"
  "h_deliveryEpoch (announce status s) = h_deliveryEpoch s" "h_foregroundReady (announce status s) = h_foregroundReady s"
  "h_lifecycle (announce status s) = h_lifecycle s"
  by (simp_all add: announce_def)

lemma pass_update_inv:
  assumes "sched_inv G s" and "h_running s = Some p" and "p_hold q = p_hold p"
    and "p_phase q = PassSettled \<or> \<not> h_closed s"
  shows "sched_inv G (s\<lparr> h_running := Some q \<rparr>)"
  using assms by (auto simp: sched_inv_defs split: option.splits)

lemma maintenance_answered_inv:
  assumes "sched_inv G s" and "h_running s = Some p"
  shows "sched_inv G (maintenance_answered G K answer p s)"
proof (cases answer)
  case (Inl u)
  show ?thesis
  proof (cases "h_closed s")
    case True
    then show ?thesis using assms Inl by (simp add: maintenance_answered_def pass_update_inv [of G s p])
  next
    case False
    then show ?thesis
      using assms Inl announce_inv [OF assms(1) False] by (simp add: maintenance_answered_def pass_update_inv [of G _ p])
  qed
next
  case (Inr a)
  obtain changed status where a: "a = (changed, status)" by force
  let ?s1 = "if changed then emit_event (Changed [JObj [(''kind'', JStr ''all'')]]) s else s"
  have "sched_inv G ?s1" using assms(1) emit_inv by simp
  from announce_inv [OF this] have "\<not> h_closed s \<Longrightarrow> sched_inv G (announce status ?s1)" by simp
  then show ?thesis
    using assms Inr a by (auto simp: maintenance_answered_def Let_def intro!: pass_update_inv [where p = p])
qed

lemma background_answered_inv:
  "sched_inv G s \<Longrightarrow> h_running s = Some p \<Longrightarrow> sched_inv G (background_answered answer p s)"
  by (auto simp: background_answered_def intro!: pass_update_inv [where p = p] emit_inv)

lemma timer_fires_inv:
  assumes "sched_inv G s" and "(t, d) \<in> set (h_timers s)"
  shows "sched_inv G (timer_fires K t s)"
proof -
  have "h_timer s \<noteq> None" using assms by (cases "h_timer s") (auto simp: sched_inv_def timer_ok_def)
  then show ?thesis
    using assms fired_eq [OF sched_inv_timer [OF assms(1)] assms(2)]
    by (auto simp: sched_inv_defs sched_run_def split: option.splits)
qed

lemma requestDelivery_frame [simp]:
  "h_running (requestDelivery G s) = h_running s" "h_closed (requestDelivery G s) = h_closed s"
  "h_closing (requestDelivery G s) = h_closing s" "h_holding (requestDelivery G s) = h_holding s"
  "h_deliveryEpoch (requestDelivery G s) = h_deliveryEpoch s" "h_timers (requestDelivery G s) = h_timers s"
  "h_timer (requestDelivery G s) = h_timer s" "h_events (requestDelivery G s) = h_events s"
  "h_lastStatus (requestDelivery G s) = h_lastStatus s" "h_halted (requestDelivery G s) = h_halted s"
  "h_lifecycle (requestDelivery G s) = h_lifecycle s" "h_foregroundReady (requestDelivery G s) = h_foregroundReady s"
  "h_deliveryWaits (requestDelivery G s) = h_deliveryWaits s" "eligible G' (requestDelivery G s) = eligible G' s"
  by (simp_all add: requestDelivery_def)

lemma requestDelivery_ok: "delivery_ok G s \<Longrightarrow> delivery_ok G (requestDelivery G s)"
  by (auto simp: delivery_ok_def requestDelivery_def split: option.splits)

lemma pass_finally_inv:
  assumes "sched_inv G s" and "h_running s = Some p"
  shows "sched_inv G (pass_finally G K p s)"
proof -
  let ?s1 = "s\<lparr> h_running := None, h_holding := None, h_deliveryWaits := False \<rparr>"
  let ?s2 = "requestDelivery G ?s1"
  have hold: "h_holding s = Some (p_hold p)" using assms by (simp add: sched_inv_def polling_ok_def)
  have "delivery_ok G ?s2" using assms(1) by (intro requestDelivery_ok) (simp add: sched_inv_def delivery_ok_def split: option.splits)
  moreover have "closing_ok ?s2"
    using assms(1) by (auto simp: sched_inv_defs requestDelivery_def split: option.splits)
  moreover have "timer_ok ?s2" "told_ok ?s2" using assms(1) by (simp_all add: sched_inv_def timer_ok_def told_ok_def)
  moreover have "h_timer s \<noteq> None \<longrightarrow> \<not> h_closed s \<and> eligible G s"
    using assms(1) by (simp add: sched_inv_def polling_ok_def)
  ultimately show ?thesis
    using schedule_inv [of ?s2 G] hold
    by (auto simp: pass_finally_def Let_def sched_inv_def polling_ok_def)
qed

lemma delivery_answered_inv:
  assumes "sched_inv G s" and "h_deliveryRunning s = Some d"
  shows "sched_inv G (delivery_answered answer d s)"
proof -
  have "sched_inv G (t\<lparr> h_deliveryRunning := Some (d\<lparr> d_settled := True \<rparr>) \<rparr>)"
    if "sched_inv G t" "h_deliveryRunning t = Some d" for t
    using that by (auto simp: sched_inv_defs)
  then show ?thesis using assms emit_inv [OF assms(1)] by (simp add: delivery_answered_def)
qed

lemma delivery_finally_inv:
  assumes "sched_inv G s"
  shows "sched_inv G (delivery_finally G s)"
proof -
  have "sched_inv G (s\<lparr> h_deliveryRunning := None, h_deliveryPending := False \<rparr>)"
    using assms by (auto simp: sched_inv_defs split: option.splits)
  then show ?thesis using requestDelivery_inv by (simp add: delivery_finally_def Let_def)
qed

lemma sched_close_begin_inv: "sched_inv G s \<Longrightarrow> sched_inv G (sched_close_begin s)"
  apply (frule sched_inv_timer)
  apply (auto simp: sched_inv_defs sched_close_begin_def abort_holding_def cancelTimer_eq [unfolded timer_ok_def] Let_def split: option.splits)
  done

lemma sched_close_continue_inv: "sched_inv G s \<Longrightarrow> sched_inv G (sched_close_continue s)"
  by (auto simp: sched_inv_defs sched_close_continue_def split: option.splits)

lemma abort_holding_inv: "sched_inv G s \<Longrightarrow> sched_inv G (abort_holding s)"
  by (auto simp: sched_inv_defs abort_holding_def split: option.splits)

text \<open>A page that can no longer be read: its timer goes, and what is being delivered is out of date.\<close>

lemma withdraw_inv:
  assumes "sched_inv G s" and "\<not> h_closed s" and "\<not> eligible G (s\<lparr> h_lifecycle := ob \<rparr>)"
  shows "sched_inv G ((cancelTimer ((abort_holding (s\<lparr> h_lifecycle := ob \<rparr>))
      \<lparr> h_deliveryEpoch := Suc (h_deliveryEpoch (abort_holding (s\<lparr> h_lifecycle := ob \<rparr>))) \<rparr>))\<lparr> h_deliveryWaits := False \<rparr>)"
proof -
  have "timer_ok ((abort_holding (s\<lparr> h_lifecycle := ob \<rparr>))\<lparr> h_deliveryEpoch := n \<rparr>)" for n
    using sched_inv_timer [OF assms(1)] by (auto simp: timer_ok_def abort_holding_def split: option.splits)
  note cancelTimer_eq [OF this]
  then show ?thesis
    using assms by (auto simp: sched_inv_defs abort_holding_def split: option.splits)
qed

lemma sched_observe_inv:
  assumes "sched_inv G s"
  shows "sched_inv G (sched_observe G K ob s)"
proof -
  let ?s1 = "s\<lparr> h_lifecycle := ob \<rparr>"
  have resched: "sched_inv G (schedule G delay ?s1)" if "\<not> h_closed s" "eligible G ?s1" for delay
    using assms that eligible_not_halted [OF that(2)]
    by (intro schedule_inv) (auto simp: sched_inv_defs split: option.splits)
  have kept: "sched_inv G ?s1" if "eligible G s" "eligible G ?s1"
    using assms that by (auto simp: sched_inv_defs split: option.splits)
  let ?s2 = "s\<lparr> h_foregroundReady := True \<rparr>"
  have "sched_inv G ?s2" using assms by (auto simp: sched_inv_defs split: option.splits)
  moreover from this have "sched_inv G (schedule G 0 ?s2)" if "\<not> h_closed s" "eligible G s"
    using that by (intro schedule_inv) (simp_all add: sched_inv_def polling_ok_def)
  ultimately have "\<not> h_closed s \<Longrightarrow> sched_inv G (requestDelivery G
      (if h_foregroundReady s then s else if eligible G ?s2 then schedule G 0 ?s2 else ?s2))"
    using assms by (auto intro: requestDelivery_inv)
  then show ?thesis
    using assms resched kept withdraw_inv [OF assms] by (auto simp: sched_observe_def Let_def)
qed

lemma sched_step_inv: "sched_step G A w w' \<Longrightarrow> sched_inv G (w_sched w) \<Longrightarrow> sched_inv G (w_sched w')"
proof (induction rule: sched_step.induct)
  case (fires t d w K)
  then show ?case by (simp add: timer_fires_inv)
next
  case (maintains w p K answer u)
  then show ?case by (simp add: maintenance_answered_inv)
qed (auto simp: scheduledAuthority_def sched_inside_def split_def requestDelivery_inv sched_observe_inv emit_inv
      background_answered_inv pass_finally_inv delivery_answered_inv delivery_finally_inv sched_close_begin_inv sched_close_continue_inv
    split: sum.splits if_splits)

text \<open>The step relation, from a new scheduler over any world.\<close>

definition sched_start :: "'w sworld \<Rightarrow> bool" where
  "sched_start w \<longleftrightarrow> w_sched w = new_scheduler"

interpretation sch: stepping sched_start "sched_step G A" "\<lambda>w. sched_inv G (w_sched w)" for G A
  by unfold_locales (simp_all add: sched_start_def new_scheduler_inv sched_step_inv)

section \<open>Properties\<close>

text \<open>C13: The refresh loop neither stops nor doubles. However calls, observations, answers and timers interleave,
  at most one timer is armed and only for an open page that may be read; while an online page may be read,
  a timer is armed or a pass is under way; and once the library is announced as moved no timer is armed.\<close>

theorem polling_sound:
  assumes "sched_start w0" and "(sched_step G A)\<^sup>*\<^sup>* w0 w"
  shows "length (h_timers (w_sched w)) \<le> 1 \<and>
     (h_timers (w_sched w) \<noteq> [] \<longrightarrow> \<not> h_closed (w_sched w) \<and> eligible G (w_sched w)) \<and>
     (\<not> h_closed (w_sched w) \<and> eligible G (w_sched w) \<and> g_mode G = OnlineMode \<longrightarrow>
        h_timers (w_sched w) \<noteq> [] \<or> h_running (w_sched w) \<noteq> None) \<and>
     (StatusEvent (StatusMoved successor) \<in> set (h_events (w_sched w)) \<longrightarrow> h_timers (w_sched w) = [])"
proof -
  let ?s = "w_sched w"
  have inv: "sched_inv G ?s" using sch.inv_reachable [OF assms] .
  then have "length (map fst (h_timers ?s)) \<le> 1" and armed: "h_timers ?s \<noteq> [] \<longleftrightarrow> h_timer ?s \<noteq> None"
    by (auto simp: sched_inv_def timer_ok_def split: option.splits)
  moreover have "StatusEvent (StatusMoved successor) \<in> set (h_events ?s) \<longrightarrow> \<not> eligible G ?s"
    using inv eligible_not_halted [of G ?s] by (auto simp: sched_inv_def told_ok_def)
  ultimately show ?thesis using inv by (auto simp: sched_inv_def polling_ok_def)
qed

text \<open>A pass that is under way can be answered and finished, whatever phase it is in.\<close>

lemma pass_can_settle:
  assumes "h_running (w_sched w) = Some p"
  obtains w1 q where "(sched_step G A)\<^sup>*\<^sup>* w w1" and "h_running (w_sched w1) = Some q" and "p_phase q = PassSettled"
    and "h_closed (w_sched w1) = h_closed (w_sched w)" and "h_lifecycle (w_sched w1) = h_lifecycle (w_sched w)"
    and "h_halted (w_sched w1) = h_halted (w_sched w)" and "h_next (w_sched w) \<le> h_next (w_sched w1)"
proof (cases "p_phase p")
  case Maintaining
  show ?thesis
  proof (rule that [of _ "p\<lparr> p_phase := PassSettled \<rparr>"])
    show "(sched_step G A)\<^sup>*\<^sup>* w (w\<lparr> w_inner := w_inner w,
        w_sched := maintenance_answered G \<lparr> k_now = 0, k_background = None \<rparr> (Inl ()) p (w_sched w) \<rparr>)"
      using sched_step.maintains [OF assms Maintaining] by blast
  qed (simp_all add: maintenance_answered_def announce_def emit_event_def)
next
  case InBackground
  show ?thesis
  proof (rule that [of _ "p\<lparr> p_phase := PassSettled \<rparr>"])
    show "(sched_step G A)\<^sup>*\<^sup>* w (w\<lparr> w_inner := w_inner w, w_sched := background_answered (Inr False) p (w_sched w) \<rparr>)"
      using sched_step.backgrounds [OF assms InBackground] by blast
  qed (simp_all add: background_answered_def)
next
  case PassSettled
  then show ?thesis using that [of w p] assms by simp
qed

lemma armed_timer_starts:
  assumes "sched_inv G (w_sched w)" and "h_timer (w_sched w) \<noteq> None" and "h_running (w_sched w) = None"
  obtains w1 p where "sched_step G A w w1" and "h_running (w_sched w1) = Some p" and "p_phase p = Maintaining"
    and "p_hold p = h_next (w_sched w)"
proof -
  obtain t d where t: "(t, d) \<in> set (h_timers (w_sched w))"
    using assms(1,2) by (cases "h_timers (w_sched w)") (auto simp: sched_inv_def timer_ok_def split: option.splits)
  show ?thesis
    using that [OF sched_step.fires [OF t]] fired_eq [OF sched_inv_timer [OF assms(1)] t] assms(3)
    by (simp add: sched_run_def)
qed

text \<open>C14: Refreshing never gets stuck. From every state an online page that may be read can be in, the pass under
  way, if any, can be answered and finished, and a new one then started.\<close>

theorem polling_continues:
  assumes "sched_start w0" and "(sched_step G A)\<^sup>*\<^sup>* w0 w"
    and "\<not> h_closed (w_sched w)" and "eligible G (w_sched w)" and "g_mode G = OnlineMode"
  shows "\<exists>w' p. (sched_step G A)\<^sup>*\<^sup>* w w' \<and> h_running (w_sched w') = Some p \<and> p_phase p = Maintaining \<and>
     h_next (w_sched w) \<le> p_hold p"
proof -
  have inv: "sched_inv G (w_sched w)" using sch.inv_reachable [OF assms(1,2)] .
  have idle: "\<exists>w' p. (sched_step G A)\<^sup>*\<^sup>* u w' \<and> h_running (w_sched w') = Some p \<and> p_phase p = Maintaining \<and>
      h_next (w_sched u) \<le> p_hold p"
    if u: "sched_inv G (w_sched u)" "h_running (w_sched u) = None" "\<not> h_closed (w_sched u)" "eligible G (w_sched u)" for u
  proof -
    have "h_timer (w_sched u) \<noteq> None" using u assms(5) by (simp add: sched_inv_def polling_ok_def)
    from armed_timer_starts [OF u(1) this u(2), where A = A] show ?thesis by (metis order_refl r_into_rtranclp)
  qed
  show ?thesis
  proof (cases "h_running (w_sched w)")
    case None
    then show ?thesis using idle inv assms(3,4) by blast
  next
    case (Some p)
    obtain w1 q where w1: "(sched_step G A)\<^sup>*\<^sup>* w w1" "h_running (w_sched w1) = Some q" "p_phase q = PassSettled"
      "h_closed (w_sched w1) = h_closed (w_sched w)" "h_lifecycle (w_sched w1) = h_lifecycle (w_sched w)"
      "h_halted (w_sched w1) = h_halted (w_sched w)" "h_next (w_sched w) \<le> h_next (w_sched w1)"
      using pass_can_settle [OF Some, where G = G and A = A] by metis
    let ?w2 = "w1\<lparr> w_sched := pass_finally G \<lparr> k_now = 0, k_background = None \<rparr> q (w_sched w1) \<rparr>"
    have step: "sched_step G A w1 ?w2" using sched_step.finishes [OF w1(2,3)] .
    have "eligible G (w_sched w1)" using assms(4) w1(5,6) by (simp add: eligible_def split: if_splits)
    then have "h_running (w_sched ?w2) = None" "\<not> h_closed (w_sched ?w2)" "eligible G (w_sched ?w2)"
      "h_next (w_sched w1) \<le> h_next (w_sched ?w2)"
      using w1(4) assms(3)
      by (simp_all add: pass_finally_def schedule_def cancelTimer_def requestDelivery_def Let_def split: option.split)
    moreover have "sched_inv G (w_sched ?w2)"
      using sch.inv_steps [OF w1(1) inv] sched_step_inv [OF step] by blast
    ultimately obtain w' p' where "(sched_step G A)\<^sup>*\<^sup>* ?w2 w'" "h_running (w_sched w') = Some p'"
      "p_phase p' = Maintaining" "h_next (w_sched ?w2) \<le> p_hold p'" using idle by blast
    moreover have "h_next (w_sched w) \<le> h_next (w_sched ?w2)" using w1(7) \<open>h_next (w_sched w1) \<le> h_next (w_sched ?w2)\<close> by simp
    moreover have "(sched_step G A)\<^sup>*\<^sup>* w ?w2" using w1(1) step by simp
    ultimately show ?thesis by (meson order_trans rtranclp_trans)
  qed
qed

lemma cancel_frame [simp]:
  "h_closed (cancelTimer s) = h_closed s" "h_halted (cancelTimer s) = h_halted s" "h_deliveryEpoch (cancelTimer s) = h_deliveryEpoch s"
  "h_events (cancelTimer s) = h_events s" "h_running (cancelTimer s) = h_running s"
  "h_deliveryRunning (cancelTimer s) = h_deliveryRunning s" "h_lifecycle (cancelTimer s) = h_lifecycle s"
  by (simp_all add: cancelTimer_def split: option.split)

lemma schedule_frame [simp]:
  "h_closed (schedule G delay s) = h_closed s" "h_halted (schedule G delay s) = h_halted s"
  "h_deliveryEpoch (schedule G delay s) = h_deliveryEpoch s" "h_events (schedule G delay s) = h_events s"
  "h_running (schedule G delay s) = h_running s" "h_lifecycle (schedule G delay s) = h_lifecycle s"
  by (simp_all add: schedule_def Let_def)

lemma eligible_schedule [simp]: "eligible G' (schedule G delay s) = eligible G' s"
  by (simp add: eligible_def)

lemma abort_frame [simp]:
  "h_closed (abort_holding s) = h_closed s" "h_halted (abort_holding s) = h_halted s"
  "h_deliveryEpoch (abort_holding s) = h_deliveryEpoch s" "h_events (abort_holding s) = h_events s"
  "h_running (abort_holding s) = h_running s"
  by (simp_all add: abort_holding_def split: option.split)

lemma emit_halted: "h_halted s \<Longrightarrow> h_halted (emit_event event s)"
  by (auto simp: emit_event_def Let_def split: authority_event.splits authority_status.splits)

lemma announce_halted: "h_halted s \<Longrightarrow> h_halted (announce status s)"
  by (simp add: announce_def emit_halted)

text \<open>What no step takes back: the epoch of deliveries, halting and closing.\<close>

definition lasting :: "scheduler \<Rightarrow> scheduler \<Rightarrow> bool" where
  "lasting s s' \<longleftrightarrow> h_deliveryEpoch s \<le> h_deliveryEpoch s' \<and> (h_halted s \<longrightarrow> h_halted s') \<and> (h_closed s \<longrightarrow> h_closed s')"

lemma lasting_maintenance: "lasting s (maintenance_answered G K answer p s)"
  by (auto simp: lasting_def maintenance_answered_def Let_def emit_halted announce_halted split: sum.split)

lemma lasting_observe: "lasting s (sched_observe G K ob s)"
  by (simp add: lasting_def sched_observe_def Let_def)

lemma lasting_step: "sched_step G A w w' \<Longrightarrow> lasting (w_sched w) (w_sched w')"
proof (induction rule: sched_step.induct)
  case (observes K ob w r w')
  then show ?case
    using lasting_observe by (auto simp: scheduledAuthority_def sched_inside_def split_def lasting_def split: sum.split)
next
  case (maintains w p K answer u)
  then show ?case using lasting_maintenance by simp
qed (auto simp: lasting_def scheduledAuthority_def sched_inside_def split_def emit_halted timer_fires_def sched_run_def
      background_answered_def pass_finally_def delivery_answered_def delivery_finally_def sched_close_begin_def sched_close_continue_def Let_def
    split: sum.split)

lemma lasting_steps: "(sched_step G A)\<^sup>*\<^sup>* w w' \<Longrightarrow> lasting (w_sched w) (w_sched w')"
  by (induction rule: rtranclp_induct) (auto simp: lasting_def dest!: lasting_step)

text \<open>C17: A delivery that was under way when the page stopped being one that may be read, or when the service
  closed, stays out of date for good: it is never told again that it is current, even when the page returns.\<close>

theorem delivery_stale:
  assumes "sched_start w0" and "(sched_step G A)\<^sup>*\<^sup>* w0 w" and "h_deliveryRunning (w_sched w) = Some d"
    and "\<not> eligible G (w_sched w) \<or> h_closed (w_sched w)" and "(sched_step G A)\<^sup>*\<^sup>* w w'"
  shows "\<not> delivery_current G d (w_sched w')"
proof -
  have "sched_inv G (w_sched w)" using sch.inv_reachable [OF assms(1,2)] .
  then have "d_epoch d < h_deliveryEpoch (w_sched w) \<or> h_halted (w_sched w) \<or> h_closed (w_sched w)"
    using assms(3,4) by (auto simp: sched_inv_def delivery_ok_def)
  then show ?thesis
    using lasting_steps [OF assms(5)] eligible_not_halted by (auto simp: lasting_def delivery_current_def)
qed

text \<open>C18: What a pass finds is what the page is told. After the read answered on an open service, the last status
  the listeners heard is the one it found (or that the connection is being retried), whatever the authority
  announced in between; it is announced exactly when it differs from the last one, after the change itself.\<close>

theorem pass_announces:
  assumes "sched_start w0" and "(sched_step G A)\<^sup>*\<^sup>* w0 w" and "\<not> h_closed (w_sched w)"
  shows "let s = w_sched w; s' = maintenance_answered G K answer p s;
             status = (case answer of Inl _ \<Rightarrow> StatusReconnecting | Inr (_, found) \<Rightarrow> found) in
     last_status (h_events s') = Some status \<and> h_lastStatus s' = Some status \<and>
     h_events s' = h_events s @ (case answer of Inr (True, _) \<Rightarrow> [Changed [JObj [(''kind'', JStr ''all'')]]] | _ \<Rightarrow> []) @
       (if last_status (h_events s) = Some status then [] else [StatusEvent status])"
proof -
  have "h_lastStatus (w_sched w) = last_status (h_events (w_sched w))"
    using sch.inv_reachable [OF assms(1,2)] by (simp add: sched_inv_def told_ok_def)
  moreover have events: "h_events (emit_event e s) = (if h_closed s then h_events s else h_events s @ [e])"
    and status: "h_lastStatus (emit_event e s) =
      (if h_closed s then h_lastStatus s else case e of StatusEvent st \<Rightarrow> Some st | _ \<Rightarrow> h_lastStatus s)" for e s
    by (auto simp: emit_event_def cancelTimer_def Let_def split: authority_event.splits authority_status.splits option.splits)
  ultimately show ?thesis
    using assms(3)
    by (cases answer) (auto simp: maintenance_answered_def announce_def Let_def split: bool.splits)
qed

lemma armed_after_pass:
  assumes "sched_inv G s" and "h_running s = Some p" and "\<not> h_closed s" and "eligible G s" and "g_mode G = OnlineMode"
  shows "\<exists>t. h_timers (pass_finally G K p s) =
     [(t, max 0 (nextDelay G K (p_changed p) (p_read p) (max 0 (k_now K - p_started p)) s))]"
proof -
  let ?s2 = "requestDelivery G (s\<lparr> h_running := None, h_holding := None, h_deliveryWaits := False \<rparr>)"
  have "timer_ok ?s2" using assms(1) by (simp add: sched_inv_def timer_ok_def)
  from cancelTimer_eq [OF this] have "h_timers (cancelTimer ?s2) = []" "eligible G (cancelTimer ?s2) = eligible G s" by simp_all
  moreover have "nextDelay G K c r e ?s2 = nextDelay G K c r e s" for c r e
    by (simp add: nextDelay_def interval_def)
  moreover have "h_holding s = Some (p_hold p)" using assms(1,2) by (simp add: sched_inv_def polling_ok_def)
  ultimately show ?thesis using assms(3-5) by (simp add: pass_finally_def schedule_def Let_def)
qed

text \<open>C31: The loop never spins and never sleeps too long. After a pass the next read is armed with a delay of at
  most thirty seconds; counted from the start of the pass it waits five seconds during playback, one second
  after a change and thirty after an answer that came early and empty, unless the background work asks for less.\<close>

theorem poll_spacing:
  assumes "sched_start w0" and "(sched_step G A)\<^sup>*\<^sup>* w0 w" and "h_running (w_sched w) = Some p"
    and "\<not> h_closed (w_sched w)" and "eligible G (w_sched w)" and "g_mode G = OnlineMode" and "p_started p \<le> k_now K"
  shows "\<exists>t delay. h_timers (pass_finally G K p (w_sched w)) = [(t, delay)] \<and> 0 \<le> delay \<and> delay \<le> 30000 \<and>
     (let since = k_now K - p_started p + delay; least = interval G K (w_sched w) in
      if life ''playbackActive'' (w_sched w) then since \<ge> least \<and> (\<not> g_background G \<longrightarrow> least = 5000)
      else if p_changed p then since \<ge> min 1000 least
      else if p_read p < 12500 then since \<ge> least \<and> (\<not> g_background G \<longrightarrow> least = 30000)
      else delay = 0)"
proof -
  obtain t where "h_timers (pass_finally G K p (w_sched w)) =
     [(t, max 0 (nextDelay G K (p_changed p) (p_read p) (max 0 (k_now K - p_started p)) (w_sched w)))]"
    using armed_after_pass [OF sch.inv_reachable [OF assms(1,2)] assms(3-6)] by blast
  moreover have "interval G K (w_sched w) \<le> 30000"
    by (auto simp: interval_def refresh_defs Let_def split: option.split)
  moreover have "\<not> g_background G \<Longrightarrow> interval G K (w_sched w) = (if life ''playbackActive'' (w_sched w) then 5000 else 30000)"
    by (simp add: interval_def refresh_defs)
  ultimately show ?thesis
    using assms(7) by (auto simp: nextDelay_def refresh_defs Let_def)
qed

text \<open>A closed scheduler: nothing is announced, and no pass begins.\<close>

definition same_quiet :: "scheduler \<Rightarrow> scheduler \<Rightarrow> bool" where
  "same_quiet s s' \<longleftrightarrow> h_closed s' \<and> h_events s' = h_events s \<and>
     (h_running s' = None \<or> map_option p_hold (h_running s') = map_option p_hold (h_running s)) \<and>
     (h_deliveryRunning s' = None \<or> map_option d_epoch (h_deliveryRunning s') = map_option d_epoch (h_deliveryRunning s))"

lemma requestDelivery_closed [simp]: "h_closed s \<Longrightarrow> requestDelivery G s = s"
  by (simp add: requestDelivery_def)

lemma emit_closed [simp]: "h_closed s \<Longrightarrow> emit_event event s = s"
  by (simp add: emit_event_def)

lemma closed_step:
  "sched_step G A w w' \<Longrightarrow> sched_inv G (w_sched w) \<Longrightarrow> h_closed (w_sched w) \<Longrightarrow> same_quiet (w_sched w) (w_sched w')"
proof (induction rule: sched_step.induct)
  case (fires t d w K)
  then have "h_timers (w_sched w) = []"
    by (auto simp: sched_inv_def polling_ok_def timer_ok_def split: option.splits)
  then show ?case using fires by simp
next
  case (maintains w p K answer u)
  then show ?case by (cases answer) (auto simp: same_quiet_def maintenance_answered_def Let_def)
qed (auto simp: same_quiet_def scheduledAuthority_def sched_inside_def split_def sched_observe_def
      background_answered_def pass_finally_def delivery_answered_def delivery_finally_def sched_close_begin_def sched_close_continue_def Let_def
    split: sum.split)

text \<open>C32: Closing is final and orderly. After \<open>close\<close> no event reaches the listeners, no timer is armed and no pass or
  delivery begins; and the authority below is closed only when the pass and the delivery under way have settled.\<close>

theorem close_quiet:
  assumes "sched_start w0" and "(sched_step G A)\<^sup>*\<^sup>* w0 w" and "h_closed (w_sched w)" and "(sched_step G A)\<^sup>*\<^sup>* w w'"
  shows "same_quiet (w_sched w) (w_sched w') \<and> h_timers (w_sched w') = [] \<and>
     (h_closing (w_sched w') = InnerClosed \<longrightarrow> pass_over (w_sched w') \<and> delivery_over (w_sched w'))"
proof -
  have inv: "sched_inv G (w_sched w)" using sch.inv_reachable [OF assms(1,2)] .
  have "same_quiet (w_sched w) (w_sched w')" using assms(4)
  proof (induction rule: rtranclp_induct)
    case base
    then show ?case using assms(3) by (simp add: same_quiet_def)
  next
    case (step u v)
    then have "h_closed (w_sched u)" by (simp add: same_quiet_def)
    from closed_step [OF step.hyps(2) sch.inv_steps [OF step.hyps(1) inv] this] step.IH
    show ?case by (auto simp: same_quiet_def)
  qed
  moreover have "sched_inv G (w_sched w')" using sch.inv_steps [OF assms(4) inv] .
  ultimately show ?thesis
    by (auto simp: sched_inv_def same_quiet_def polling_ok_def timer_ok_def closing_ok_def split: option.splits)
qed

section \<open>A concrete run\<close>

definition demo_config :: sched_config where
  "demo_config = \<lparr> g_mode = OnlineMode, g_background = False, g_delivery = True \<rparr>"

definition demo_tick :: "int \<Rightarrow> tick" where
  "demo_tick n = \<lparr> k_now = n, k_background = None \<rparr>"

definition demo_page :: "bool \<Rightarrow> jsval" where
  "demo_page visible = JObj [(''kind'', JStr ''lifecycle''), (''visible'', JBool visible), (''online'', JBool True),
     (''playbackActive'', JBool False)]"

definition demo_observes :: "int \<Rightarrow> jsval \<Rightarrow> nat sworld \<Rightarrow> nat sworld" where
  "demo_observes n ob w = snd (a_observe (scheduledAuthority demo_config (demo_tick n) demo_authority) ob w)"

lemma demo_observes_step: "sched_step demo_config demo_authority w (demo_observes n ob w)"
  unfolding demo_observes_def by (rule sched_step.observes) (rule surjective_pairing)

lemma demo_observes_eq: "demo_observes n ob w = w\<lparr> w_sched := sched_observe demo_config (demo_tick n) ob (w_sched w) \<rparr>"
  by (simp add: demo_observes_def scheduledAuthority_def sched_inside_def demo_authority_def)

text \<open>The page becomes visible and its first read is armed; the read is under way; it has found a change.\<close>

definition demo_start :: "nat sworld" where
  "demo_start = \<lparr> w_inner = 0, w_sched = new_scheduler \<rparr>"

definition demo_armed :: "nat sworld" where
  "demo_armed = \<lparr> w_inner = 0, w_sched = new_scheduler\<lparr> h_lifecycle := demo_page True, h_timer := Some 0,
     h_timers := [(0, 0)], h_next := 1 \<rparr> \<rparr>"

definition demo_pass :: "pass_phase \<Rightarrow> pass" where
  "demo_pass phase = \<lparr> p_hold = 1, p_wait = 25, p_started = 0, p_changed = (phase \<noteq> Maintaining), p_read = (if phase = Maintaining then 0 else 40),
     p_phase = phase \<rparr>"

definition demo_reading :: "nat sworld" where
  "demo_reading = demo_armed\<lparr> w_sched := (w_sched demo_armed)\<lparr> h_timer := None, h_timers := [], h_next := 2,
     h_holding := Some 1, h_running := Some (demo_pass Maintaining) \<rparr> \<rparr>"

definition demo_found :: "nat sworld" where
  "demo_found = demo_reading\<lparr> w_sched := (w_sched demo_reading)\<lparr> h_running := Some (demo_pass PassSettled),
     h_lastStatus := Some StatusReady,
     h_events := [Changed [JObj [(''kind'', JStr ''all'')]], StatusEvent StatusReady] \<rparr> \<rparr>"

lemmas demo_state_defs = demo_armed_def demo_reading_def demo_found_def demo_pass_def demo_config_def demo_tick_def demo_page_def
  demo_start_def

lemma demo_step1: "sched_step demo_config demo_authority demo_start demo_armed"
proof -
  have "demo_observes 0 (demo_page True) demo_start = demo_armed"
    by (simp add: demo_observes_eq demo_state_defs sched_observe_def schedule_def cancelTimer_def eligible_def new_scheduler_def)
  then show ?thesis using demo_observes_step by metis
qed

lemma demo_step2: "sched_step demo_config demo_authority demo_armed demo_reading"
proof -
  have "demo_armed\<lparr> w_sched := timer_fires (demo_tick 0) 0 (w_sched demo_armed) \<rparr> = demo_reading"
    by (simp add: timer_fires_def sched_run_def demo_state_defs new_scheduler_def refresh_defs)
  then show ?thesis using sched_step.fires [of 0 0 demo_armed demo_config demo_authority "demo_tick 0"]
    by (simp add: demo_armed_def)
qed

lemma demo_answer:
  "maintenance_answered demo_config (demo_tick 40) (Inr (True, StatusReady)) (demo_pass Maintaining) (w_sched demo_reading) =
     w_sched demo_found"
  by (simp add: maintenance_answered_def announce_def emit_event_def demo_state_defs new_scheduler_def)

lemma demo_step3: "sched_step demo_config demo_authority demo_reading demo_found"
proof -
  have "demo_reading\<lparr> w_inner := 0, w_sched := w_sched demo_found \<rparr> = demo_found"
    by (simp add: demo_found_def demo_reading_def demo_armed_def)
  then show ?thesis
    using sched_step.maintains [where w = demo_reading and p = "demo_pass Maintaining" and G = demo_config and A = demo_authority
        and u = 0 and K = "demo_tick 40" and answer = "Inr (True, StatusReady)"] demo_answer
    by (simp add: demo_reading_def demo_pass_def)
qed

lemma demo_reach:
  "sched_start demo_start" "(sched_step demo_config demo_authority)\<^sup>*\<^sup>* demo_start demo_armed"
  "(sched_step demo_config demo_authority)\<^sup>*\<^sup>* demo_start demo_reading"
  "(sched_step demo_config demo_authority)\<^sup>*\<^sup>* demo_start demo_found"
  using demo_step1 demo_step2 demo_step3 by (auto simp: sched_start_def demo_start_def intro: rtranclp.rtrancl_into_rtrancl)

text \<open>Then the foreground is ready and the pass finishes, which starts a delivery; the page is hidden.\<close>

definition demo_hidden :: "nat sworld" where
  "demo_hidden = demo_observes 70 (demo_page False)
     ((demo_observes 50 (JObj [(''kind'', JStr ''foreground-ready'')]) demo_found)\<lparr> w_sched :=
        pass_finally demo_config (demo_tick 60) (demo_pass PassSettled)
          (w_sched (demo_observes 50 (JObj [(''kind'', JStr ''foreground-ready'')]) demo_found)) \<rparr>)"

lemma demo_ready: "h_running (w_sched (demo_observes 50 (JObj [(''kind'', JStr ''foreground-ready'')]) demo_found)) = Some (demo_pass PassSettled)"
  by (simp add: demo_observes_eq sched_observe_def demo_state_defs new_scheduler_def Let_def)

lemma demo_hidden_reach: "(sched_step demo_config demo_authority)\<^sup>*\<^sup>* demo_start demo_hidden"
proof -
  let ?w = "demo_observes 50 (JObj [(''kind'', JStr ''foreground-ready'')]) demo_found"
  have "sched_step demo_config demo_authority ?w (?w\<lparr> w_sched := pass_finally demo_config (demo_tick 60) (demo_pass PassSettled) (w_sched ?w) \<rparr>)"
    by (rule sched_step.finishes [OF demo_ready]) (simp add: demo_pass_def)
  moreover have "sched_step demo_config demo_authority demo_found ?w" by (rule demo_observes_step)
  ultimately show ?thesis
    unfolding demo_hidden_def using demo_reach(4) demo_observes_step by (meson rtranclp.rtrancl_into_rtrancl)
qed

lemma demo_hidden_state:
  "h_deliveryRunning (w_sched demo_hidden) = Some \<lparr> d_epoch = 0, d_settled = False \<rparr>"
  "\<not> eligible demo_config (w_sched demo_hidden)" "h_halted (w_sched demo_hidden) = False" "h_closed (w_sched demo_hidden) = False"
  by (simp_all add: demo_hidden_def demo_observes_eq sched_observe_def schedule_def cancelTimer_def pass_finally_def
      requestDelivery_def eligible_def abort_holding_def demo_state_defs new_scheduler_def Let_def)

theorem polling_sound_witness:
  "h_timers (w_sched demo_armed) = [(0, 0)] \<and> eligible demo_config (w_sched demo_armed) \<and> \<not> h_closed (w_sched demo_armed) \<and>
   h_timers (w_sched demo_reading) = [] \<and> h_running (w_sched demo_reading) \<noteq> None"
proof -
  have "h_timers (w_sched demo_reading) = []" "\<not> h_closed (w_sched demo_reading)" "eligible demo_config (w_sched demo_reading)"
    by (simp_all add: demo_state_defs new_scheduler_def eligible_def)
  then have "h_running (w_sched demo_reading) \<noteq> None"
    using polling_sound [OF demo_reach(1,3)] by (simp add: demo_config_def)
  moreover have "h_timers (w_sched demo_armed) = [(0, 0)]" by (simp add: demo_armed_def)
  ultimately show ?thesis
    using polling_sound [OF demo_reach(1,2)] \<open>h_timers (w_sched demo_reading) = []\<close> by simp
qed

theorem polling_continues_witness:
  "\<exists>w' p. (sched_step demo_config demo_authority)\<^sup>*\<^sup>* demo_found w' \<and> h_running (w_sched w') = Some p \<and>
     p_phase p = Maintaining \<and> 2 \<le> p_hold p"
proof -
  have "\<not> h_closed (w_sched demo_found)" "eligible demo_config (w_sched demo_found)" "h_next (w_sched demo_found) = 2"
    by (simp_all add: demo_state_defs new_scheduler_def eligible_def)
  then show ?thesis using polling_continues [OF demo_reach(1,4)] by (simp add: demo_config_def)
qed

theorem delivery_stale_witness:
  "h_deliveryRunning (w_sched demo_hidden) = Some \<lparr> d_epoch = 0, d_settled = False \<rparr> \<and>
   eligible demo_config (w_sched (demo_observes 80 (demo_page True) demo_hidden)) \<and>
   \<not> delivery_current demo_config \<lparr> d_epoch = 0, d_settled = False \<rparr> (w_sched (demo_observes 80 (demo_page True) demo_hidden))"
proof -
  have "eligible demo_config (w_sched (demo_observes 80 (demo_page True) demo_hidden))"
    using demo_hidden_state
    by (simp add: demo_observes_eq sched_observe_def Let_def) (simp add: eligible_def demo_page_def demo_config_def)
  then show ?thesis
    using delivery_stale [OF demo_reach(1) demo_hidden_reach demo_hidden_state(1) disjI1 [OF demo_hidden_state(2)]
        r_into_rtranclp [where r = "sched_step demo_config demo_authority", OF demo_observes_step [of demo_hidden 80 "demo_page True"]]] demo_hidden_state(1)
    by simp
qed

theorem pass_announces_witness:
  "last_status (h_events (w_sched demo_reading)) = None \<and> last_status (h_events (w_sched demo_found)) = Some StatusReady \<and>
   h_events (w_sched demo_found) = [Changed [JObj [(''kind'', JStr ''all'')]], StatusEvent StatusReady]"
proof -
  have "\<not> h_closed (w_sched demo_reading)" "h_events (w_sched demo_reading) = []"
    by (simp_all add: demo_state_defs new_scheduler_def)
  then show ?thesis
    using pass_announces [OF demo_reach(1,3), of "demo_tick 40" "Inr (True, StatusReady)" "demo_pass Maintaining"] demo_answer
    by (simp add: Let_def last_status_def)
qed

theorem poll_spacing_witness:
  "\<exists>t delay. h_timers (pass_finally demo_config (demo_tick 60) (demo_pass PassSettled) (w_sched demo_found)) = [(t, delay)] \<and>
     0 \<le> delay \<and> delay \<le> 30000 \<and> 1000 \<le> 60 + delay"
proof -
  have "h_running (w_sched demo_found) = Some (demo_pass PassSettled)" "\<not> h_closed (w_sched demo_found)"
    "eligible demo_config (w_sched demo_found)" "g_mode demo_config = OnlineMode" "p_started (demo_pass PassSettled) \<le> k_now (demo_tick 60)"
    by (simp_all add: demo_state_defs new_scheduler_def eligible_def)
  note poll_spacing [OF demo_reach(1,4) this]
  moreover have "interval demo_config (demo_tick 60) (w_sched demo_found) = 30000" "\<not> life ''playbackActive'' (w_sched demo_found)"
    by (simp_all add: interval_def demo_state_defs new_scheduler_def refresh_defs)
  moreover have "p_changed (demo_pass PassSettled)" "p_started (demo_pass PassSettled) = 0" "k_now (demo_tick 60) = 60"
    by (simp_all add: demo_pass_def demo_tick_def)
  ultimately show ?thesis by (auto simp: Let_def)
qed

theorem close_quiet_witness:
  "h_closed (sched_close_begin (w_sched demo_reading)) \<and>
   same_quiet (sched_close_begin (w_sched demo_reading)) (sched_close_continue (sched_close_begin (w_sched demo_reading))) \<and>
   h_timers (sched_close_continue (sched_close_begin (w_sched demo_reading))) = []"
proof -
  let ?w = "demo_reading\<lparr> w_sched := sched_close_begin (w_sched demo_reading) \<rparr>"
  have "(sched_step demo_config demo_authority)\<^sup>*\<^sup>* demo_start ?w"
    using demo_reach(3) sched_step.closes by (rule rtranclp.rtrancl_into_rtrancl)
  moreover have closed: "h_closed (w_sched ?w)" by (simp add: sched_close_begin_def Let_def)
  ultimately show ?thesis
    using close_quiet [OF demo_reach(1), of demo_config demo_authority ?w "?w\<lparr> w_sched := sched_close_continue (w_sched ?w) \<rparr>"]
      r_into_rtranclp [where r = "sched_step demo_config demo_authority", OF sched_step.closing [of demo_config demo_authority ?w]]
    by simp
qed

end
