(* ===== verification/PageClient.thy ===== *)
theory PageClient
  imports CoreReplies Transitions "HOL-Library.Multiset"
begin

text \<open>
  \<^verbatim>\<open>web/src/lib/libraryServiceClient.ts\<close>: the page's end of the library protocol. The state is the
  fields of \<open>LibraryServiceClient\<close>, with what the callers of the page see beside them: the results of
  their promises, the calls of each subscription's listener, and the statuses told.

  A promise that is settled resumes the method that awaits it only after the running task, so
  \<open>page_receive\<close> collects the settled requests and \<open>resume_all\<close> runs what follows each \<open>await\<close>:
  one batch of messages from the worker is \<open>page_batch\<close>.
\<close>

section \<open>State\<close>

datatype page_error = ServiceError service_failure | SendFailed

record pending_request =
  q_request :: jsval
  q_timed :: bool

record client_subscription =
  u_selection :: jsval
  u_version :: "jsval option"
  u_shown :: "(jsval \<times> jsval) list"

text \<open>\<open>pg_handed\<close> are the subscriptions whose release function the caller holds and has not used.\<close>

record page_client =
  pg_clientId :: string
  pg_pending :: "(string, pending_request) jmap"
  pg_subscriptions :: "(string, client_subscription) jmap"
  pg_statuses :: "jsval list"
  pg_nextRequest :: nat
  pg_nextSubscription :: nat
  pg_instance :: "jsval option"
  pg_relay :: "jsval option"
  pg_progress :: "jsval list"
  pg_closed :: bool
  pg_handed :: "string list"
  pg_settled :: "(string \<times> jsval \<times> (page_error + jsval)) list"
  pg_results :: "(string \<times> (page_error + jsval)) list"

definition new_page :: "string \<Rightarrow> page_client" where
  "new_page clientId =
    \<lparr> pg_clientId = clientId, pg_pending = [], pg_subscriptions = [], pg_statuses = [], pg_nextRequest = 0,
      pg_nextSubscription = 0, pg_instance = None, pg_relay = None, pg_progress = [], pg_closed = False,
      pg_handed = [], pg_settled = [], pg_results = [] \<rparr>"

section \<open>Matching a reply to its request\<close>

text \<open>\<open>a > b\<close> on numbers.\<close>

fun js_gt :: "jsval \<Rightarrow> jsval \<Rightarrow> bool" where
  "js_gt (JNum (Fin a)) (JNum (Fin b)) = (b < a)"
| "js_gt (JNum PosInf) (JNum (Fin b)) = True"
| "js_gt (JNum PosInf) (JNum NegInf) = True"
| "js_gt (JNum (Fin a)) (JNum NegInf) = True"
| "js_gt _ _ = False"

definition newer :: "jsval \<Rightarrow> jsval option \<Rightarrow> bool" where
  "newer candidate current =
    (case current of
       None \<Rightarrow> True
     | Some v \<Rightarrow>
         if fld candidate ''instance'' \<noteq> fld v ''instance'' then False
         else js_gt (fld candidate ''revision'') (fld v ''revision''))"

definition selectionMatches :: "jsval \<Rightarrow> jsval \<Rightarrow> bool" where
  "selectionMatches sel val =
    (let kind = fld sel ''kind'' in
     if kind \<in> JStr ` {''overview'', ''watchlist'', ''recommendations'', ''continue'', ''history'', ''settings'',
          ''devices'', ''connections'', ''simkl'', ''recovery'', ''runtime'', ''profiles'', ''downloads''}
     then fld val ''kind'' = kind
     else if kind = JStr ''presence''
     then fld val ''kind'' = JStr ''presence'' \<and>
       length (arrOf (fld val ''items'')) = length (arrOf (fld sel ''titles'')) \<and>
       list_all (\<lambda>(item, title). fld title ''type'' = fld (fld item ''title'') ''type'' \<and>
           fld title ''id'' = fld (fld item ''title'') ''id'')
         (zip (arrOf (fld val ''items'')) (arrOf (fld sel ''titles'')))
     else fld val ''kind'' = JStr ''title'' \<and>
       fld (fld val ''title'') ''type'' = fld (fld sel ''title'') ''type'' \<and>
       fld (fld val ''title'') ''id'' = fld (fld sel ''title'') ''id'')"

definition sameBillboardScope :: "jsval \<Rightarrow> jsval \<Rightarrow> bool" where
  "sameBillboardScope left right \<longleftrightarrow> fld left ''kind'' = fld right ''kind'' \<and>
     fld left ''facet'' = fld right ''facet'' \<and> fld left ''fresh'' = fld right ''fresh''"

definition queryResultKind :: "jsval \<Rightarrow> jsval" where
  "queryResultKind kind =
    (if kind = JStr ''retained.services.get'' then JStr ''retained.services''
     else if kind = JStr ''retained.home-continue.get'' then JStr ''retained.home-continue''
     else if kind = JStr ''retained.billboard.get'' then JStr ''retained.billboard''
     else kind)"

text \<open>The part of \<open>replyMatches\<close> about a query and its result.\<close>

definition queryAnswers :: "jsval \<Rightarrow> jsval \<Rightarrow> bool" where
  "queryAnswers q result =
    (let kind = fld q ''kind'' in
     if fld result ''kind'' \<noteq> queryResultKind kind then False
     else if kind = JStr ''retained.billboard.get'' then
       fld result ''kind'' = JStr ''retained.billboard'' \<and> sameBillboardScope (fld q ''scope'') (fld result ''scope'')
     else if kind \<noteq> JStr ''playback.prepare'' then True
     else fld result ''kind'' = JStr ''playback.prepare'' \<and>
       fld (fld result ''target'') ''type'' = fld (fld q ''title'') ''type'' \<and>
       fld (fld result ''target'') ''id'' = fld (fld q ''title'') ''id'')"

definition replyMatches :: "jsval \<Rightarrow> jsval \<Rightarrow> jsval option \<Rightarrow> bool" where
  "replyMatches request reply inst =
    (let type = fld request ''type''; rtype = fld reply ''type'' in
     if ''version'' \<in> set (keysOf reply) \<and>
        (case inst of None \<Rightarrow> False | Some i \<Rightarrow> truthy i \<and> fld (fld reply ''version'') ''instance'' \<noteq> i) then False
     else if type = JStr ''hello'' then rtype = JStr ''ready''
     else if type = JStr ''command'' then
       rtype = JStr ''command-result'' \<and> fld reply ''operationId'' = fld request ''operationId''
     else if type = JStr ''query'' then
       rtype = JStr ''query-result'' \<and> queryAnswers (fld request ''query'') (fld reply ''result'')
     else if type = JStr ''task'' then
       rtype = JStr ''task-result'' \<and> fld reply ''operationId'' = fld request ''operationId'' \<and>
       fld (fld reply ''result'') ''kind'' = fld (fld request ''task'') ''kind''
     else if type = JStr ''subscribe'' then
       rtype = JStr ''subscribed'' \<and> fld reply ''subscriptionId'' = fld request ''subscriptionId''
     else if type = JStr ''unsubscribe'' then
       rtype = JStr ''unsubscribed'' \<and> fld reply ''subscriptionId'' = fld request ''subscriptionId''
     else rtype = JStr ''observed'')"

section \<open>Receiving\<close>

text \<open>\<open>pending.resolve\<close> and \<open>pending.reject\<close>, the entry leaving the table.\<close>

definition settle :: "string \<Rightarrow> page_error + jsval \<Rightarrow> page_client \<Rightarrow> page_client" where
  "settle rid outcome c =
    (case jm_get (pg_pending c) rid of
       None \<Rightarrow> c
     | Some p \<Rightarrow> c\<lparr> pg_pending := jm_delete rid (pg_pending c),
                  pg_settled := pg_settled c @ [(rid, q_request p, outcome)] \<rparr>)"

definition failedStatus :: "jsval \<Rightarrow> jsval" where
  "failedStatus error = JObj [(''kind'', JStr ''failed''), (''error'', error)]"

definition rejectAll :: "page_error \<Rightarrow> page_client \<Rightarrow> page_client" where
  "rejectAll e c = c\<lparr> pg_pending := [],
     pg_settled := pg_settled c @ map (\<lambda>(rid, p). (rid, q_request p, Inl e)) (pg_pending c) \<rparr>"

text \<open>The failure of an \<open>error\<close> message, read back from its object.\<close>

definition readFailure :: "jsval \<Rightarrow> service_failure" where
  "readFailure v =
    \<lparr> f_code = strOf (fld v ''code''), f_message = strOf (fld v ''message''), f_retryable = truthy (fld v ''retryable''),
      f_expectedProtocol = (if fld v ''expectedProtocol'' = JUndef then None else Some \<lfloor>ratOf (fld v ''expectedProtocol'')\<rfloor>),
      f_requiredWire = (if fld v ''requiredWire'' = JUndef then None else Some \<lfloor>ratOf (fld v ''requiredWire'')\<rfloor>) \<rparr>"

definition failAll :: "service_failure \<Rightarrow> page_client \<Rightarrow> page_client" where
  "failAll f c =
    (let c1 = rejectAll (ServiceError f) c in
     c1\<lparr> pg_statuses := pg_statuses c1 @ [failedStatus (enc_failure f)] \<rparr>)"

definition wrongSelection :: service_failure where
  "wrongSelection = failureOf ''invalid-request'' ''library service returned the wrong selection value'' False"

definition wrongReply :: service_failure where
  "wrongReply = failureOf ''invalid-request'' ''library service reply did not match its request'' False"

definition receive_update :: "jsval \<Rightarrow> page_client \<Rightarrow> page_client" where
  "receive_update message c =
    (let sid = strOf (fld message ''subscriptionId''); v = fld message ''version'' in
     case jm_get (pg_subscriptions c) sid of
       None \<Rightarrow> c
     | Some sub \<Rightarrow>
         if Some (fld v ''instance'') \<noteq> pg_instance c \<or> \<not> newer v (u_version sub) then c
         else if \<not> selectionMatches (u_selection sub) (fld message ''value'') then failAll wrongSelection c
         else c\<lparr> pg_subscriptions := jm_set sid (sub\<lparr> u_version := Some v,
                  u_shown := u_shown sub @ [(fld message ''value'', v)] \<rparr>) (pg_subscriptions c) \<rparr>)"

definition page_receive :: "jsval \<Rightarrow> page_client \<Rightarrow> page_client" where
  "page_receive message c =
    (let type = fld message ''type''; rid = strOf (fld message ''requestId'') in
     if pg_closed c then c
     else if type = JStr ''update'' then receive_update message c
     else if type = JStr ''status'' then
       (let status = fld message ''status'';
            c1 = (if fld status ''kind'' = JStr ''moved'' then c\<lparr> pg_relay := None \<rparr> else c)
        in c1\<lparr> pg_statuses := pg_statuses c1 @ [status] \<rparr>)
     else if type = JStr ''opening'' then
       (let c1 = (case jm_get (pg_pending c) rid of
                    Some p \<Rightarrow> if fld (q_request p) ''type'' = JStr ''hello''
                              then c\<lparr> pg_pending := jm_set rid (p\<lparr> q_timed := True \<rparr>) (pg_pending c) \<rparr> else c
                  | None \<Rightarrow> c)
        in c1\<lparr> pg_progress := pg_progress c1 @ [fld message ''progress''] \<rparr>)
     else if type = JStr ''error'' \<and> truthy (fld message ''requestId'') then
       settle rid (Inl (ServiceError (readFailure (fld message ''error'')))) c
     else if type = JStr ''error'' then failAll (readFailure (fld message ''error'')) c
     else if ''requestId'' \<notin> set (keysOf message) then c
     else case jm_get (pg_pending c) rid of
         None \<Rightarrow> c
       | Some p \<Rightarrow>
           if \<not> replyMatches (q_request p) message (pg_instance c)
           then failAll wrongReply (settle rid (Inl (ServiceError wrongReply)) c)
           else settle rid (Inr message) c)"

section \<open>What follows an await\<close>

text \<open>\<open>#unexpected\<close>.\<close>

definition unexpected :: "jsval \<Rightarrow> string \<Rightarrow> service_failure" where
  "unexpected reply expected = failureOf ''internal''
     (''library service returned '' @ strOf (fld reply ''type'') @ ''; expected '' @ expected) False"

definition expectedReply :: "jsval \<Rightarrow> string" where
  "expectedReply request =
    (let type = fld request ''type'' in
     if type = JStr ''hello'' then ''ready'' else if type = JStr ''command'' then ''command-result''
     else if type = JStr ''query'' then ''query-result'' else if type = JStr ''task'' then ''task-result''
     else if type = JStr ''observe'' then ''observed'' else if type = JStr ''subscribe'' then ''subscribed''
     else ''unsubscribed'')"

text \<open>What the caller of each method gets of a reply.\<close>

definition resultOf :: "jsval \<Rightarrow> jsval \<Rightarrow> jsval" where
  "resultOf request reply =
    (let type = fld request ''type'' in
     if type = JStr ''hello'' \<or> type = JStr ''observe'' then fld reply ''version''
     else if type = JStr ''query'' \<or> type = JStr ''task''
     then JObj [(''result'', fld reply ''result''), (''version'', fld reply ''version'')]
     else reply)"

definition resume :: "string \<times> jsval \<times> (page_error + jsval) \<Rightarrow> page_client \<Rightarrow> page_client" where
  "resume entry c =
    (case entry of (rid, request, outcome) \<Rightarrow>
       let sid = strOf (fld request ''subscriptionId'');
           answer = (case outcome of
               Inl e \<Rightarrow> Inl e
             | Inr reply \<Rightarrow>
                 if fld reply ''type'' \<noteq> JStr (expectedReply request)
                 then Inl (ServiceError (unexpected reply (expectedReply request))) else Inr reply);
           c1 = (case answer of
               Inl _ \<Rightarrow>
                 if fld request ''type'' = JStr ''subscribe''
                 then c\<lparr> pg_subscriptions := jm_delete sid (pg_subscriptions c) \<rparr> else c
             | Inr reply \<Rightarrow>
                 if fld request ''type'' = JStr ''hello''
                 then c\<lparr> pg_relay := Some (fld reply ''relayMembership''),
                        pg_instance := Some (fld (fld reply ''version'') ''instance'') \<rparr>
                 else if fld request ''type'' = JStr ''subscribe'' then c\<lparr> pg_handed := pg_handed c @ [sid] \<rparr>
                 else c)
       in c1\<lparr> pg_results := pg_results c1 @ [(rid, map_sum id (resultOf request) answer)] \<rparr>)"

definition resume_all :: "page_client \<Rightarrow> page_client" where
  "resume_all c = fold resume (pg_settled c) (c\<lparr> pg_settled := [] \<rparr>)"

text \<open>One \<open>message\<close> event of the worker: the batch, and then what awaited it.\<close>

definition page_batch :: "jsval list \<Rightarrow> page_client \<Rightarrow> page_client" where
  "page_batch messages c = resume_all (fold page_receive messages c)"

section \<open>Calls\<close>

definition requestId_at :: "string \<Rightarrow> nat \<Rightarrow> string" where
  "requestId_at clientId n = clientId @ '':'' @ nat_str n"

definition subscription_at :: "nat \<Rightarrow> string" where
  "subscription_at n = ''subscription-'' @ nat_str n"

definition clientClosed :: service_failure where
  "clientClosed = failureOf ''cancelled'' ''library service client is closed'' False"

text \<open>\<open>#request\<close>; \<open>sends\<close> says whether \<open>transport.send\<close> succeeded. What was sent is returned.\<close>

definition page_request :: "bool \<Rightarrow> string \<Rightarrow> jsval \<Rightarrow> bool \<Rightarrow> page_client \<Rightarrow> page_client \<times> jsval list" where
  "page_request sends rid message timed c =
    (if pg_closed c then (c\<lparr> pg_results := pg_results c @ [(rid, Inl (ServiceError clientClosed))] \<rparr>, [])
     else
       let c1 = c\<lparr> pg_pending := jm_set rid \<lparr> q_request = message, q_timed = timed \<rparr> (pg_pending c) \<rparr> in
       if sends then (c1, [message]) else (resume_all (settle rid (Inl SendFailed) c1), []))"

datatype page_call =
    Hello jsval jsval jsval jsval
  | Command jsval string
  | Query jsval
  | TaskCall jsval string
  | Observe jsval
  | Subscribe jsval
  | Unsubscribe string

text \<open>The object a method builds.\<close>

fun request_message :: "page_client \<Rightarrow> string \<Rightarrow> page_call \<Rightarrow> jsval" where
  "request_message c rid (Hello k mode wire clock) = JObj
     ([(''type'', JStr ''hello''), (''protocol'', PROTOCOL), (''requestId'', JStr rid), (''clientId'', JStr (pg_clientId c)),
       (''libraryKey'', k), (''mode'', mode), (''wire'', if wire = JUndef \<or> wire = JNull then jint 4 else wire)]
      @ (if truthy clock then [(''legacyClock'', clock)] else []))"
| "request_message c rid (Command cmd operationId) = JObj
     [(''type'', JStr ''command''), (''protocol'', PROTOCOL), (''requestId'', JStr rid),
      (''operationId'', JStr operationId), (''command'', cmd)]"
| "request_message c rid (Query q) = JObj
     [(''type'', JStr ''query''), (''protocol'', PROTOCOL), (''requestId'', JStr rid), (''query'', q)]"
| "request_message c rid (TaskCall t operationId) = JObj
     [(''type'', JStr ''task''), (''protocol'', PROTOCOL), (''requestId'', JStr rid),
      (''operationId'', JStr operationId), (''task'', t)]"
| "request_message c rid (Observe ob) = JObj
     [(''type'', JStr ''observe''), (''protocol'', PROTOCOL), (''requestId'', JStr rid), (''observation'', ob)]"
| "request_message c rid (Subscribe sel) = JObj
     [(''type'', JStr ''subscribe''), (''protocol'', PROTOCOL), (''requestId'', JStr rid),
      (''subscriptionId'', JStr (subscription_at (pg_nextSubscription c))), (''selection'', sel)]"
| "request_message c rid (Unsubscribe sid) = JObj
     [(''type'', JStr ''unsubscribe''), (''protocol'', PROTOCOL), (''requestId'', JStr rid), (''subscriptionId'', JStr sid)]"

text \<open>The guards and changes of a method before its request.\<close>

fun prepare :: "page_call \<Rightarrow> page_client \<Rightarrow> page_client option" where
  "prepare (Subscribe sel) c =
    (if pg_closed c then None
     else
       let n = Suc (pg_nextSubscription c) in
       Some (c\<lparr> pg_nextSubscription := n,
              pg_subscriptions := jm_set (subscription_at n) \<lparr> u_selection = sel, u_version = None, u_shown = [] \<rparr>
                (pg_subscriptions c) \<rparr>))"
| "prepare (Unsubscribe sid) c =
    (if pg_closed c \<or> sid \<notin> set (pg_handed c) then None
     else Some (c\<lparr> pg_handed := removeAll sid (pg_handed c), pg_subscriptions := jm_delete sid (pg_subscriptions c) \<rparr>))"
| "prepare _ c = Some c"

definition page_do :: "bool \<Rightarrow> page_call \<Rightarrow> page_client \<Rightarrow> page_client \<times> jsval list" where
  "page_do sends call c =
    (case prepare call c of
       None \<Rightarrow> (c, [])
     | Some c1 \<Rightarrow>
         let c2 = c1\<lparr> pg_nextRequest := Suc (pg_nextRequest c1) \<rparr>; rid = requestId_at (pg_clientId c2) (pg_nextRequest c2) in
         page_request sends rid (request_message c2 rid call) (case call of Hello _ _ _ _ \<Rightarrow> True | _ \<Rightarrow> False) c2)"

text \<open>The timeout of an opening, and \<open>close\<close>.\<close>

definition startupTimeout :: service_failure where
  "startupTimeout = failureOf ''unavailable'' ''Library service startup timed out while opening browser storage'' True"

definition page_timeout :: "string \<Rightarrow> page_client \<Rightarrow> page_client" where
  "page_timeout rid c = resume_all (settle rid (Inl (ServiceError startupTimeout)) c)"

definition page_close :: "page_client \<Rightarrow> page_client" where
  "page_close c =
    (if pg_closed c then c
     else resume_all ((rejectAll (ServiceError clientClosed) (c\<lparr> pg_closed := True, pg_relay := None \<rparr>))
       \<lparr> pg_subscriptions := [] \<rparr>))"

section \<open>The invariant\<close>

definition issued_ids :: "string \<Rightarrow> nat \<Rightarrow> string list" where
  "issued_ids clientId n = map (requestId_at clientId) [1..<Suc n]"

text \<open>Every request id handed out is in one place: waiting, settled but not resumed, or answered.\<close>

definition ids_ok :: "page_client \<Rightarrow> bool" where
  "ids_ok c \<longleftrightarrow> jm_inv (pg_pending c) \<and>
     mset (jm_keys (pg_pending c)) + mset (map fst (pg_settled c)) + mset (map fst (pg_results c)) =
       mset (issued_ids (pg_clientId c) (pg_nextRequest c)) \<and>
     (\<forall>rid p. jm_get (pg_pending c) rid = Some p \<longrightarrow> fld (q_request p) ''requestId'' = JStr rid)"

text \<open>The calls of a listener: the version kept is that of the last call, and each call is newer than the one
  before it.\<close>

definition shown_ok :: "client_subscription \<Rightarrow> bool" where
  "shown_ok sub \<longleftrightarrow> u_version sub = (if u_shown sub = [] then None else Some (snd (last (u_shown sub)))) \<and>
     sorted_wrt (\<lambda>a b. newer (snd b) (Some (snd a))) (u_shown sub)"

definition subs_ok :: "page_client \<Rightarrow> bool" where
  "subs_ok c \<longleftrightarrow> jm_inv (pg_subscriptions c) \<and>
     (\<forall>sid sub. jm_get (pg_subscriptions c) sid = Some sub \<longrightarrow> shown_ok sub) \<and>
     set (jm_keys (pg_subscriptions c)) \<subseteq> subscription_at ` {1..pg_nextSubscription c}"

lemma requestId_at_inj [simp]: "requestId_at c m = requestId_at c n \<longleftrightarrow> m = n"
  by (simp add: requestId_at_def)

lemma subscription_at_inj [simp]: "subscription_at m = subscription_at n \<longleftrightarrow> m = n"
  by (simp add: subscription_at_def)

lemma jm_get_keys: "jm_inv m \<Longrightarrow> jm_get m k = Some v \<Longrightarrow> k \<in> set (jm_keys m)"
  using jm.keys_dom [of m] by auto

lemma mset_filter_one: "distinct xs \<Longrightarrow> k \<in> set xs \<Longrightarrow> mset xs = {#k#} + mset (filter (\<lambda>x. x \<noteq> k) xs)"
proof -
  assume "distinct xs" and k: "k \<in> set xs"
  then have "filter (\<lambda>x. x \<noteq> k) xs = remove1 k xs"
    by (simp add: distinct_remove1_removeAll removeAll_filter_not_eq eq_commute)
  then show ?thesis using k by simp
qed

lemma mset_keys_delete:
  "jm_inv m \<Longrightarrow> jm_get m k = Some v \<Longrightarrow> mset (jm_keys m) = {#k#} + mset (jm_keys (jm_delete k m))"
  using mset_filter_one [of "jm_keys m" k] jm.keys_distinct [of m] jm_get_keys [of m k v] by (simp add: jm.keys_del)

lemma settle_frame [simp]:
  "pg_clientId (settle rid o' c) = pg_clientId c" "pg_nextRequest (settle rid o' c) = pg_nextRequest c"
  "pg_results (settle rid o' c) = pg_results c" "pg_subscriptions (settle rid o' c) = pg_subscriptions c"
  "pg_nextSubscription (settle rid o' c) = pg_nextSubscription c" "pg_handed (settle rid o' c) = pg_handed c"
  "pg_instance (settle rid o' c) = pg_instance c" "pg_closed (settle rid o' c) = pg_closed c"
  by (simp_all add: settle_def split: option.split)

lemma settle_ids: "ids_ok c \<Longrightarrow> ids_ok (settle rid outcome c)"
proof (cases "jm_get (pg_pending c) rid")
  case (Some p)
  assume ok: "ids_ok c"
  then have "mset (jm_keys (pg_pending c)) = {#rid#} + mset (jm_keys (jm_delete rid (pg_pending c)))"
    using Some by (intro mset_keys_delete) (simp_all add: ids_ok_def)
  with ok Some show ?thesis
    by (auto simp: ids_ok_def settle_def jm.inv_del jm.get_del split: if_splits)
qed (simp add: settle_def)

lemma rejectAll_ids: "ids_ok c \<Longrightarrow> ids_ok (rejectAll e c)"
  by (simp add: ids_ok_def rejectAll_def jm_keys_def split_def comp_def jm_get_def ac_simps)

lemma rejectAll_frame [simp]:
  "pg_subscriptions (rejectAll e c) = pg_subscriptions c" "pg_nextSubscription (rejectAll e c) = pg_nextSubscription c"
  "pg_handed (rejectAll e c) = pg_handed c" "pg_instance (rejectAll e c) = pg_instance c" "pg_closed (rejectAll e c) = pg_closed c"
  "pg_clientId (rejectAll e c) = pg_clientId c" "pg_pending (rejectAll e c) = []"
  by (simp_all add: rejectAll_def)

lemma failAll_frame [simp]:
  "pg_subscriptions (failAll f c) = pg_subscriptions c" "pg_nextSubscription (failAll f c) = pg_nextSubscription c"
  "pg_handed (failAll f c) = pg_handed c" "pg_instance (failAll f c) = pg_instance c" "pg_closed (failAll f c) = pg_closed c"
  "pg_clientId (failAll f c) = pg_clientId c" "pg_pending (failAll f c) = []"
  by (simp_all add: failAll_def Let_def)

lemma failAll_ids: "ids_ok c \<Longrightarrow> ids_ok (failAll f c)"
  using rejectAll_ids [of c "ServiceError f"] by (simp add: failAll_def Let_def ids_ok_def)

lemma ids_ok_subscriptions [simp]:
  "ids_ok (c\<lparr> pg_subscriptions := s \<rparr>) = ids_ok c" "ids_ok (c\<lparr> pg_statuses := x \<rparr>) = ids_ok c"
  "ids_ok (c\<lparr> pg_relay := r \<rparr>) = ids_ok c" "ids_ok (c\<lparr> pg_progress := y \<rparr>) = ids_ok c"
  "ids_ok (c\<lparr> pg_instance := i \<rparr>) = ids_ok c" "ids_ok (c\<lparr> pg_handed := h \<rparr>) = ids_ok c"
  "ids_ok (c\<lparr> pg_nextSubscription := n \<rparr>) = ids_ok c" "ids_ok (c\<lparr> pg_closed := b \<rparr>) = ids_ok c"
  by (simp_all add: ids_ok_def)

lemma receive_update_ids: "ids_ok c \<Longrightarrow> ids_ok (receive_update m c)"
  by (auto simp: receive_update_def Let_def failAll_ids split: option.split)

lemma page_receive_ids:
  assumes "ids_ok c"
  shows "ids_ok (page_receive m c)"
proof -
  have "ids_ok (c\<lparr> pg_pending := jm_set rid (p\<lparr> q_timed := b \<rparr>) (pg_pending c) \<rparr>)"
    if "jm_get (pg_pending c) rid = Some p" for rid p b
    using assms that jm_get_keys [of "pg_pending c" rid p]
    by (auto simp: ids_ok_def jm.inv_put jm.get_put jm.keys_put split: if_splits)
  then show ?thesis
    using assms by (auto simp: page_receive_def Let_def receive_update_ids settle_ids failAll_ids split: option.split)
qed

lemma fold_receive_ids: "ids_ok c \<Longrightarrow> ids_ok (fold page_receive ms c)"
  by (induction ms arbitrary: c) (simp_all add: page_receive_ids)

lemma resume_frame [simp]:
  "pg_pending (resume e c) = pg_pending c" "pg_settled (resume e c) = pg_settled c" "pg_clientId (resume e c) = pg_clientId c"
  "pg_nextRequest (resume e c) = pg_nextRequest c" "pg_closed (resume e c) = pg_closed c"
  "pg_nextSubscription (resume e c) = pg_nextSubscription c"
  "map fst (pg_results (resume e c)) = map fst (pg_results c) @ [fst e]"
  by (cases e; auto simp: resume_def Let_def split: sum.split)+

lemma fold_resume_frame:
  "pg_pending (fold resume es c) = pg_pending c" "pg_settled (fold resume es c) = pg_settled c"
  "pg_clientId (fold resume es c) = pg_clientId c" "pg_nextRequest (fold resume es c) = pg_nextRequest c"
  "pg_closed (fold resume es c) = pg_closed c" "pg_nextSubscription (fold resume es c) = pg_nextSubscription c"
  "map fst (pg_results (fold resume es c)) = map fst (pg_results c) @ map fst es"
  by (induction es arbitrary: c) simp_all

lemma resume_all_frame [simp]:
  "pg_pending (resume_all c) = pg_pending c" "pg_settled (resume_all c) = []" "pg_clientId (resume_all c) = pg_clientId c"
  "pg_nextRequest (resume_all c) = pg_nextRequest c" "pg_closed (resume_all c) = pg_closed c"
  "pg_nextSubscription (resume_all c) = pg_nextSubscription c"
  "map fst (pg_results (resume_all c)) = map fst (pg_results c) @ map fst (pg_settled c)"
  by (simp_all add: resume_all_def fold_resume_frame)

lemma resume_all_ids: "ids_ok c \<Longrightarrow> ids_ok (resume_all c)"
  by (simp add: ids_ok_def ac_simps flip: mset_map)

lemma page_batch_ids: "ids_ok c \<Longrightarrow> ids_ok (page_batch ms c)"
  by (simp add: page_batch_def resume_all_ids fold_receive_ids)

lemma prepare_frame:
  "prepare call c = Some c1 \<Longrightarrow> pg_pending c1 = pg_pending c \<and> pg_settled c1 = pg_settled c \<and> pg_results c1 = pg_results c \<and>
     pg_clientId c1 = pg_clientId c \<and> pg_nextRequest c1 = pg_nextRequest c \<and> pg_closed c1 = pg_closed c \<and>
     pg_instance c1 = pg_instance c \<and> (ids_ok c1 = ids_ok c)"
  by (cases call) (auto simp: Let_def split: if_splits)

lemma request_message_id [simp]: "fld (request_message c rid call) ''requestId'' = JStr rid"
  by (cases call) simp_all

lemma fresh_id:
  assumes "ids_ok c"
  shows "requestId_at (pg_clientId c) (Suc (pg_nextRequest c)) \<notin> set (jm_keys (pg_pending c))"
    and "mset (issued_ids (pg_clientId c) (Suc (pg_nextRequest c))) =
      add_mset (requestId_at (pg_clientId c) (Suc (pg_nextRequest c))) (mset (issued_ids (pg_clientId c) (pg_nextRequest c)))"
proof -
  have "set_mset (mset (jm_keys (pg_pending c))) \<subseteq> set_mset (mset (issued_ids (pg_clientId c) (pg_nextRequest c)))"
    using assms by (metis (no_types, lifting) ids_ok_def set_mset_union sup.cobounded1 sup_assoc)
  then show "requestId_at (pg_clientId c) (Suc (pg_nextRequest c)) \<notin> set (jm_keys (pg_pending c))"
    by (auto simp: issued_ids_def)
qed (simp add: issued_ids_def)

lemma page_request_ids:
  assumes "ids_ok c" and "fld m ''requestId'' = JStr (requestId_at (pg_clientId c) (Suc (pg_nextRequest c)))"
  shows "ids_ok (fst (page_request sends (requestId_at (pg_clientId c) (Suc (pg_nextRequest c))) m timed
     (c\<lparr> pg_nextRequest := Suc (pg_nextRequest c) \<rparr>)))"
proof -
  let ?rid = "requestId_at (pg_clientId c) (Suc (pg_nextRequest c))"
  let ?c1 = "c\<lparr> pg_nextRequest := Suc (pg_nextRequest c), pg_pending := jm_set ?rid \<lparr> q_request = m, q_timed = timed \<rparr> (pg_pending c) \<rparr>"
  have "ids_ok ?c1"
    using assms fresh_id [OF assms(1)] by (auto simp: ids_ok_def jm.inv_put jm.get_put jm.keys_put split: if_splits)
  then show ?thesis
    using assms(1) fresh_id(2) [OF assms(1)]
    by (auto simp: page_request_def Let_def resume_all_ids settle_ids) (simp add: ids_ok_def)
qed

lemma page_do_ids: "ids_ok c \<Longrightarrow> ids_ok (fst (page_do sends call c))"
proof (cases "prepare call c")
  case (Some c1)
  assume ok: "ids_ok c"
  note fr = prepare_frame [OF Some]
  then have "ids_ok c1" using ok by simp
  then show ?thesis using Some page_request_ids [of c1] by (simp add: page_do_def Let_def)
qed (simp add: page_do_def)

lemma page_timeout_ids: "ids_ok c \<Longrightarrow> ids_ok (page_timeout rid c)"
  by (simp add: page_timeout_def resume_all_ids settle_ids)

lemma page_close_ids: "ids_ok c \<Longrightarrow> ids_ok (page_close c)"
  by (simp add: page_close_def resume_all_ids rejectAll_ids)

lemma js_gt_trans: "js_gt a b \<Longrightarrow> js_gt b c \<Longrightarrow> js_gt a c"
  by (cases "(a, b)" rule: js_gt.cases; cases "(b, c)" rule: js_gt.cases) auto

lemma newer_trans: "newer c (Some b) \<Longrightarrow> newer b (Some a) \<Longrightarrow> newer c (Some a)"
  by (auto simp: newer_def intro: js_gt_trans split: if_splits)

lemma shown_append:
  assumes "shown_ok sub" and "newer v (u_version sub)"
  shows "shown_ok (sub\<lparr> u_version := Some v, u_shown := u_shown sub @ [(x, v)] \<rparr>)"
proof (cases "u_shown sub" rule: rev_cases)
  case Nil
  then show ?thesis by (simp add: shown_ok_def)
next
  case (snoc ys b)
  with assms have "newer v (Some (snd b))" and "\<forall>a \<in> set ys. newer (snd b) (Some (snd a))"
    by (simp_all add: shown_ok_def sorted_wrt_append)
  then have "\<forall>a \<in> set (u_shown sub). newer v (Some (snd a))" using snoc newer_trans by auto
  then show ?thesis using assms(1) by (simp add: shown_ok_def sorted_wrt_append)
qed

lemma receive_update_subs: "subs_ok c \<Longrightarrow> subs_ok (receive_update m c)"
  by (auto simp: subs_ok_def receive_update_def Let_def jm.inv_put jm.get_put jm.keys_put shown_append
      dest: jm_get_keys split: option.split if_splits)

lemma subs_ok_frame:
  "pg_subscriptions c' = pg_subscriptions c \<Longrightarrow> pg_nextSubscription c' = pg_nextSubscription c \<Longrightarrow> subs_ok c' = subs_ok c"
  by (simp add: subs_ok_def)

lemma page_receive_subscriptions:
  "fld m ''type'' \<noteq> JStr ''update'' \<Longrightarrow> pg_subscriptions (page_receive m c) = pg_subscriptions c"
  by (auto simp: page_receive_def Let_def split: option.split)

lemma receive_update_frame [simp]:
  "pg_nextSubscription (receive_update m c) = pg_nextSubscription c" "pg_instance (receive_update m c) = pg_instance c"
  "pg_handed (receive_update m c) = pg_handed c" "pg_closed (receive_update m c) = pg_closed c"
  "pg_clientId (receive_update m c) = pg_clientId c"
  by (auto simp: receive_update_def Let_def split: option.split)

lemma page_receive_frame [simp]:
  "pg_nextSubscription (page_receive m c) = pg_nextSubscription c" "pg_instance (page_receive m c) = pg_instance c"
  "pg_handed (page_receive m c) = pg_handed c" "pg_closed (page_receive m c) = pg_closed c"
  "pg_clientId (page_receive m c) = pg_clientId c"
  by (auto simp: page_receive_def Let_def split: option.split)

lemma page_receive_subs: "subs_ok c \<Longrightarrow> subs_ok (page_receive m c)"
proof (cases "fld m ''type'' = JStr ''update''")
  case False
  assume "subs_ok c"
  then show ?thesis using subs_ok_frame [OF page_receive_subscriptions [OF False], of c] by simp
qed (auto simp: page_receive_def Let_def receive_update_subs)

lemma subs_ok_delete: "subs_ok c \<Longrightarrow> subs_ok (c\<lparr> pg_subscriptions := jm_delete sid (pg_subscriptions c) \<rparr>)"
  by (auto simp: subs_ok_def jm.inv_del jm.get_del jm.keys_del split: if_splits)

lemma subs_ok_updates [simp]:
  "subs_ok (c\<lparr> pg_results := r \<rparr>) = subs_ok c" "subs_ok (c\<lparr> pg_handed := h \<rparr>) = subs_ok c"
  "subs_ok (c\<lparr> pg_relay := m \<rparr>) = subs_ok c" "subs_ok (c\<lparr> pg_instance := i \<rparr>) = subs_ok c"
  "subs_ok (c\<lparr> pg_settled := s \<rparr>) = subs_ok c" "subs_ok (c\<lparr> pg_pending := p \<rparr>) = subs_ok c"
  "subs_ok (c\<lparr> pg_nextRequest := n \<rparr>) = subs_ok c" "subs_ok (c\<lparr> pg_closed := b \<rparr>) = subs_ok c"
  by (simp_all add: subs_ok_def)

lemma resume_subs: "subs_ok c \<Longrightarrow> subs_ok (resume e c)"
  by (cases e) (auto simp: resume_def Let_def subs_ok_delete split: sum.split)

lemma fold_resume_subs: "subs_ok c \<Longrightarrow> subs_ok (fold resume es c)"
  by (induction es arbitrary: c) (simp_all add: resume_subs)

lemma resume_all_subs: "subs_ok c \<Longrightarrow> subs_ok (resume_all c)"
  by (simp add: resume_all_def fold_resume_subs)

lemma page_batch_subs: "subs_ok c \<Longrightarrow> subs_ok (page_batch ms c)"
proof -
  assume "subs_ok c"
  then have "subs_ok (fold page_receive ms c)" by (induction ms arbitrary: c) (simp_all add: page_receive_subs)
  then show ?thesis by (simp add: page_batch_def resume_all_subs)
qed

lemma settle_subs: "subs_ok c \<Longrightarrow> subs_ok (settle rid outcome c)"
  by (simp add: subs_ok_def)

lemma prepare_subs: "subs_ok c \<Longrightarrow> prepare call c = Some c1 \<Longrightarrow> subs_ok c1"
proof (cases call)
  case (Subscribe sel)
  assume "subs_ok c" and "prepare call c = Some c1"
  moreover have "shown_ok \<lparr> u_selection = sel, u_version = None, u_shown = [] \<rparr>" by (simp add: shown_ok_def)
  ultimately show ?thesis
    using Subscribe by (auto simp: Let_def subs_ok_def jm.inv_put jm.get_put jm.keys_put atLeastAtMostSuc_conv split: if_splits)
qed (auto simp: subs_ok_def jm.inv_del jm.get_del jm.keys_del split: if_splits)

lemma page_do_subs: "subs_ok c \<Longrightarrow> subs_ok (fst (page_do sends call c))"
  by (auto simp: page_do_def page_request_def Let_def settle_subs intro!: resume_all_subs dest: prepare_subs split: option.split)

lemma page_timeout_subs: "subs_ok c \<Longrightarrow> subs_ok (page_timeout rid c)"
  by (simp add: page_timeout_def resume_all_subs settle_subs)

lemma page_close_subs: "subs_ok c \<Longrightarrow> subs_ok (page_close c)"
  by (auto simp: page_close_def intro!: resume_all_subs) (simp add: subs_ok_def jm_get_def)

section \<open>The page alone\<close>

text \<open>Whatever a worker posts: the page's calls, batches of any values, the timeout and closing.\<close>

inductive page_step :: "page_client \<Rightarrow> page_client \<Rightarrow> bool" where
  calls: "page_step c (fst (page_do sends call c))"
| batches: "page_step c (page_batch ms c)"
| timeouts: "page_step c (page_timeout rid c)"
| closes: "page_step c (page_close c)"

definition page_start :: "page_client \<Rightarrow> bool" where
  "page_start c \<longleftrightarrow> (\<exists>clientId. c = new_page clientId)"

definition page_inv :: "page_client \<Rightarrow> bool" where
  "page_inv c \<longleftrightarrow> ids_ok c \<and> subs_ok c \<and> pg_settled c = []"

lemma settled_after [simp]:
  "pg_settled (page_batch ms c) = []" "pg_settled (page_timeout rid c) = []"
  "pg_settled c = [] \<Longrightarrow> pg_settled (page_close c) = []"
  "pg_settled c = [] \<Longrightarrow> pg_settled (fst (page_do sends call c)) = []"
  by (auto simp: page_batch_def page_timeout_def page_close_def page_do_def page_request_def Let_def dest!: prepare_frame split: option.split)

interpretation pag: stepping page_start page_step page_inv
proof
  show "page_inv c" if "page_start c" for c
    using that by (auto simp: page_start_def page_inv_def ids_ok_def subs_ok_def new_page_def issued_ids_def jm_get_def)
  show "page_inv d" if "page_inv c" "page_step c d" for c d
    using that(2,1)
    by cases (simp_all add: page_inv_def page_do_ids page_do_subs page_batch_ids page_batch_subs page_timeout_ids page_timeout_subs
        page_close_ids page_close_subs)
qed

text \<open>C19: Every call of the page has one outcome. Whatever batches the worker posts, each request id handed out is
  different and is either waiting or has exactly one result, and once the page is closed or everything was
  failed nothing is left waiting.\<close>

theorem call_settles_once:
  assumes "page_start c0" and "page_step\<^sup>*\<^sup>* c0 c"
  shows "distinct (jm_keys (pg_pending c) @ map fst (pg_results c)) \<and>
     set (jm_keys (pg_pending c) @ map fst (pg_results c)) = requestId_at (pg_clientId c) ` {1..pg_nextRequest c} \<and>
     pg_pending (page_close c) = (if pg_closed c then pg_pending c else []) \<and> pg_pending (failAll f c) = []"
proof -
  have inv: "page_inv c" using pag.inv_reachable [OF assms] .
  then have eq: "mset (jm_keys (pg_pending c) @ map fst (pg_results c)) = mset (issued_ids (pg_clientId c) (pg_nextRequest c))"
    by (auto simp: page_inv_def ids_ok_def)
  have "distinct (issued_ids (pg_clientId c) (pg_nextRequest c))"
    by (simp add: issued_ids_def distinct_map inj_on_def del: upt_Suc)
  with eq have "distinct (jm_keys (pg_pending c) @ map fst (pg_results c))" using mset_eq_imp_distinct_iff by blast
  moreover have "set (issued_ids (pg_clientId c) (pg_nextRequest c)) = requestId_at (pg_clientId c) ` {1..pg_nextRequest c}"
    by (simp add: issued_ids_def atLeastLessThanSuc_atLeastAtMost del: upt_Suc)
  moreover have "set (jm_keys (pg_pending c) @ map fst (pg_results c)) = set (issued_ids (pg_clientId c) (pg_nextRequest c))"
    using eq by (rule mset_eq_setD)
  ultimately show ?thesis by (simp add: page_close_def)
qed

text \<open>C20: A view never goes back. Whatever the worker posts and in whatever order, the calls of a subscription's
  listener are each strictly newer, of one instance of the service, than every call before.\<close>

theorem views_move_forward:
  assumes "page_start c0" and "page_step\<^sup>*\<^sup>* c0 c" and "jm_get (pg_subscriptions c) sid = Some sub"
    and "i < j" and "j < length (u_shown sub)"
  shows "fld (snd (u_shown sub ! i)) ''instance'' = fld (snd (u_shown sub ! j)) ''instance'' \<and>
     js_gt (fld (snd (u_shown sub ! j)) ''revision'') (fld (snd (u_shown sub ! i)) ''revision'')"
proof -
  have "shown_ok sub"
    using pag.inv_reachable [OF assms(1,2)] assms(3) by (auto simp: page_inv_def subs_ok_def)
  then have "newer (snd (u_shown sub ! j)) (Some (snd (u_shown sub ! i)))"
    using assms(4,5) by (simp add: shown_ok_def sorted_wrt_iff_nth_less)
  then show ?thesis by (auto simp: newer_def split: if_splits)
qed


section \<open>A page that says hello and subscribes\<close>

definition demo_version :: "nat \<Rightarrow> library_version" where
  "demo_version n = \<lparr> v_instance = ''i1'', v_generation = None, v_revision = n \<rparr>"

definition demo_overview :: jsval where
  "demo_overview = JObj [(''kind'', JStr ''overview'')]"

definition demo_page :: page_client where
  "demo_page = page_batch [updateMessage ''subscription-1'' (demo_version 1) demo_overview,
      updateMessage ''subscription-1'' (demo_version 2) demo_overview]
    (fst (page_do True (Subscribe demo_overview)
      (page_batch [readyMessage (JStr ''p:1'') JNull (demo_version 0)]
        (fst (page_do True (Hello (JStr ''k'') (JStr ''local'') JUndef JUndef) (new_page ''p''))))))"

lemma demo_page_reached: "page_step\<^sup>*\<^sup>* (new_page ''p'') demo_page"
  unfolding demo_page_def by (intro rtranclp.rtrancl_into_rtrancl [of page_step, OF _ batches] rtranclp.rtrancl_into_rtrancl [of page_step, OF _ calls]) simp

lemma demo_page_shown:
  "jm_get (pg_subscriptions demo_page) ''subscription-1'' =
    Some \<lparr> u_selection = demo_overview, u_version = Some (enc_version (demo_version 2)),
      u_shown = [(demo_overview, enc_version (demo_version 1)), (demo_overview, enc_version (demo_version 2))] \<rparr>"
  by code_simp

lemma demo_page_start: "page_start (new_page ''p'')"
  by (auto simp: page_start_def)

theorem call_settles_once_witness:
  "distinct (jm_keys (pg_pending demo_page) @ map fst (pg_results demo_page)) \<and>
     pg_pending demo_page \<noteq> [] \<and> pg_pending (page_close demo_page) = []"
proof -
  have "pg_pending demo_page \<noteq> []" "\<not> pg_closed demo_page" by code_simp+
  then show ?thesis using call_settles_once [OF demo_page_start demo_page_reached] by simp
qed

theorem views_move_forward_witness:
  "js_gt (fld (enc_version (demo_version 2)) ''revision'') (fld (enc_version (demo_version 1)) ''revision'')"
  using views_move_forward [OF demo_page_start demo_page_reached demo_page_shown, of 0 1] by simp

end
