(* ===== verification/WorkerHost.thy ===== *)
theory WorkerHost
  imports PageClient
begin

text \<open>
  \<^verbatim>\<open>web/src/lib/libraryServiceWorkerHost.ts\<close>, the library half: the worker's edge decodes every message of the
  page, gives it to the core, and decodes every reply before it posts the batch. What the core publishes to
  its listeners is posted the same way. The lemmas say what one message or one event of the authority makes
  the worker post, and how the replies relate to the subscriptions the core holds.
\<close>

section \<open>The host\<close>

definition invalidReply :: "service_failure \<Rightarrow> service_failure" where
  "invalidReply f = failureOf ''internal'' (''library service produced an invalid reply: '' @ f_message f) True"

text \<open>\<open>#publishLibrary\<close> and \<open>#post\<close>: the batches posted.\<close>

fun decodeAll :: "js_env \<Rightarrow> jsval list \<Rightarrow> service_failure + jsval list" where
  "decodeAll E [] = Inr []"
| "decodeAll E (m # ms) =
    (case decodeLibraryServiceServerMessage E m of
       Inl f \<Rightarrow> Inl f
     | Inr r \<Rightarrow> (case decodeAll E ms of Inl f \<Rightarrow> Inl f | Inr rs \<Rightarrow> Inr (r # rs)))"

definition publishLibrary :: "js_env \<Rightarrow> jsval list \<Rightarrow> string option \<Rightarrow> jsval list list" where
  "publishLibrary E output requestId =
    (case decodeAll E output of
       Inl f \<Rightarrow> [[errorReply (invalidReply f) requestId None]]
     | Inr messages \<Rightarrow> if messages = [] then [] else [messages])"

text \<open>What the host, listener 0 of the core, was handed between two states of it.\<close>

definition handed_over :: "'w core \<Rightarrow> 'w core \<Rightarrow> jsval list list" where
  "handed_over st st' = map snd (filter (\<lambda>p. fst p = 0) (drop (length (delivered st)) (delivered st')))"

text \<open>\<open>#dispatch\<close> of a library message to an open host. \<open>core_dispatch\<close> is total, so the \<open>catch\<close> is not reached; a
  \<open>hello\<close> that waits for the retirement lease is served later, which serving in any order covers.\<close>

definition host_dispatch :: "'w authority \<Rightarrow> js_env \<Rightarrow> jsval \<Rightarrow> 'w core \<Rightarrow> jsval list list \<times> 'w core" where
  "host_dispatch A E input st =
    (case decodeLibraryServiceClientMessage E input of
       Inl error \<Rightarrow> ([[errorReply error (requestIdOf input) None]], st)
     | Inr request \<Rightarrow>
         (case core_dispatch A E request st of
            (output, st1) \<Rightarrow>
              (concat (map (\<lambda>ms. publishLibrary E ms None) (handed_over st st1)) @
               publishLibrary E output (Some (strOf (fld request ''requestId''))), st1)))"

definition host_event :: "'w authority \<Rightarrow> js_env \<Rightarrow> authority_event \<Rightarrow> 'w core \<Rightarrow> jsval list list \<times> 'w core" where
  "host_event A E event st =
    (let st1 = core_event A E event st in
     (concat (map (\<lambda>ms. publishLibrary E ms None) (handed_over st st1)), st1))"

lemma decodeAll_accepted: "list_all (accepted E) ms \<Longrightarrow> decodeAll E ms = Inr ms"
  by (induction ms) (simp_all add: accepted_def)

lemma publish_accepted: "list_all (accepted E) ms \<Longrightarrow> publishLibrary E ms rid = (if ms = [] then [] else [ms])"
  by (simp add: publishLibrary_def decodeAll_accepted)

section \<open>What moves in the core\<close>

text \<open>How the subscriptions of the core change together with the updates it sends, as triples of subscription,
  revision and value: an update tells the value now held, with a revision above every earlier one unless the
  subscription is new; a subscription that no update names is as it was, or gone.\<close>

definition moves :: "'w core \<Rightarrow> (string \<times> nat \<times> jsval) list \<Rightarrow> 'w core \<Rightarrow> bool" where
  "moves st us st' \<longleftrightarrow>
     revision st \<le> revision st' \<and> distinct (map fst us) \<and>
     (\<forall>sid r x. (sid, r, x) \<in> set us \<longrightarrow> r \<le> revision st' \<and>
        (\<exists>s'. jm_get (subscriptions st') sid = Some s' \<and> s_value s' = x \<and> selectionMatches (s_selection s') x \<and>
           (case jm_get (subscriptions st) sid of
              None \<Rightarrow> True | Some s \<Rightarrow> revision st < r \<and> s_selection s' = s_selection s))) \<and>
     (\<forall>sid s'. sid \<notin> fst ` set us \<longrightarrow> jm_get (subscriptions st') sid = Some s' \<longrightarrow> jm_get (subscriptions st) sid = Some s')"

definition is_update :: "string \<Rightarrow> string \<times> nat \<times> jsval \<Rightarrow> jsval \<Rightarrow> bool" where
  "is_update inst u m \<longleftrightarrow> (\<exists>v. m = updateMessage (fst u) v (snd (snd u)) \<and> v_instance v = inst \<and> v_revision v = fst (snd u))"

text \<open>What the page relies on: a selection is answered with a value of its kind, a query with the result of its
  kind, a task with its own result, and the progress of an opening is a fraction.\<close>

definition authority_fits :: "js_env \<Rightarrow> 'w authority \<Rightarrow> bool" where
  "authority_fits E A \<longleftrightarrow>
     (\<forall>sel w x w'. a_select A sel w = (Inr x, w') \<longrightarrow> selectionMatches sel x) \<and>
     (\<forall>q w x w'. a_query A q w = (Inr x, w') \<longrightarrow> queryAnswers q x) \<and>
     (\<forall>t i w r w'. a_task A t i w = (Inr r, w') \<longrightarrow> fld (t_result r) ''kind'' = fld t ''kind'') \<and>
     (\<forall>m w ps r w'. a_open A m w = ((ps, r), w') \<longrightarrow> (\<forall>p \<in> set ps. \<exists>x. p = Fin x \<and> 0 \<le> x \<and> x \<le> 1))"

lemma authority_fitsD:
  assumes "authority_fits E A"
  shows "a_select A sel w = (Inr x, w') \<Longrightarrow> selectionMatches sel x"
    and "a_query A q w = (Inr y, w') \<Longrightarrow> queryAnswers q y"
    and "a_task A t i w = (Inr r, w') \<Longrightarrow> fld (t_result r) ''kind'' = fld t ''kind''"
    and "a_open A m w = ((ps, res), w') \<Longrightarrow> p \<in> set ps \<Longrightarrow> \<exists>x. p = Fin x \<and> 0 \<le> x \<and> x \<le> 1"
  using assms unfolding authority_fits_def by blast+

lemma stageUpdates_staged:
  assumes "authority_fits E A" and "jm_inv subs" and "stageUpdates A E affected subs w = (Inr us, w')"
  shows "distinct (map fst us) \<and> fst ` set us \<subseteq> set (jm_keys subs) \<and>
     (\<forall>u \<in> set us. \<forall>s. jm_get subs (fst u) = Some s \<longrightarrow> selectionMatches (s_selection s) (fst (snd u)))"
  using assms(2,3)
proof (induction subs arbitrary: w us)
  case Nil
  then show ?case by simp
next
  case (Cons p subs)
  obtain k sub where p: "p = (k, sub)" by (cases p)
  have inv: "jm_inv subs" and new: "k \<notin> set (jm_keys subs)" using Cons.prems(1) p by (simp_all add: jm_inv_def jm_keys_def)
  have keys: "set (jm_keys (p # subs)) = insert k (set (jm_keys subs))" using p by (simp add: jm_keys_def)
  have same: "jm_get (p # subs) j = jm_get subs j" if "j \<in> set (jm_keys subs)" for j
    using that new p by (auto simp: jm_get_def)
  have here: "jm_get (p # subs) k = Some sub" using p by (simp add: jm_get_def)
  show ?case
  proof (cases "hit affected sub")
    case False
    with Cons.prems(2) p have "stageUpdates A E affected subs w = (Inr us, w')" by simp
    from Cons.IH [OF inv this] have ih: "distinct (map fst us)" "fst ` set us \<subseteq> set (jm_keys subs)"
      "\<forall>u \<in> set us. \<forall>s. jm_get subs (fst u) = Some s \<longrightarrow> selectionMatches (s_selection s) (fst (snd u))" by blast+
    then have "\<forall>u \<in> set us. jm_get (p # subs) (fst u) = jm_get subs (fst u)" using same by blast
    with ih keys show ?thesis by auto
  next
    case True
    then obtain x w1 vs where x: "a_select A (s_selection sub) w = (Inr x, w1)"
      and rest: "stageUpdates A E affected subs w1 = (Inr vs, w')"
      and us: "us = (if stringify E x = s_digest sub then vs else (k, x, stringify E x) # vs)"
      using Cons.prems(2) p by (auto simp: Let_def split: prod.splits sum.splits)
    from Cons.IH [OF inv rest] have ih: "distinct (map fst vs)" "fst ` set vs \<subseteq> set (jm_keys subs)"
      "\<forall>u \<in> set vs. \<forall>s. jm_get subs (fst u) = Some s \<longrightarrow> selectionMatches (s_selection s) (fst (snd u))" by blast+
    then have "\<forall>u \<in> set vs. jm_get (p # subs) (fst u) = jm_get subs (fst u)" using same by blast
    moreover have "selectionMatches (s_selection sub) x" using authority_fitsD(1) [OF assms(1) x] .
    moreover have "k \<notin> fst ` set vs" using ih(2) new by blast
    ultimately show ?thesis using ih keys here us by auto
  qed
qed

lemma updatesOrNone_moves:
  assumes "authority_fits E A" and "jm_inv (subscriptions st)" and "updatesOrNone A E affected st = (ms, st')"
    and "subscriptions st0 = subscriptions st" and "revision st0 < revision st"
  shows "\<exists>us. list_all2 (is_update (instanceId st)) us ms \<and> moves st0 us st' \<and> fst ` set us \<subseteq> set (jm_keys (subscriptions st))"
proof (cases "stageUpdates A E affected (subscriptions st) (world st)")
  case (Pair r w)
  show ?thesis
  proof (cases r)
    case (Inl e)
    with Pair assms(3-5) show ?thesis
      by (intro exI [of _ "[]"]) (auto simp: updatesOrNone_def updates_def moves_def)
  next
    case (Inr us)
    note inv = assms(2)
    have "stageUpdates A E affected (subscriptions st) (world st) = (Inr us, w)" using Pair Inr by simp
    note staged = stageUpdates_staged [OF assms(1) inv this]
    then have dist: "distinct (map fst us)" and keys: "fst ` set us \<subseteq> set (jm_keys (subscriptions st))" by blast+
    note get = fold_commit_get [OF inv dist keys]
    let ?us = "map (\<lambda>(sid, x, d). (sid, revision st, x)) us"
    have eq: "ms = map (\<lambda>(sid, x, d). updateMessage sid (versionOf A st) x) us"
      "st' = st\<lparr> subscriptions := fold commitUpdate us (subscriptions st), world := w \<rparr>"
      using assms(3) Pair Inr
      by (auto simp: updatesOrNone_def updates_def Let_def)
    have one: "\<exists>s'. jm_get (subscriptions st') sid = Some s' \<and> s_value s' = x \<and> selectionMatches (s_selection s') x \<and>
        (\<exists>s. jm_get (subscriptions st) sid = Some s \<and> s_selection s' = s_selection s)" if u: "(sid, x, d) \<in> set us" for sid x d
    proof -
      obtain s where s: "jm_get (subscriptions st) sid = Some s"
        using keys u jm.keys_dom [OF inv] by force
      have "map_of us sid = Some (x, d)" using u dist by simp
      moreover have "selectionMatches (s_selection s) x" using staged u s by fastforce
      ultimately show ?thesis using get [of sid] s eq(2) by simp
    qed
    have none: "jm_get (subscriptions st) sid = Some s'"
      if "sid \<notin> fst ` set us" "jm_get (subscriptions st') sid = Some s'" for sid s'
      using get [of sid] that eq(2) by (auto simp: map_of_eq_None_iff split: option.splits) (metis map_of_SomeD fst_conv image_eqI)
    have "moves st0 ?us st'"
      unfolding moves_def
    proof (intro conjI allI impI)
      show "distinct (map fst ?us)" using dist by (simp add: split_def comp_def)
    next
      fix sid r x assume "(sid, r, x) \<in> set ?us"
      then obtain d where "(sid, x, d) \<in> set us" "r = revision st" by auto
      then show "r \<le> revision st'"
        and "\<exists>s'. jm_get (subscriptions st') sid = Some s' \<and> s_value s' = x \<and> selectionMatches (s_selection s') x \<and>
           (case jm_get (subscriptions st0) sid of None \<Rightarrow> True | Some s \<Rightarrow> revision st0 < r \<and> s_selection s' = s_selection s)"
        using one [of sid x d] assms(4,5) eq(2) by auto
    next
      fix sid s' assume "sid \<notin> fst ` set ?us" and "jm_get (subscriptions st') sid = Some s'"
      moreover have "fst ` set ?us = fst ` set us" by force
      ultimately show "jm_get (subscriptions st0) sid = Some s'" using none assms(4) by simp
    qed (use assms(5) eq(2) in simp)
    moreover have "list_all2 (is_update (instanceId st)) ?us ms"
      unfolding eq(1) by (auto simp: list.rel_map split_def is_update_def versionOf_def intro!: list.rel_refl_strong)
    moreover have "fst ` set ?us \<subseteq> set (jm_keys (subscriptions st))" using keys by force
    ultimately show ?thesis by blast
  qed
qed

section \<open>Answers\<close>

definition sub_request :: "jsval \<Rightarrow> string \<Rightarrow> bool" where
  "sub_request m sid \<longleftrightarrow> fld m ''type'' = JStr ''subscribe'' \<and> fld m ''subscriptionId'' = JStr sid"

definition settling :: "jsval \<Rightarrow> bool" where
  "settling r \<longleftrightarrow> ''requestId'' \<in> set (keysOf r) \<and>
     fld r ''type'' \<noteq> JStr ''update'' \<and> fld r ''type'' \<noteq> JStr ''status'' \<and> fld r ''type'' \<noteq> JStr ''opening''"

text \<open>A reply that settles its request: an error that names it, or a reply the page matches to it.\<close>

definition answers :: "string \<Rightarrow> jsval \<Rightarrow> jsval \<Rightarrow> bool" where
  "answers inst m r \<longleftrightarrow> settling r \<and> fld r ''requestId'' = fld m ''requestId'' \<and>
     (fld r ''type'' = JStr ''error'' \<or>
      replyMatches m r (Some (JStr inst)) \<and>
      (fld r ''type'' = JStr ''ready'' \<longrightarrow> fld (fld r ''version'') ''instance'' = JStr inst))"

lemma version_fields [simp]:
  "fld (enc_version v) ''instance'' = JStr (v_instance v)" "fld (enc_version v) ''revision'' = jint (int (v_revision v))"
  by (simp_all add: enc_version_def)

lemma errorReply_answers:
  "fld m ''requestId'' = JStr rid \<Longrightarrow> rid \<noteq> [] \<Longrightarrow> answers inst m (errorReply f (Some rid) sid)"
  by (cases sid) (simp_all add: answers_def settling_def errorReply_def truthy_field_def)

lemma replies_answer:
  "fld m ''type'' = JStr ''hello'' \<Longrightarrow> v_instance v = inst \<Longrightarrow> answers inst m (readyMessage (fld m ''requestId'') relay v)"
  "fld m ''type'' = JStr ''command'' \<Longrightarrow> v_instance v = inst \<Longrightarrow> fld m ''operationId'' = JStr i \<Longrightarrow>
     answers inst m (commandMessage (fld m ''requestId'') i oc d v)"
  "fld m ''type'' = JStr ''query'' \<Longrightarrow> v_instance v = inst \<Longrightarrow> queryAnswers (fld m ''query'') x \<Longrightarrow>
     answers inst m (queryMessage (fld m ''requestId'') x v)"
  "fld m ''type'' = JStr ''task'' \<Longrightarrow> v_instance v = inst \<Longrightarrow> fld m ''operationId'' = JStr i \<Longrightarrow>
     fld x ''kind'' = fld (fld m ''task'') ''kind'' \<Longrightarrow> answers inst m (taskMessage (fld m ''requestId'') i x v)"
  "fld m ''type'' = JStr ''observe'' \<Longrightarrow> v_instance v = inst \<Longrightarrow> answers inst m (observedMessage (fld m ''requestId'') v)"
  "fld m ''type'' = JStr ''subscribe'' \<Longrightarrow> v_instance v = inst \<Longrightarrow> fld m ''subscriptionId'' = JStr sid \<Longrightarrow>
     answers inst m (subscribedMessage (fld m ''requestId'') sid v)"
  "fld m ''type'' = JStr ''unsubscribe'' \<Longrightarrow> fld m ''subscriptionId'' = JStr sid \<Longrightarrow>
     answers inst m (unsubscribedMessage (fld m ''requestId'') sid)"
  by (simp_all add: answers_def settling_def replyMatches_def readyMessage_def commandMessage_def queryMessage_def taskMessage_def
      observedMessage_def subscribedMessage_def unsubscribedMessage_def Let_def)

lemma moves_same: "subscriptions st' = subscriptions st \<Longrightarrow> revision st \<le> revision st' \<Longrightarrow> moves st [] st'"
  by (simp add: moves_def)

text \<open>What a handler does for the page: the updates, the answer, and who is subscribed then.\<close>

definition handled :: "jsval \<Rightarrow> 'w core \<Rightarrow> jsval list \<Rightarrow> 'w core \<Rightarrow> bool" where
  "handled m st ms st' \<longleftrightarrow>
     (\<exists>us ums r. ms = ums @ [r] \<and> list_all2 (is_update (instanceId st)) us ums \<and> moves st us st' \<and> answers (instanceId st) m r \<and>
        (\<forall>sid. sid \<in> fst ` set us \<longrightarrow> jm_get (subscriptions st) sid \<noteq> None \<or> sub_request m sid) \<and>
        (\<forall>sid. fld r ''type'' \<noteq> JStr ''error'' \<and> sub_request m sid \<longrightarrow> (\<exists>s'. jm_get (subscriptions st') sid = Some s')) \<and>
        (\<forall>sid s'. sub_request m sid \<and> jm_get (subscriptions st) sid = None \<and> jm_get (subscriptions st') sid = Some s' \<longrightarrow>
           s_selection s' = fld m ''selection''))"

lemma handled_plain:
  assumes "answers (instanceId st) m r" and "subscriptions st' = subscriptions st" and "revision st \<le> revision st'"
    and "fld m ''type'' \<noteq> JStr ''subscribe'' \<or> fld r ''type'' = JStr ''error''"
  shows "handled m st [r] st'"
  unfolding handled_def
  using assms moves_same [OF assms(2,3)] by (intro exI [of _ "[]"] exI [of _ r]) (auto simp: sub_request_def)

lemma handled_updates:
  assumes "authority_fits E A" and "jm_inv (subscriptions st)" and "updatesOrNone A E affected st1 = (ms, st')"
    and "subscriptions st1 = subscriptions st" and "revision st1 = Suc (revision st)" and "instanceId st1 = instanceId st"
    and "answers (instanceId st) m r" and "fld m ''type'' \<noteq> JStr ''subscribe''"
  shows "handled m st (ms @ [r]) st'"
proof -
  have inv: "jm_inv (subscriptions st1)" and sub: "subscriptions st = subscriptions st1" and rev: "revision st < revision st1"
    using assms(2,4,5) by simp_all
  obtain us where us: "list_all2 (is_update (instanceId st1)) us ms" "moves st us st'" "fst ` set us \<subseteq> set (jm_keys (subscriptions st1))"
    using updatesOrNone_moves [OF assms(1) inv assms(3) sub rev] by blast
  have "jm_get (subscriptions st) sid \<noteq> None" if "sid \<in> fst ` set us" for sid
    using subsetD [OF us(3) that] jm.keys_dom [OF inv] sub by auto
  moreover have "\<not> sub_request m sid" for sid using assms(8) by (simp add: sub_request_def)
  ultimately show ?thesis
    unfolding handled_def using us(1,2) assms(6,7) by (intro exI [of _ us] exI [of _ ms] exI [of _ r]) simp
qed

lemma updatesOrNone_frame:
  "updatesOrNone A E affected st = (ms, st') \<Longrightarrow>
     delivered st' = delivered st \<and> listeners st' = listeners st \<and> instanceId st' = instanceId st \<and> revision st' = revision st \<and> closed st' = closed st"
  using updates_frame [of A E affected st] by (auto simp: updatesOrNone_def split: prod.splits sum.splits)

lemma message_types:
  assumes "client_message E m"
  shows "fld m ''type'' = JStr ''subscribe'' \<Longrightarrow> \<exists>sid. fld m ''subscriptionId'' = JStr sid"
    and "fld m ''type'' = JStr ''unsubscribe'' \<Longrightarrow> \<exists>sid. fld m ''subscriptionId'' = JStr sid"
    and "fld m ''type'' = JStr ''command'' \<Longrightarrow> \<exists>i. fld m ''operationId'' = JStr i"
    and "fld m ''type'' = JStr ''task'' \<Longrightarrow> \<exists>i. fld m ''operationId'' = JStr i"
    and "\<exists>rid. fld m ''requestId'' = JStr rid \<and> rid \<noteq> []"
    and "fld m ''type'' \<in> JStr ` {''hello'', ''command'', ''query'', ''task'', ''subscribe'', ''unsubscribe'', ''observe''}"
proof -
  have rid: "isText (fld m ''requestId'')" and pay: "client_payload E (strOf (fld m ''type'')) m"
    and ty: "isText (fld m ''type'')" using assms by (simp_all add: client_message_def)
  have str: "\<exists>s. v = JStr s \<and> s \<noteq> []" if "isText v" for v using text_ok_strOf [OF that] by (auto simp: text_ok_def)
  show "\<exists>rid. fld m ''requestId'' = JStr rid \<and> rid \<noteq> []" using str [OF rid] .
  show "\<exists>sid. fld m ''subscriptionId'' = JStr sid" if "fld m ''type'' = JStr ''subscribe''"
    using pay that str by (auto simp: client_payload_def)
  show "\<exists>sid. fld m ''subscriptionId'' = JStr sid" if "fld m ''type'' = JStr ''unsubscribe''"
    using pay that str by (auto simp: client_payload_def)
  show "\<exists>i. fld m ''operationId'' = JStr i" if "fld m ''type'' = JStr ''command''"
    using pay that str by (auto simp: client_payload_def)
  show "\<exists>i. fld m ''operationId'' = JStr i" if "fld m ''type'' = JStr ''task''"
    using pay that str by (auto simp: client_payload_def)
  obtain s where s: "fld m ''type'' = JStr s" using str [OF ty] by blast
  then show "fld m ''type'' \<in> JStr ` {''hello'', ''command'', ''query'', ''task'', ''subscribe'', ''unsubscribe'', ''observe''}"
    using pay by (auto simp: client_payload_def split: if_splits)
qed

text \<open>What a handler returned, or the error \<open>#dispatch\<close> makes of what it threw.\<close>

definition outcome_messages :: "jsval \<Rightarrow> thrown + jsval list \<Rightarrow> jsval list" where
  "outcome_messages m res =
    (case res of
       Inr messages \<Rightarrow> messages
     | Inl e \<Rightarrow> [errorReply (authorityFailure e ''library service request failed'') (Some (strOf (fld m ''requestId'')))
         (if fld m ''type'' = JStr ''subscribe'' \<or> fld m ''type'' = JStr ''unsubscribe''
          then Some (strOf (fld m ''subscriptionId'')) else None)])"

definition quietly :: "'w core \<Rightarrow> 'w core \<Rightarrow> bool" where
  "quietly st st' \<longleftrightarrow> delivered st' = delivered st \<and> listeners st' = listeners st \<and>
     instanceId st' = instanceId st \<and> closed st' = closed st"

lemma thrown_handled:
  assumes "fld m ''requestId'' = JStr rid" and "rid \<noteq> []" and "subscriptions st' = subscriptions st" and "revision st \<le> revision st'"
  shows "handled m st (outcome_messages m (Inl e)) st'"
  using assms errorReply_answers [OF assms(1,2)]
  by (auto simp: outcome_messages_def errorReply_def intro!: handled_plain)

lemma core_subscribe_handled:
  assumes "authority_fits E A" and "jm_inv (subscriptions st)" and "fld m ''type'' = JStr ''subscribe''"
    and "fld m ''subscriptionId'' = JStr sid" and "jm_get (subscriptions st) sid = None"
    and "fld m ''requestId'' = JStr rid" and "rid \<noteq> []" and "core_subscribe A E m st = (res, st')"
  shows "handled m st (outcome_messages m res) st' \<and> quietly st st'"
proof (cases "a_select A (fld m ''selection'') (world st)")
  case (Pair r w)
  show ?thesis
  proof (cases r)
    case (Inl e)
    with Pair assms(8) show ?thesis
      using thrown_handled [OF assms(6,7), of "st\<lparr> world := w \<rparr>" st e] by (auto simp: core_subscribe_def quietly_def)
  next
    case (Inr x)
    let ?s = "\<lparr> s_selection = fld m ''selection'', s_value = x, s_digest = stringify E x \<rparr>"
    let ?st = "st\<lparr> world := w, subscriptions := jm_set sid ?s (subscriptions st) \<rparr>"
    have res: "res = Inr [updateMessage sid (versionOf A ?st) x, subscribedMessage (fld m ''requestId'') sid (versionOf A ?st)]" "st' = ?st"
      using assms(4,8) Pair Inr by (auto simp: core_subscribe_def Let_def)
    have get: "jm_get (subscriptions ?st) = (jm_get (subscriptions st))(sid \<mapsto> ?s)" using assms(2) by (simp add: jm.get_put)
    have "selectionMatches (fld m ''selection'') x" using authority_fitsD(1) [OF assms(1)] Pair Inr by blast
    then have "moves st [(sid, revision st, x)] ?st" using get assms(5) by (simp add: moves_def)
    moreover have "answers (instanceId st) m (subscribedMessage (fld m ''requestId'') sid (versionOf A ?st))"
      using assms(3,4) by (intro replies_answer) (simp_all add: versionOf_def)
    moreover have "is_update (instanceId st) (sid, revision st, x) (updateMessage sid (versionOf A ?st) x)"
      by (auto simp: is_update_def versionOf_def)
    moreover have "sub_request m sid' \<longleftrightarrow> sid' = sid" for sid' using assms(3,4) by (auto simp: sub_request_def)
    ultimately have "handled m st (outcome_messages m res) st'"
      unfolding handled_def res outcome_messages_def using get
      by (intro exI [of _ "[(sid, revision st, x)]"] exI [of _ "[updateMessage sid (versionOf A ?st) x]"] exI) auto
    then show ?thesis using res(2) by (simp add: quietly_def)
  qed
qed

lemma core_unsubscribe_handled:
  assumes "jm_inv (subscriptions st)" and "fld m ''type'' = JStr ''unsubscribe''" and "fld m ''subscriptionId'' = JStr sid"
    and "core_unsubscribe m st = (res, st')"
  shows "handled m st (outcome_messages m res) st' \<and> quietly st st'"
proof -
  have "moves st [] st'" using assms by (auto simp: moves_def core_unsubscribe_def Let_def jm.get_del split: if_splits)
  moreover have "answers (instanceId st) m (unsubscribedMessage (fld m ''requestId'') sid)" using assms(2,3) by (intro replies_answer)
  moreover have "\<not> sub_request m s" for s using assms(2) by (simp add: sub_request_def)
  ultimately have "handled m st [unsubscribedMessage (fld m ''requestId'') sid] st'"
    unfolding handled_def by (intro exI [of _ "[]"] exI [of _ "unsubscribedMessage (fld m ''requestId'') sid"]) simp
  then show ?thesis using assms(3,4) by (auto simp: core_unsubscribe_def Let_def outcome_messages_def quietly_def)
qed

lemma core_query_handled:
  assumes "authority_fits E A" and "fld m ''type'' = JStr ''query''" and "fld m ''requestId'' = JStr rid" and "rid \<noteq> []"
    and "core_query A m st = (res, st')"
  shows "handled m st (outcome_messages m res) st' \<and> quietly st st'"
proof (cases "a_query A (fld m ''query'') (world st)")
  case (Pair r w)
  show ?thesis
  proof (cases r)
    case (Inl e)
    with Pair assms(5) show ?thesis
      using thrown_handled [OF assms(3,4), of "st\<lparr> world := w \<rparr>" st e] by (auto simp: core_query_def quietly_def)
  next
    case (Inr x)
    have res: "res = Inr [queryMessage (fld m ''requestId'') x (versionOf A (st\<lparr> world := w \<rparr>))]" "st' = st\<lparr> world := w \<rparr>"
      using assms(5) Pair Inr by (auto simp: core_query_def Let_def)
    have "queryAnswers (fld m ''query'') x" using authority_fitsD(2) [OF assms(1)] Pair Inr by blast
    then have "answers (instanceId st) m (queryMessage (fld m ''requestId'') x (versionOf A (st\<lparr> world := w \<rparr>)))"
      using assms(2) by (intro replies_answer) (simp_all add: versionOf_def)
    then show ?thesis
      using res assms(2) handled_plain [of st m _ st'] by (auto simp: outcome_messages_def quietly_def)
  qed
qed

lemma core_task_handled:
  assumes "authority_fits E A" and "jm_inv (subscriptions st)" and "fld m ''type'' = JStr ''task''"
    and "fld m ''operationId'' = JStr i" and "fld m ''requestId'' = JStr rid" and "rid \<noteq> []"
    and "core_task A E m st = (res, st')"
  shows "handled m st (outcome_messages m res) st' \<and> quietly st st'"
proof (cases "a_task A (fld m ''task'') i (world st)")
  case (Pair r w)
  show ?thesis
  proof (cases r)
    case (Inl e)
    with Pair assms(4,7) show ?thesis
      using thrown_handled [OF assms(5,6), of "st\<lparr> world := w \<rparr>" st e] by (auto simp: core_task_def quietly_def)
  next
    case (Inr x)
    let ?st1 = "st\<lparr> world := w, revision := revision st + 1 \<rparr>"
    obtain ms st2 where u: "updatesOrNone A E (t_affected x) ?st1 = (ms, st2)"
      by (cases "updatesOrNone A E (t_affected x) ?st1")
    have res: "res = Inr (ms @ [taskMessage (fld m ''requestId'') i (t_result x) (versionOf A st2)])" "st' = st2"
      using assms(4,7) Pair Inr u by (auto simp: core_task_def Let_def)
    note fr = updatesOrNone_frame [OF u]
    have "fld (t_result x) ''kind'' = fld (fld m ''task'') ''kind''" using authority_fitsD(3) [OF assms(1)] Pair Inr by blast
    then have "answers (instanceId st) m (taskMessage (fld m ''requestId'') i (t_result x) (versionOf A st2))"
      using assms(3,4) fr by (intro replies_answer) (simp_all add: versionOf_def)
    then have "handled m st (ms @ [taskMessage (fld m ''requestId'') i (t_result x) (versionOf A st2)]) st2"
      using assms(3) by (intro handled_updates [OF assms(1,2) u]) simp_all
    then show ?thesis using res fr by (simp add: outcome_messages_def quietly_def)
  qed
qed

lemma bump_applied: "bump Applied st = st\<lparr> revision := Suc (revision st) \<rparr>" "bump Unchanged st = st"
  by (simp_all add: bump_def)

lemma core_observe_handled:
  assumes "authority_fits E A" and "jm_inv (subscriptions st)" and "fld m ''type'' = JStr ''observe''"
    and "fld m ''requestId'' = JStr rid" and "rid \<noteq> []" and "core_observe A E m st = (res, st')"
  shows "handled m st (outcome_messages m res) st' \<and> quietly st st'"
proof (cases "a_observe A (fld m ''observation'') (world st)")
  case (Pair r w)
  show ?thesis
  proof (cases r)
    case (Inl e)
    with Pair assms(6) show ?thesis
      using thrown_handled [OF assms(4,5), of "st\<lparr> world := w \<rparr>" st e] by (auto simp: core_observe_def quietly_def)
  next
    case (Inr x)
    let ?st1 = "bump (ob_outcome x) (st\<lparr> world := w \<rparr>)"
    let ?r = "observedMessage (fld m ''requestId'') (versionOf A ?st1)"
    have "instanceId ?st1 = instanceId st" by (simp add: bump_def)
    then have ans: "answers (instanceId st) m ?r" using assms(3) by (intro replies_answer) (simp_all add: versionOf_def)
    show ?thesis
    proof (cases "ob_outcome x")
      case Applied
      obtain ms st2 where u: "updatesOrNone A E (ob_affected x) ?st1 = (ms, st2)" by (cases "updatesOrNone A E (ob_affected x) ?st1")
      have res: "res = Inr (ms @ [?r])" "st' = st2" using assms(6) Pair Inr u Applied by (auto simp: core_observe_def Let_def)
      have "handled m st (ms @ [?r]) st2"
        using assms(3) ans Applied by (intro handled_updates [OF assms(1,2) u]) (simp_all add: bump_applied)
      then show ?thesis using res updatesOrNone_frame [OF u] by (simp add: outcome_messages_def quietly_def bump_def)
    next
      case Unchanged
      have res: "res = Inr [?r]" "st' = st\<lparr> world := w \<rparr>" using assms(6) Pair Inr Unchanged by (auto simp: core_observe_def Let_def bump_applied)
      then show ?thesis
        using ans assms(3) handled_plain [OF ans, of st'] by (simp add: outcome_messages_def quietly_def)
    qed
  qed
qed

lemma core_command_handled:
  assumes "authority_fits E A" and "core_inv E st" and "fld m ''type'' = JStr ''command''"
    and "fld m ''operationId'' = JStr i" and "fld m ''requestId'' = JStr rid" and "rid \<noteq> []"
    and "core_command A E m st = (res, st')"
  shows "handled m st (outcome_messages m res) st' \<and> quietly st st'"
proof (cases "jm_get (operations st) i")
  case (Some fin)
  have "(i, fin) \<in> set (operations st)" using Some by (simp add: jm_get_def map_of_SomeD)
  then have "v_instance (o_version fin) = instanceId st" using assms(2) by (auto simp: core_inv_def versions_ok_def)
  then have ok: "answers (instanceId st) m (commandMessage (fld m ''requestId'') i (o_outcome fin) (o_delivery fin) (o_version fin))"
    using assms(3,4) by (intro replies_answer) simp_all
  have err: "answers (instanceId st) m (errorReply f (Some rid) None)" for f using errorReply_answers [OF assms(5,6)] .
  show ?thesis
    using Some assms(3-5,7) handled_plain [OF ok, of st] handled_plain [OF err, of st]
    by (auto simp: core_command_def Let_def outcome_messages_def quietly_def split: if_splits)
next
  case None
  have inv: "jm_inv (subscriptions st)" using assms(2) by (simp add: core_inv_def)
  show ?thesis
  proof (cases "a_command A (fld m ''command'') i (world st)")
    case (Pair r w)
    show ?thesis
    proof (cases r)
      case (Inl e)
      with None Pair assms(4,7) show ?thesis
        using thrown_handled [OF assms(5,6), of "st\<lparr> world := w \<rparr>" st e] by (auto simp: core_command_def quietly_def)
    next
      case (Inr x)
      let ?st1 = "bump (c_outcome x) (st\<lparr> world := w \<rparr>)"
      let ?r = "commandMessage (fld m ''requestId'') i (c_outcome x) (c_delivery x) (versionOf A ?st1)"
      let ?st2 = "?st1\<lparr> operations := rememberOperation i \<lparr> o_command = stringify E (fld m ''command''), o_outcome = c_outcome x,
          o_delivery = c_delivery x, o_version = versionOf A ?st1 \<rparr> (operations ?st1) \<rparr>"
      have "instanceId ?st1 = instanceId st" by (simp add: bump_def)
      then have ans: "answers (instanceId st) m ?r" using assms(3,4) by (intro replies_answer) (simp_all add: versionOf_def)
      show ?thesis
      proof (cases "c_outcome x")
        case Applied
        obtain ms st3 where u: "updatesOrNone A E (c_affected x) ?st2 = (ms, st3)" by (cases "updatesOrNone A E (c_affected x) ?st2")
        have res: "res = Inr (ms @ [?r])" "st' = st3"
          using assms(4,7) None Pair Inr u Applied by (auto simp: core_command_def Let_def)
        have "handled m st (ms @ [?r]) st3"
          using assms(3) ans Applied by (intro handled_updates [OF assms(1) inv u]) (simp_all add: bump_applied)
        then show ?thesis using res updatesOrNone_frame [OF u] by (simp add: outcome_messages_def quietly_def bump_def)
      next
        case Unchanged
        have res: "res = Inr [?r]" "st' = ?st2" using assms(4,7) None Pair Inr Unchanged by (auto simp: core_command_def Let_def bump_applied)
        then show ?thesis
          using ans assms(3) handled_plain [OF ans, of st'] Unchanged by (simp add: outcome_messages_def quietly_def bump_applied)
      qed
    qed
  qed
qed

lemma core_handle_handled:
  assumes "authority_fits E A" and "core_inv E st" and "client_message E m" and "fld m ''type'' \<noteq> JStr ''hello''"
    and "\<And>sid. sub_request m sid \<Longrightarrow> jm_get (subscriptions st) sid = None" and "core_handle A E m st = (res, st')"
  shows "handled m st (outcome_messages m res) st' \<and> quietly st st'"
proof -
  have inv: "jm_inv (subscriptions st)" using assms(2) by (simp add: core_inv_def)
  obtain rid where rid: "fld m ''requestId'' = JStr rid" "rid \<noteq> []" using message_types(5) [OF assms(3)] by blast
  consider "fld m ''type'' = JStr ''command''" | "fld m ''type'' = JStr ''query''" | "fld m ''type'' = JStr ''task''"
    | "fld m ''type'' = JStr ''subscribe''" | "fld m ''type'' = JStr ''unsubscribe''" | "fld m ''type'' = JStr ''observe''"
    using message_types(6) [OF assms(3)] assms(4) by auto
  then show ?thesis
  proof cases
    case 1
    then obtain i where "fld m ''operationId'' = JStr i" using message_types(3) [OF assms(3)] by blast
    from core_command_handled [OF assms(1,2) 1 this rid] show ?thesis using assms(6) 1 by (simp add: core_handle_def Let_def)
  next
    case 2
    from core_query_handled [OF assms(1) 2 rid] show ?thesis using assms(6) 2 by (simp add: core_handle_def Let_def)
  next
    case 3
    then obtain i where "fld m ''operationId'' = JStr i" using message_types(4) [OF assms(3)] by blast
    from core_task_handled [OF assms(1) inv 3 this rid] show ?thesis using assms(6) 3 by (simp add: core_handle_def Let_def)
  next
    case 4
    then obtain sid where sid: "fld m ''subscriptionId'' = JStr sid" using message_types(1) [OF assms(3)] by blast
    then have "jm_get (subscriptions st) sid = None" using 4 assms(5) by (simp add: sub_request_def)
    from core_subscribe_handled [OF assms(1) inv 4 sid this rid] show ?thesis using assms(6) 4 by (simp add: core_handle_def Let_def)
  next
    case 5
    then obtain sid where "fld m ''subscriptionId'' = JStr sid" using message_types(2) [OF assms(3)] by blast
    from core_unsubscribe_handled [OF inv 5 this] show ?thesis using assms(6) 5 by (simp add: core_handle_def Let_def)
  next
    case 6
    from core_observe_handled [OF assms(1) inv 6 rid] show ?thesis using assms(6) 6 by (simp add: core_handle_def Let_def)
  qed
qed

section \<open>One message, one event\<close>

lemma fold_publish_fields:
  "\<not> closed st \<Longrightarrow> delivered (fold (\<lambda>p. publish [f p]) ps st) = delivered st @ concat (map (\<lambda>p. map (\<lambda>l. (l, [f p])) (listeners st)) ps)"
  "listeners (fold (\<lambda>p. publish (g p)) ps st) = listeners st" "instanceId (fold (\<lambda>p. publish (g p)) ps st) = instanceId st"
  "subscriptions (fold (\<lambda>p. publish (g p)) ps st) = subscriptions st" "closed (fold (\<lambda>p. publish (g p)) ps st) = closed st"
  by (induction ps arbitrary: st) (simp_all add: publish_def)

lemma accepted_opening:
  "text_ok rid \<Longrightarrow> 0 \<le> x \<Longrightarrow> x \<le> 1 \<Longrightarrow> accepted E (openingMessage (JStr rid) (Fin x))"
  by (simp add: server_defs openingMessage_def exact_def exact_key_def)

text \<open>The host is the only listener: what is published is what it posts.\<close>

definition handed :: "'w core \<Rightarrow> jsval list list \<Rightarrow> 'w core \<Rightarrow> bool" where
  "handed st pubs st' \<longleftrightarrow> handed_over st st' = pubs \<and> listeners st' = listeners st \<and>
     instanceId st' = instanceId st \<and> closed st' = closed st"

lemma quietly_handed: "quietly st st' \<Longrightarrow> handed st [] st'"
  by (simp add: quietly_def handed_def handed_over_def)

lemma core_hello_handled:
  assumes "authority_fits E A" and "listeners st = [0]" and "\<not> closed st" and "fld m ''type'' = JStr ''hello''"
    and "fld m ''requestId'' = JStr rid" and "rid \<noteq> []"
  shows "\<exists>ps. handled m st (fst (core_hello A m st)) (snd (core_hello A m st)) \<and>
     handed st (map (\<lambda>p. [openingMessage (JStr rid) p]) ps) (snd (core_hello A m st)) \<and>
     (\<forall>p \<in> set ps. \<exists>x. p = Fin x \<and> 0 \<le> x \<and> x \<le> 1)"
proof (cases "client st")
  case (Some c)
  have err: "answers (instanceId st) m (errorReply f (Some rid) None)" for f using errorReply_answers [OF assms(5,6)] .
  have ready: "answers (instanceId st) m (readyMessage (fld m ''requestId'') (membership st) (versionOf A st))"
    using assms(4) by (intro replies_answer) (simp_all add: versionOf_def)
  show ?thesis
    using Some handled_plain [OF err, of st] handled_plain [OF ready, of st] assms(4,5)
    by (intro exI [of _ "[]"]) (simp add: core_hello_def Let_def handed_def handed_over_def)
next
  case None
  obtain ps r w where o: "a_open A m (world st) = ((ps, r), w)" by (cases "a_open A m (world st)") auto
  have frac: "\<forall>p \<in> set ps. \<exists>x. p = Fin x \<and> 0 \<le> x \<and> x \<le> 1" using authority_fitsD(4) [OF assms(1) o] by blast
  define st1 where "st1 = fold (\<lambda>p. publish [openingMessage (JStr rid) p]) ps (st\<lparr> world := w \<rparr>)"
  have st1: "subscriptions st1 = subscriptions st" "revision st1 = revision st" "instanceId st1 = instanceId st" "listeners st1 = listeners st"
    "closed st1 = closed st" "delivered st1 = delivered st @ map (\<lambda>p. (0, [openingMessage (JStr rid) p])) ps"
    using assms(2,3,5) by (simp_all add: st1_def fold_publish_fields fold_publish_revision)
  have over: "handed st (map (\<lambda>p. [openingMessage (JStr rid) p]) ps) st'"
    if "delivered st' = delivered st1" "listeners st' = listeners st1" "instanceId st' = instanceId st1" "closed st' = closed st1" for st'
    using that st1 by (simp add: handed_def handed_over_def comp_def filter_map)
  have err: "handled m st [errorReply f (Some rid) None] st1" for f
    using st1 errorReply_answers [OF assms(5,6)] assms(4) by (intro handled_plain) simp_all
  show ?thesis
  proof (cases "r = Inr True")
    case False
    then have "\<exists>f. core_hello A m st = ([errorReply f (Some rid) None], st1)"
      using None o assms(5) by (auto simp: core_hello_def Let_def st1_def split: sum.splits thrown.splits)
    then obtain f where "core_hello A m st = ([errorReply f (Some rid) None], st1)" by blast
    then show ?thesis using err over [of st1] frac by (intro exI [of _ ps]) simp
  next
    case True
    obtain ans w2 where q: "a_query A (JObj [(''kind'', JStr ''relay.membership'')]) w = (ans, w2)"
      by (cases "a_query A (JObj [(''kind'', JStr ''relay.membership'')]) w")
    obtain relay where h: "core_hello A m st =
      (let st2 = st1\<lparr> opened := True, listening := True, membership := relay, client := Some \<lparr> cl_id = fld m ''clientId'',
          cl_libraryKey = fld m ''libraryKey'', cl_mode = fld m ''mode'', cl_wire = fld m ''wire'' \<rparr>, world := w2 \<rparr>
       in ([readyMessage (fld m ''requestId'') relay (versionOf A st2)], st2))"
      using None o True q assms(5) by (simp add: core_hello_def Let_def st1_def)
    define st2 where "st2 = st1\<lparr> opened := True, listening := True, membership := relay, client := Some \<lparr> cl_id = fld m ''clientId'',
          cl_libraryKey = fld m ''libraryKey'', cl_mode = fld m ''mode'', cl_wire = fld m ''wire'' \<rparr>, world := w2 \<rparr>"
    have eq: "core_hello A m st = ([readyMessage (fld m ''requestId'') relay (versionOf A st2)], st2)"
      unfolding h Let_def st2_def by simp
    have "answers (instanceId st) m (readyMessage (fld m ''requestId'') relay (versionOf A st2))"
      using assms(4) st1(3) by (intro replies_answer) (simp_all add: versionOf_def st2_def)
    from handled_plain [OF this, of st2] st1 assms(4)
    have "handled m st [readyMessage (fld m ''requestId'') relay (versionOf A st2)] st2" by (simp add: st2_def)
    then show ?thesis using eq over [of st2] frac by (intro exI [of _ ps]) (simp add: st2_def)
  qed
qed

lemma core_dispatch_handled:
  assumes "authority_fits E A" and "core_inv E st" and "listeners st = [0]" and "\<not> closed st" and "client_message E m"
    and "\<And>sid. sub_request m sid \<Longrightarrow> jm_get (subscriptions st) sid = None"
    and "fld m ''requestId'' = JStr rid" and "rid \<noteq> []"
  shows "\<exists>ps. handled m st (fst (core_dispatch A E m st)) (snd (core_dispatch A E m st)) \<and>
     handed st (map (\<lambda>p. [openingMessage (JStr rid) p]) ps) (snd (core_dispatch A E m st)) \<and>
     (\<forall>p \<in> set ps. \<exists>x. p = Fin x \<and> 0 \<le> x \<and> x \<le> 1)"
proof -
  have dec: "decodeLibraryServiceClientMessage E m = Inr m" using assms(5) by (simp add: decode_client_iff)
  consider "fld m ''type'' = JStr ''hello''" | "fld m ''type'' \<noteq> JStr ''hello''" "\<not> opened st"
    | "fld m ''type'' \<noteq> JStr ''hello''" "opened st" by blast
  then show ?thesis
  proof cases
    case 1
    then show ?thesis using core_hello_handled [OF assms(1,3,4) 1 assms(7,8)] dec assms(4) by (simp add: core_dispatch_def Let_def)
  next
    case 2
    have "answers (instanceId st) m (errorReply f (Some rid) None)" for f using errorReply_answers [OF assms(7,8)] .
    from handled_plain [OF this, of st] show ?thesis
      using 2 dec assms(4,7) by (intro exI [of _ "[]"]) (simp add: core_dispatch_def Let_def handed_def handed_over_def errorReply_def)
  next
    case 3
    obtain res st' where h: "core_handle A E m st = (res, st')" by (cases "core_handle A E m st")
    have "core_dispatch A E m st = (outcome_messages m res, st')"
      using 3 dec assms(4) h by (simp add: core_dispatch_def Let_def outcome_messages_def split: sum.split)
    then show ?thesis
      using core_handle_handled [OF assms(1,2,5) 3(1) assms(6) h] quietly_handed [of st st'] by (intro exI [of _ "[]"]) simp
  qed
qed

text \<open>The statuses an authority may announce: their texts are ones the protocol can carry.\<close>

fun event_ok :: "authority_event \<Rightarrow> bool" where
  "event_ok (StatusEvent (StatusReadOnly reason)) = text_ok reason"
| "event_ok (StatusEvent (StatusMoved (Some successor))) = (length successor \<le> 4096)"
| "event_ok (StatusEvent (StatusFailed f)) = failure_ok f"
| "event_ok _ = True"

lemma accepted_status:
  assumes "event_ok (StatusEvent status)" and "version_ok (versionOf A st)"
  shows "accepted E (statusMessage (statusOf A status st))"
proof -
  have exact: "exact (statusMessage s) '',type,protocol,status,''" for s
    by (simp add: statusMessage_def exact_def exact_key_def)
  have "sessionStatus (statusOf A status st)"
  proof (cases status)
    case (StatusMoved successor)
    then show ?thesis using assms(1)
      by (cases successor) (auto simp: sessionStatus_def truthy_field_def exact_def exact_key_def optional_def text_ok_def Let_def)
  qed (use assms in \<open>simp_all add: sessionStatus_def exact_def exact_key_def nullable_def Let_def text_ok_def\<close>)
  with exact show ?thesis by (simp add: server_defs statusMessage_def Let_def)
qed

definition event_handled :: "js_env \<Rightarrow> 'w core \<Rightarrow> jsval list list \<Rightarrow> 'w core \<Rightarrow> bool" where
  "event_handled E st pubs st' \<longleftrightarrow> handed st pubs st' \<and> list_all (list_all (accepted E)) pubs \<and>
     (\<exists>us. moves st us st' \<and> (\<forall>sid. sid \<in> fst ` set us \<longrightarrow> jm_get (subscriptions st) sid \<noteq> None) \<and>
       (us = [] \<and> pubs = [] \<or> (\<exists>s. us = [] \<and> pubs = [[statusMessage s]]) \<or>
        (\<exists>ums. pubs = [ums] \<and> ums \<noteq> [] \<and> list_all2 (is_update (instanceId st)) us ums)))"

lemma event_handled_none: "handed st [] st' \<Longrightarrow> moves st [] st' \<Longrightarrow> event_handled E st [] st'"
  unfolding event_handled_def by (intro conjI exI [of _ "[]"]) simp_all

lemma event_handled_status:
  "handed st [[statusMessage s]] st' \<Longrightarrow> moves st [] st' \<Longrightarrow> accepted E (statusMessage s) \<Longrightarrow>
     event_handled E st [[statusMessage s]] st'"
  unfolding event_handled_def by (intro conjI exI [of _ "[]"]) (simp_all, blast)

lemma handed_one:
  assumes "listeners st = [0]" and "\<not> closed st" and "delivered st2 = delivered st" and "listeners st2 = listeners st"
    and "instanceId st2 = instanceId st" and "closed st2 = closed st"
  shows "handed st [ms] (publish ms st2)"
  using assms by (simp add: handed_def handed_over_def publish_def)

lemma publish_kept:
  "moves st us (publish ms st2) = moves st us st2" "wire_inv (publish ms st2) = wire_inv st2"
proof -
  have f: "subscriptions (publish ms st2) = subscriptions st2" "revision (publish ms st2) = revision st2"
    "instanceId (publish ms st2) = instanceId st2" "operations (publish ms st2) = operations st2"
    "membership (publish ms st2) = membership st2"
    by (simp_all add: publish_def)
  show "moves st us (publish ms st2) = moves st us st2" unfolding moves_def f ..
  show "wire_inv (publish ms st2) = wire_inv st2" unfolding wire_inv_def f ..
qed

lemma core_event_changed:
  assumes "\<not> closed st" and "opened st"
  shows "core_event A E (Changed affected) st =
    (case updatesOrNone A E affected (st\<lparr> revision := revision st + 1 \<rparr>) of (ms, st2) \<Rightarrow> if ms = [] then st2 else publish ms st2)"
proof (cases "updates A E affected (st\<lparr> revision := revision st + 1 \<rparr>)")
  case (Pair r st1)
  then show ?thesis using assms by (cases r) (simp_all add: core_event_def updatesOrNone_def)
qed

lemma core_event_handled:
  assumes "authority_ok E A" and "authority_fits E A" and "core_inv E st" and "wire_inv st" and "listeners st = [0]"
    and "revision st < 9007199254740991" and "event_ok event"
  shows "\<exists>pubs. event_handled E st pubs (core_event A E event st) \<and> wire_inv (core_event A E event st)"
proof (cases "closed st \<or> \<not> opened st")
  case True
  then have "core_event A E event st = st" by (auto simp: core_event_def)
  moreover have "event_handled E st [] st"
    by (intro event_handled_none moves_same) (simp_all add: handed_def handed_over_def)
  ultimately show ?thesis using assms(4) by auto
next
  case False
  show ?thesis
  proof (cases event)
    case (StatusEvent status)
    let ?m = "statusMessage (statusOf A status st)"
    have "version_ok (versionOf A st)" using assms(4,6) by (intro versionOf_ok [OF assms(1)]) (simp_all add: wire_inv_def)
    then have "accepted E ?m" using accepted_status assms(7) StatusEvent by blast
    moreover have "core_event A E event st = publish [?m] st"
      using False StatusEvent by (simp add: core_event_def)
    moreover have "moves st [] (publish [?m] st)" unfolding publish_kept by (intro moves_same) simp_all
    ultimately have "event_handled E st [[?m]] (core_event A E event st)" "wire_inv (core_event A E event st)"
      using event_handled_status [OF handed_one [OF assms(5)]] False assms(4) by (simp_all add: publish_kept)
    then show ?thesis by blast
  next
    case (Changed affected)
    let ?st1 = "st\<lparr> revision := revision st + 1 \<rparr>"
    obtain ms st2 where u: "updatesOrNone A E affected ?st1 = (ms, st2)" by (cases "updatesOrNone A E affected ?st1")
    note fr = updatesOrNone_frame [OF u]
    have inv: "jm_inv (subscriptions ?st1)" using assms(3) by (simp add: core_inv_def)
    have same: "subscriptions st = subscriptions ?st1" "revision st < revision ?st1" by simp_all
    obtain us where us: "list_all2 (is_update (instanceId ?st1)) us ms" "moves st us st2" "fst ` set us \<subseteq> set (jm_keys (subscriptions ?st1))"
      using updatesOrNone_moves [OF assms(2) inv u same] by blast
    have wire: "wire_inv ?st1" "revision ?st1 \<le> 9007199254740991" using assms(4,6) by (simp_all add: wire_inv_def)
    have ok: "list_all (accepted E) ms" "wire_inv st2" using updatesOrNone_ok [OF assms(1) wire u] by blast+
    have ev: "core_event A E event st = (if ms = [] then st2 else publish ms st2)"
      using False u unfolding Changed by (simp add: core_event_changed)
    have dom: "jm_get (subscriptions st) sid \<noteq> None" if "sid \<in> fst ` set us" for sid
      using subsetD [OF us(3) that] jm.keys_dom [OF inv] by auto
    show ?thesis
    proof (cases "ms = []")
      case True
      then have "us = []" using us(1) by simp
      moreover have "handed st [] st2" using fr by (simp add: handed_def handed_over_def)
      ultimately have "event_handled E st [] st2" using us(2) by (intro event_handled_none) simp_all
      then show ?thesis using True ev ok(2) by auto
    next
      case notempty: False
      have "handed st [ms] (publish ms st2)" using fr assms(5) False by (intro handed_one) simp_all
      then have "event_handled E st [ms] (publish ms st2)"
        unfolding event_handled_def publish_kept using us(1,2) ok(1) dom notempty
        by (intro conjI exI [of _ us]) simp_all
      then show ?thesis using notempty ev ok(2) by (auto simp: publish_kept)
    qed
  qed
qed

text \<open>What the host posts for one message of the page, and for one event.\<close>

theorem host_dispatch_spec:
  assumes "authority_ok E A" and "authority_fits E A" and "core_inv E st" and "wire_inv st" and "listeners st = [0]"
    and "\<not> closed st" and "revision st < 9007199254740991" and "isRecord m" and "fld m ''requestId'' = JStr rid" and "rid \<noteq> []"
    and "\<And>sid. sub_request m sid \<Longrightarrow> jm_get (subscriptions st) sid = None"
  shows "\<exists>ps ms st'. host_dispatch A E m st = (map (\<lambda>p. [openingMessage (JStr rid) p]) ps @ [ms], st') \<and> handled m st ms st' \<and>
     core_inv E st' \<and> wire_inv st' \<and> listeners st' = [0] \<and> \<not> closed st' \<and> instanceId st' = instanceId st"
proof (cases "client_message E m")
  case True
  then have dec: "decodeLibraryServiceClientMessage E m = Inr m" by (simp add: decode_client_iff)
  obtain ms st' where d: "core_dispatch A E m st = (ms, st')" by (cases "core_dispatch A E m st")
  obtain ps where ps: "handled m st ms st'" "handed st (map (\<lambda>p. [openingMessage (JStr rid) p]) ps) st'"
    "\<forall>p \<in> set ps. \<exists>x. p = Fin x \<and> 0 \<le> x \<and> x \<le> 1"
    using core_dispatch_handled [OF assms(2,3,5,6) True assms(11,9,10)] d by auto
  have acc: "list_all (accepted E) ms" "wire_inv st'"
    using core_dispatch_accepted [OF assms(1,4,7) True] d by (simp_all add: accepted_def [abs_def])
  have "text_ok rid" using True assms(9) by (simp add: client_message_def)
  then have "publishLibrary E [openingMessage (JStr rid) p] None = [[openingMessage (JStr rid) p]]" if "p \<in> set ps" for p
    using ps(3) that accepted_opening by (intro publish_accepted [THEN trans]) auto
  then have "concat (map (\<lambda>ms. publishLibrary E ms None) (map (\<lambda>p. [openingMessage (JStr rid) p]) ps)) =
      map (\<lambda>p. [openingMessage (JStr rid) p]) ps"
    by (induction ps) simp_all
  moreover have "ms \<noteq> []" using ps(1) by (auto simp: handled_def)
  ultimately have "host_dispatch A E m st = (map (\<lambda>p. [openingMessage (JStr rid) p]) ps @ [ms], st')"
    using dec d ps(2) publish_accepted [OF acc(1)] by (simp add: host_dispatch_def handed_def)
  moreover have "advances E st st'" using core_dispatch_advances [of E st A m] d by simp
  ultimately show ?thesis using ps(1,2) acc(2) assms(3,5,6) by (auto simp: advances_def handed_def)
next
  case False
  then obtain f where f: "decodeLibraryServiceClientMessage E m = Inl f"
    by (cases "decodeLibraryServiceClientMessage E m") (auto simp: decode_client_iff)
  have "requestIdOf m = Some rid" using assms(8-10) by (simp add: requestIdOf_def)
  moreover have "answers (instanceId st) m (errorReply f (Some rid) None)" using errorReply_answers [OF assms(9,10)] .
  ultimately show ?thesis
    using f assms(3-6) handled_plain [of st m "errorReply f (Some rid) None" st]
    by (intro exI [of _ "[]"] exI) (simp add: host_dispatch_def errorReply_def)
qed

theorem host_event_spec:
  assumes "authority_ok E A" and "authority_fits E A" and "core_inv E st" and "wire_inv st" and "listeners st = [0]"
    and "revision st < 9007199254740991" and "event_ok event"
  shows "\<exists>pubs st'. host_event A E event st = (pubs, st') \<and> event_handled E st pubs st' \<and> core_inv E st' \<and> wire_inv st'"
proof -
  define st' where "st' = core_event A E event st"
  obtain pubs where p: "event_handled E st pubs st'" "wire_inv st'"
    using core_event_handled [OF assms] unfolding st'_def by blast
  have over: "handed_over st st' = pubs" using p(1) by (simp add: event_handled_def handed_def)
  have "publishLibrary E ms None = [ms]" if "ms \<in> set pubs" for ms
    using p(1) that publish_accepted [of E ms None] by (auto simp: event_handled_def list_all_iff)
  then have "concat (map (\<lambda>ms. publishLibrary E ms None) pubs) = pubs" by (induction pubs) simp_all
  then have "host_event A E event st = (pubs, st')" using over by (simp add: host_event_def st'_def Let_def)
  moreover have "core_inv E st'" using core_event_advances [of E st A event] assms(3) by (simp add: st'_def advances_def)
  ultimately show ?thesis using p by blast
qed


text \<open>A subscription stays until it is unsubscribed.\<close>

definition held :: "'w core \<Rightarrow> string \<Rightarrow> bool" where
  "held st sid \<longleftrightarrow> jm_get (subscriptions st) sid \<noteq> None"

definition unsub_request :: "jsval \<Rightarrow> string \<Rightarrow> bool" where
  "unsub_request m sid \<longleftrightarrow> fld m ''type'' = JStr ''unsubscribe'' \<and> fld m ''subscriptionId'' = JStr sid"

text \<open>In a well-formed table.\<close>

definition holds :: "'w core \<Rightarrow> string \<Rightarrow> bool" where
  "holds st sid \<longleftrightarrow> jm_inv (subscriptions st) \<and> held st sid"

lemma commit_keeps:
  "jm_inv subs \<Longrightarrow> jm_get subs sid \<noteq> None \<Longrightarrow>
     jm_inv (fold commitUpdate us subs) \<and> jm_get (fold commitUpdate us subs) sid \<noteq> None"
proof (induction us arbitrary: subs)
  case (Cons u us)
  have "jm_inv (commitUpdate u subs)" using Cons.prems(1) by (rule commitUpdate_inv)
  moreover have "jm_get (commitUpdate u subs) sid \<noteq> None"
    using Cons.prems by (cases u) (auto simp: jm.get_put split: option.split)
  ultimately show ?case using Cons.IH [of "commitUpdate u subs"] by simp
qed simp

lemma updatesOrNone_keeps:
  assumes "updatesOrNone A E affected st = (ms, st')" and "holds st sid"
  shows "holds st' sid"
proof (cases "stageUpdates A E affected (subscriptions st) (world st)")
  case (Pair r w)
  then show ?thesis
    using assms commit_keeps [of "subscriptions st" sid]
    by (cases r) (auto simp: updatesOrNone_def updates_def Let_def held_def holds_def)
qed

lemma holds_frame [simp]:
  "holds (st\<lparr> world := w \<rparr>) sid = holds st sid" "holds (st\<lparr> revision := n \<rparr>) sid = holds st sid"
  "holds (st\<lparr> world := w, revision := n \<rparr>) sid = holds st sid"
  "holds (st\<lparr> operations := ops \<rparr>) sid = holds st sid" "holds (bump c st) sid = holds st sid" "holds (publish ms st) sid = holds st sid"
  by (simp_all add: holds_def held_def bump_def publish_def)

lemma core_handle_keeps:
  assumes "holds st sid" and "\<not> unsub_request m sid" and "client_message E m" and "core_handle A E m st = (res, st')"
  shows "holds st' sid"
proof -
  have c: "holds st' sid" if "core_command A E m st = (res, st')"
    using that assms(1)
    by (auto simp: core_command_def Let_def dest!: updatesOrNone_keeps [of _ _ _ _ _ _ sid] split: option.splits if_splits prod.splits sum.splits)
  have o: "holds st' sid" if "core_observe A E m st = (res, st')"
    using that assms(1)
    by (auto simp: core_observe_def Let_def dest!: updatesOrNone_keeps [of _ _ _ _ _ _ sid] split: if_splits prod.splits sum.splits)
  have t: "holds st' sid" if "core_task A E m st = (res, st')"
    using that assms(1)
    by (auto simp: core_task_def Let_def dest!: updatesOrNone_keeps [of _ _ _ _ _ _ sid] split: prod.splits sum.splits)
  have q: "holds st' sid" if "core_query A m st = (res, st')"
    using that assms(1) by (auto simp: core_query_def Let_def split: prod.splits sum.splits)
  have s: "holds st' sid" if "core_subscribe A E m st = (res, st')"
    using that assms(1)
    by (auto simp: core_subscribe_def Let_def holds_def held_def jm.get_put jm.inv_put split: prod.splits sum.splits)
  have u: "holds st' sid" if "core_unsubscribe m st = (res, st')" "fld m ''type'' = JStr ''unsubscribe''"
    using that assms(1,2) message_types(2) [OF assms(3) that(2)]
    by (auto simp: core_unsubscribe_def Let_def holds_def held_def unsub_request_def jm.get_del jm.inv_del)
  show ?thesis
    using assms(4) c o t q s u by (auto simp: core_handle_def Let_def split: if_splits)
qed

lemma core_hello_subscriptions: "subscriptions (snd (core_hello A m st)) = subscriptions st"
  by (auto simp: core_hello_def Let_def fold_publish_fields split: option.split prod.split sum.split thrown.split bool.split)

lemma host_dispatch_keeps:
  assumes "holds st sid" and "\<not> unsub_request m sid" and "host_dispatch A E m st = (posts, st')"
  shows "holds st' sid"
proof (cases "client_message E m")
  case True
  then have dec: "decodeLibraryServiceClientMessage E m = Inr m" by (simp add: decode_client_iff)
  obtain ms st1 where d: "core_dispatch A E m st = (ms, st1)" by (cases "core_dispatch A E m st")
  obtain res st2 where h: "core_handle A E m st = (res, st2)" by (cases "core_handle A E m st")
  have "holds st2 sid" using core_handle_keeps [OF assms(1,2) True h] .
  moreover have "holds (snd (core_hello A m st)) sid" using assms(1) by (simp add: holds_def held_def core_hello_subscriptions)
  ultimately have "holds st1 sid"
    using d h dec assms(1) by (cases res) (auto simp: core_dispatch_def Let_def split: if_splits)
  then show ?thesis using assms(3) dec d by (simp add: host_dispatch_def)
next
  case False
  then obtain f where "decodeLibraryServiceClientMessage E m = Inl f"
    by (cases "decodeLibraryServiceClientMessage E m") (auto simp: decode_client_iff)
  then show ?thesis using assms(1,3) by (simp add: host_dispatch_def)
qed

lemma host_event_keeps:
  assumes "holds st sid" and "host_event A E event st = (posts, st')"
  shows "holds st' sid"
proof (cases event)
  case (Changed affected)
  obtain ms st2 where u: "updatesOrNone A E affected (st\<lparr> revision := revision st + 1 \<rparr>) = (ms, st2)"
    by (cases "updatesOrNone A E affected (st\<lparr> revision := revision st + 1 \<rparr>)")
  have "holds st2 sid" using updatesOrNone_keeps [OF u, of sid] assms(1) by simp
  then have "holds (core_event A E event st) sid"
    using Changed u assms(1) core_event_changed [of st A E affected] by (cases "closed st \<or> \<not> opened st") (auto simp: core_event_def)
  then show ?thesis using assms(2) by (auto simp: host_event_def Let_def)
next
  case (StatusEvent status)
  then show ?thesis using assms by (auto simp: host_event_def Let_def core_event_def)
qed

end
