(* ===== verification/Channel.thy ===== *)
theory Channel
  imports WorkerHost
begin

text \<open>
  What holds of the page (\<^verbatim>\<open>libraryServiceClient.ts\<close>), the worker (\<^verbatim>\<open>libraryServiceWorkerHost.ts\<close> around
  \<^verbatim>\<open>libraryServiceCore.ts\<close>) and the messages between them, as three invariants: \<open>route_inv\<close> (each request is
  with exactly one side, and each reply on its way fits it), \<open>ask_inv\<close> (which subscriptions the page counts on and
  the worker holds) and \<open>view_inv\<close> (what a listener saw last or will see ends in what the worker holds). Each
  operation of either end keeps them. The messages in flight are multisets, so no order of delivery is assumed.
\<close>

definition call_ready :: "page_call \<Rightarrow> page_client \<Rightarrow> bool" where
  "call_ready call c = (case call of Hello _ _ _ _ \<Rightarrow> True | _ \<Rightarrow> pg_instance c \<noteq> None)"

section \<open>The invariant\<close>

definition no_repeats :: "'a multiset \<Rightarrow> bool" where
  "no_repeats X \<longleftrightarrow> (\<forall>x. count X x \<le> 1)"

definition issued :: "page_client \<Rightarrow> string set" where
  "issued c = set (issued_ids (pg_clientId c) (pg_nextRequest c))"

definition issued_sids :: "page_client \<Rightarrow> string set" where
  "issued_sids c = subscription_at ` {1..pg_nextSubscription c}"

definition req_of :: "page_client \<Rightarrow> string \<Rightarrow> jsval option" where
  "req_of c rid = map_option q_request (jm_get (pg_pending c) rid)"

definition requests :: "page_client \<Rightarrow> jsval list" where
  "requests c = map (q_request \<circ> snd) (pg_pending c) @ map (fst \<circ> snd) (pg_settled c)"

definition sub_sid :: "jsval \<Rightarrow> string" where
  "sub_sid m = strOf (fld m ''subscriptionId'')"

definition ask_of :: "jsval \<Rightarrow> string multiset" where
  "ask_of m = (if fld m ''type'' = JStr ''subscribe'' then {#sub_sid m#} else {#})"

text \<open>The subscriptions being asked for, and those the caller holds.\<close>

definition asks :: "page_client \<Rightarrow> string multiset" where
  "asks c = \<Sum>\<^sub># (image_mset ask_of (mset (requests c)))"

definition wanted :: "page_client \<Rightarrow> string multiset" where
  "wanted c = asks c + mset (pg_handed c)"

text \<open>A message whose request the page still waits for, or an opening that timed out.\<close>

definition routed :: "page_client \<Rightarrow> jsval \<Rightarrow> bool" where
  "routed c m \<longleftrightarrow> (\<exists>rid. fld m ''requestId'' = JStr rid \<and> rid \<in> issued c \<and>
     (req_of c rid = Some m \<or> req_of c rid = None \<and> fld m ''type'' = JStr ''hello''))"

definition well_sent :: "jsval \<Rightarrow> bool" where
  "well_sent m \<longleftrightarrow> isRecord m \<and>
     (fld m ''type'' = JStr ''subscribe'' \<or> fld m ''type'' = JStr ''unsubscribe'' \<longrightarrow> fld m ''subscriptionId'' = JStr (sub_sid m))"

definition wire_ids :: "jsval multiset \<Rightarrow> jsval multiset \<Rightarrow> jsval multiset" where
  "wire_ids U M = image_mset (\<lambda>m. fld m ''requestId'') U + image_mset (\<lambda>r. fld r ''requestId'') (filter_mset settling M)"

definition route_inv :: "string \<Rightarrow> page_client \<Rightarrow> jsval multiset \<Rightarrow> jsval multiset \<Rightarrow> bool" where
  "route_inv inst c U M \<longleftrightarrow>
     no_repeats (wire_ids U M) \<and>
     (\<forall>m. m \<in># U \<longrightarrow> well_sent m \<and> routed c m) \<and>
     (\<forall>r. r \<in># M \<longrightarrow> settling r \<longrightarrow> (\<exists>m. answers inst m r \<and> routed c m)) \<and>
     (\<forall>rid m. req_of c rid = Some m \<longrightarrow> m \<in># U \<or> (\<exists>r. r \<in># M \<and> answers inst m r)) \<and>
     (\<forall>rid m r. (rid, m, Inr r) \<in> set (pg_settled c) \<longrightarrow> answers inst m r \<and> fld r ''type'' \<noteq> JStr ''error'')"

definition ask_inv :: "page_client \<Rightarrow> jsval multiset \<Rightarrow> jsval multiset \<Rightarrow> 'w core \<Rightarrow> bool" where
  "ask_inv c U M st \<longleftrightarrow>
     no_repeats (wanted c) \<and>
     (\<forall>sid. sid \<in># wanted c \<longrightarrow> sid \<in> issued_sids c \<and> jm_get (pg_subscriptions c) sid \<noteq> None) \<and>
     (\<forall>m. m \<in># U \<longrightarrow> fld m ''type'' = JStr ''unsubscribe'' \<longrightarrow> sub_sid m \<in> issued_sids c \<and> sub_sid m \<notin># wanted c) \<and>
     (\<forall>sid. sid \<in> set (pg_handed c) \<longrightarrow> held st sid) \<and>
     (\<forall>r. r \<in># M \<longrightarrow> fld r ''type'' = JStr ''subscribed'' \<longrightarrow> held st (sub_sid r)) \<and>
     (\<forall>rid m r. (rid, m, Inr r) \<in> set (pg_settled c) \<longrightarrow> fld m ''type'' = JStr ''subscribe'' \<longrightarrow> held st (sub_sid m))"

text \<open>What a listener has seen last or may still see, with the revisions, and the value at the highest one.\<close>

definition seen :: "client_subscription \<Rightarrow> jsval multiset \<Rightarrow> string \<Rightarrow> (nat \<times> jsval) set" where
  "seen u M sid = {(r, x). \<exists>v. v_revision v = r \<and>
     (updateMessage sid v x \<in># M \<or> u_shown u \<noteq> [] \<and> last (u_shown u) = (x, enc_version v))}"

definition best :: "(nat \<times> jsval) set \<Rightarrow> jsval \<Rightarrow> bool" where
  "best S x \<longleftrightarrow> (\<exists>r. (r, x) \<in> S \<and> (\<forall>r' x'. (r', x') \<in> S \<longrightarrow> r' < r \<or> r' = r \<and> x' = x))"

definition flown :: "page_client \<Rightarrow> 'w core \<Rightarrow> jsval \<Rightarrow> bool" where
  "flown c st m \<longleftrightarrow> (\<exists>sid v x. m = updateMessage sid v x \<and> v_instance v = instanceId st \<and> v_revision v \<le> revision st \<and>
     sid \<in> issued_sids c \<and> (\<forall>u. jm_get (pg_subscriptions c) sid = Some u \<longrightarrow> selectionMatches (u_selection u) x))"

definition version_of_core :: "'w core \<Rightarrow> jsval \<Rightarrow> bool" where
  "version_of_core st w \<longleftrightarrow> (\<exists>v. w = enc_version v \<and> v_instance v = instanceId st \<and> v_revision v \<le> revision st)"

definition view_inv :: "page_client \<Rightarrow> jsval multiset \<Rightarrow> jsval multiset \<Rightarrow> 'w core \<Rightarrow> bool" where
  "view_inv c U M st \<longleftrightarrow>
     (\<forall>sid. held st sid \<longrightarrow> sid \<in> issued_sids c) \<and>
     (\<forall>m. m \<in># M \<longrightarrow> settling m \<or> fld m ''type'' = JStr ''status'' \<or> fld m ''type'' = JStr ''opening'' \<or> flown c st m) \<and>
     (\<forall>sid u. jm_get (pg_subscriptions c) sid = Some u \<longrightarrow> pg_instance c = Some (JStr (instanceId st)) \<and>
        (\<forall>w. u_version u = Some w \<longrightarrow> version_of_core st w)) \<and>
     (\<forall>m sid. m \<in># U \<longrightarrow> sub_request m sid \<longrightarrow> \<not> held st sid \<and> (\<forall>v x. updateMessage sid v x \<notin># M) \<and>
        (\<forall>u. jm_get (pg_subscriptions c) sid = Some u \<longrightarrow> u_selection u = fld m ''selection'' \<and> u_shown u = [])) \<and>
     (\<forall>sid u s. jm_get (pg_subscriptions c) sid = Some u \<longrightarrow> jm_get (subscriptions st) sid = Some s \<longrightarrow>
        u_selection u = s_selection s \<and> best (seen u M sid) (s_value s))"

definition core_ok :: "js_env \<Rightarrow> 'w core \<Rightarrow> bool" where
  "core_ok E st \<longleftrightarrow> core_inv E st \<and> wire_inv st \<and> listeners st = [0] \<and> \<not> closed st"

definition open_inv :: "js_env \<Rightarrow> page_client \<Rightarrow> jsval multiset \<Rightarrow> jsval multiset \<Rightarrow> 'w core \<Rightarrow> bool" where
  "open_inv E c U M st \<longleftrightarrow> core_ok E st \<and> ids_ok c \<and> subs_ok c \<and> (pg_instance c = None \<or> pg_instance c = Some (JStr (instanceId st))) \<and>
     route_inv (instanceId st) c U M \<and> ask_inv c U M st \<and> view_inv c U M st"


subsection \<open>Facts about the parts\<close>

lemma no_repeats_mono: "no_repeats Y \<Longrightarrow> X \<subseteq># Y \<Longrightarrow> no_repeats X"
  unfolding no_repeats_def by (meson mset_subset_eq_count order_trans)

lemma no_repeats_add: "no_repeats (add_mset a X) \<longleftrightarrow> a \<notin># X \<and> no_repeats X"
proof
  assume l: "no_repeats (add_mset a X)"
  then have "count X a = 0" by (auto simp: no_repeats_def dest: spec [of _ a])
  moreover have "count X x \<le> 1" for x using spec [OF l [unfolded no_repeats_def], of x] by (simp split: if_splits)
  ultimately show "a \<notin># X \<and> no_repeats X" by (simp add: no_repeats_def not_in_iff)
qed (auto simp: no_repeats_def not_in_iff)

lemma jm_get_mem: "jm_get m k = Some v \<Longrightarrow> (k, v) \<in> set m"
  by (simp add: jm_get_def map_of_SomeD)

lemma jm_delete_mset: "jm_inv m \<Longrightarrow> jm_get m k = Some v \<Longrightarrow> mset m = add_mset (k, v) (mset (jm_delete k m))"
proof (induction m)
  case (Cons p m)
  have inv: "jm_inv m" "fst p \<notin> fst ` set m" using Cons.prems(1) by (simp_all add: jm_inv_def)
  show ?case
  proof (cases "fst p = k")
    case True
    then have "p = (k, v)" using Cons.prems(2) by (cases p) (simp add: jm_get_def)
    moreover have "AList.delete k m = m" using inv(2) True by (auto simp: AList.delete_eq filter_id_conv split_def)
    ultimately show ?thesis by (simp add: jm_delete_def)
  next
    case False
    then have "jm_get m k = Some v" using Cons.prems(2) by (cases p) (simp add: jm_get_def)
    then show ?thesis using Cons.IH [OF inv(1)] False by (cases p) (simp add: jm_delete_def)
  qed
qed (simp add: jm_get_def)

lemma requests_settle: "ids_ok c \<Longrightarrow> mset (requests (settle rid o' c)) = mset (requests c)"
proof (cases "jm_get (pg_pending c) rid")
  case (Some p)
  assume "ids_ok c"
  then have "mset (pg_pending c) = add_mset (rid, p) ( mset (jm_delete rid (pg_pending c)))"
    using Some by (intro jm_delete_mset) (simp_all add: ids_ok_def)
  then show ?thesis using Some by (simp add: requests_def settle_def)
qed (simp add: settle_def)

lemma req_of_settle: "ids_ok c \<Longrightarrow> req_of (settle rid o' c) = (req_of c)(rid := None)"
proof -
  assume "ids_ok c"
  then have "jm_inv (pg_pending c)" by (simp add: ids_ok_def)
  then show ?thesis
    by (cases "jm_get (pg_pending c) rid") (auto simp: fun_eq_iff req_of_def settle_def jm.get_del)
qed

lemma req_of_id: "ids_ok c \<Longrightarrow> req_of c rid = Some m \<Longrightarrow> fld m ''requestId'' = JStr rid"
  by (auto simp: req_of_def ids_ok_def)

lemma req_of_requests: "ids_ok c \<Longrightarrow> req_of c rid = Some m \<Longrightarrow> m \<in># mset (requests c)"
  by (force simp: req_of_def requests_def dest: jm_get_mem)

lemma asks_request: "m \<in># mset (requests c) \<Longrightarrow> fld m ''type'' = JStr ''subscribe'' \<Longrightarrow> sub_sid m \<in># wanted c"
proof -
  assume m: "m \<in># mset (requests c)" and t: "fld m ''type'' = JStr ''subscribe''"
  obtain X where "mset (requests c) = add_mset m X" using m by (meson mset_add)
  then show ?thesis using t by (simp add: wanted_def asks_def ask_of_def)
qed

lemma issued_settle [simp]:
  "issued (settle rid o' c) = issued c" "issued_sids (settle rid o' c) = issued_sids c"
  by (simp_all add: issued_def issued_sids_def)

lemma wanted_settle: "ids_ok c \<Longrightarrow> wanted (settle rid o' c) = wanted c"
  by (simp add: wanted_def asks_def requests_settle)

lemma routed_settle:
  assumes "ids_ok c" and "routed c m" and "fld m ''requestId'' = JStr rid \<Longrightarrow> req_of c rid \<noteq> None \<Longrightarrow> fld m ''type'' = JStr ''hello''"
  shows "routed (settle rid o' c) m"
proof -
  obtain rid' where r: "fld m ''requestId'' = JStr rid'" "rid' \<in> issued c"
    "req_of c rid' = Some m \<or> req_of c rid' = None \<and> fld m ''type'' = JStr ''hello''"
    using assms(2) unfolding routed_def by blast
  have "req_of (settle rid o' c) rid' = Some m \<or> req_of (settle rid o' c) rid' = None \<and> fld m ''type'' = JStr ''hello''"
  proof (cases "rid' = rid")
    case True
    then show ?thesis using r assms(3) by (auto simp: req_of_settle [OF assms(1)])
  qed (use r in \<open>simp add: req_of_settle [OF assms(1)]\<close>)
  then show ?thesis unfolding routed_def issued_settle using r(1,2) by blast
qed

lemma updateMessage_inj [simp]:
  "updateMessage s v x = updateMessage s' v' x' \<longleftrightarrow> s = s' \<and> enc_version v = enc_version v' \<and> x = x'"
  by (simp add: updateMessage_def)

lemma enc_version_revision: "enc_version v = enc_version v' \<Longrightarrow> v_revision v = v_revision v'"
  by (simp add: enc_version_def)

lemma update_fields [simp]:
  "fld (updateMessage s v x) ''requestId'' = JUndef" "\<not> settling (updateMessage s v x)" "fld (updateMessage s v x) ''type'' = JStr ''update''"
  by (simp_all add: updateMessage_def settling_def)

lemma answers_settling: "answers inst m r \<Longrightarrow> settling r \<and> fld r ''requestId'' = fld m ''requestId''"
  by (simp add: answers_def)

lemma route_invD:
  assumes "route_inv inst c U M"
  shows "no_repeats (wire_ids U M)" and "m \<in># U \<Longrightarrow> well_sent m" and "m \<in># U \<Longrightarrow> routed c m"
    and "r \<in># M \<Longrightarrow> settling r \<Longrightarrow> \<exists>m. answers inst m r \<and> routed c m"
    and "req_of c rid = Some m \<Longrightarrow> m \<in># U \<or> (\<exists>r. r \<in># M \<and> answers inst m r)"
    and "(rid, m, Inr r) \<in> set (pg_settled c) \<Longrightarrow> answers inst m r"
    and "(rid, m, Inr r) \<in> set (pg_settled c) \<Longrightarrow> fld r ''type'' \<noteq> JStr ''error''"
  using assms unfolding route_inv_def by blast+

lemma ask_invD:
  assumes "ask_inv c U M st"
  shows "no_repeats (wanted c)" and "sid \<in># wanted c \<Longrightarrow> sid \<in> issued_sids c"
    and "sid \<in># wanted c \<Longrightarrow> jm_get (pg_subscriptions c) sid \<noteq> None"
    and "m \<in># U \<Longrightarrow> fld m ''type'' = JStr ''unsubscribe'' \<Longrightarrow> sub_sid m \<in> issued_sids c"
    and "m \<in># U \<Longrightarrow> fld m ''type'' = JStr ''unsubscribe'' \<Longrightarrow> sub_sid m \<notin># wanted c"
    and "sid \<in> set (pg_handed c) \<Longrightarrow> held st sid"
    and "r \<in># M \<Longrightarrow> fld r ''type'' = JStr ''subscribed'' \<Longrightarrow> held st (sub_sid r)"
    and "(rid, m, Inr r) \<in> set (pg_settled c) \<Longrightarrow> fld m ''type'' = JStr ''subscribe'' \<Longrightarrow> held st (sub_sid m)"
  using assms unfolding ask_inv_def by blast+

lemma view_invD:
  assumes "view_inv c U M st"
  shows "held st sid \<Longrightarrow> sid \<in> issued_sids c"
    and "m \<in># M \<Longrightarrow> settling m \<or> fld m ''type'' = JStr ''status'' \<or> fld m ''type'' = JStr ''opening'' \<or> flown c st m"
    and "jm_get (pg_subscriptions c) sid = Some u \<Longrightarrow> pg_instance c = Some (JStr (instanceId st))"
    and "jm_get (pg_subscriptions c) sid = Some u \<Longrightarrow> u_version u = Some w \<Longrightarrow> version_of_core st w"
    and "m \<in># U \<Longrightarrow> sub_request m sid \<Longrightarrow> \<not> held st sid"
    and "m \<in># U \<Longrightarrow> sub_request m sid \<Longrightarrow> updateMessage sid v x \<notin># M"
    and "m \<in># U \<Longrightarrow> sub_request m sid \<Longrightarrow> jm_get (pg_subscriptions c) sid = Some u \<Longrightarrow> u_selection u = fld m ''selection''"
    and "m \<in># U \<Longrightarrow> sub_request m sid \<Longrightarrow> jm_get (pg_subscriptions c) sid = Some u \<Longrightarrow> u_shown u = []"
    and "jm_get (pg_subscriptions c) sid = Some u \<Longrightarrow> jm_get (subscriptions st) sid = Some s \<Longrightarrow> u_selection u = s_selection s"
    and "jm_get (pg_subscriptions c) sid = Some u \<Longrightarrow> jm_get (subscriptions st) sid = Some s \<Longrightarrow> best (seen u M sid) (s_value s)"
  using assms unfolding view_inv_def by blast+

subsection \<open>A request is settled\<close>

text \<open>What leaves the channel and the page together: the request \<open>rid\<close>, with every message that carries its id.\<close>

definition shrinks :: "string \<Rightarrow> jsval multiset \<Rightarrow> jsval multiset \<Rightarrow> bool" where
  "shrinks rid X Y \<longleftrightarrow> Y \<subseteq># X \<and> (\<forall>m. m \<in># X \<longrightarrow> fld m ''requestId'' \<noteq> JStr rid \<longrightarrow> m \<in># Y)"

definition loose :: "page_client \<Rightarrow> string \<Rightarrow> jsval multiset \<Rightarrow> jsval multiset \<Rightarrow> bool" where
  "loose c rid U M \<longleftrightarrow> (\<forall>q. req_of c rid = Some q \<longrightarrow> fld q ''type'' = JStr ''hello'' \<or> JStr rid \<notin># wire_ids U M)"

lemma shrinks_refl [simp]: "shrinks rid X X"
  by (simp add: shrinks_def)

lemma shrinks_mem: "shrinks rid X Y \<Longrightarrow> m \<in># Y \<Longrightarrow> m \<in># X"
  by (auto simp: shrinks_def dest: mset_subset_eqD)

lemma wire_ids_mono: "U \<subseteq># U' \<Longrightarrow> M \<subseteq># M' \<Longrightarrow> wire_ids U M \<subseteq># wire_ids U' M'"
  unfolding wire_ids_def by (intro subset_mset.add_mono image_mset_subseteq_mono multiset_filter_mono) simp_all

lemma settle_routed:
  assumes "ids_ok c" and "loose c rid U M" and "routed c m" and "m \<in># U \<or> (r \<in># M \<and> settling r \<and> fld r ''requestId'' = fld m ''requestId'')"
  shows "routed (settle rid o' c) m"
proof (rule routed_settle [OF assms(1,3)])
  assume id: "fld m ''requestId'' = JStr rid" and req: "req_of c rid \<noteq> None"
  then have "req_of c rid = Some m" using assms(3) by (auto simp: routed_def)
  moreover have "JStr rid \<in># wire_ids U M" using id assms(4) by (auto simp: wire_ids_def intro!: image_eqI)
  ultimately show "fld m ''type'' = JStr ''hello''" using assms(2) by (auto simp: loose_def)
qed

lemma settle_route:
  assumes "ids_ok c" and "route_inv inst c U0 M0" and "shrinks rid U0 U" and "shrinks rid M0 M" and "loose c rid U M"
    and "\<And>q r. req_of c rid = Some q \<Longrightarrow> o' = Inr r \<Longrightarrow> answers inst q r \<and> fld r ''type'' \<noteq> JStr ''error''"
  shows "route_inv inst (settle rid o' c) U M"
  unfolding route_inv_def
proof (intro conjI allI impI)
  have sub: "U \<subseteq># U0" "M \<subseteq># M0" using assms(3,4) by (simp_all add: shrinks_def)
  show "no_repeats (wire_ids U M)" using assms(2) no_repeats_mono wire_ids_mono [OF sub] by (auto simp: route_inv_def)
  show "well_sent m" if "m \<in># U" for m using shrinks_mem [OF assms(3) that] by (rule route_invD(2) [OF assms(2)])
  show "routed (settle rid o' c) m" if "m \<in># U" for m
    using settle_routed [OF assms(1,5) route_invD(3) [OF assms(2) shrinks_mem [OF assms(3) that]]] that by blast
  show "\<exists>m. answers inst m r \<and> routed (settle rid o' c) m" if r: "r \<in># M" "settling r" for r
  proof -
    obtain m where m: "answers inst m r" "routed c m" using route_invD(4) [OF assms(2) shrinks_mem [OF assms(4) r(1)] r(2)] by blast
    then show ?thesis using settle_routed [OF assms(1,5) m(2), of r] r answers_settling [OF m(1)] by blast
  qed
  show "m \<in># U \<or> (\<exists>r. r \<in># M \<and> answers inst m r)" if "req_of (settle rid o' c) rid' = Some m" for rid' m
  proof -
    have q: "rid' \<noteq> rid" "req_of c rid' = Some m" using that by (auto simp: req_of_settle [OF assms(1)] split: if_splits)
    then have id: "fld m ''requestId'' \<noteq> JStr rid" using req_of_id [OF assms(1) q(2)] by simp
    from route_invD(5) [OF assms(2) q(2)] consider "m \<in># U0" | r where "r \<in># M0" "answers inst m r" by blast
    then show ?thesis
    proof cases
      case 1
      then show ?thesis using id assms(3) by (auto simp: shrinks_def)
    next
      case 2
      then have "r \<in># M" using id assms(4) answers_settling [OF 2(2)] by (auto simp: shrinks_def)
      then show ?thesis using 2(2) by blast
    qed
  qed
  have settled: "(rid', m, Inr r) \<in> set (pg_settled c) \<or> (rid' = rid \<and> req_of c rid = Some m \<and> o' = Inr r)"
    if "(rid', m, Inr r) \<in> set (pg_settled (settle rid o' c))" for rid' m r
    using that by (auto simp: settle_def req_of_def split: option.splits)
  show "answers inst m r" "fld r ''type'' \<noteq> JStr ''error''" if "(rid', m, Inr r) \<in> set (pg_settled (settle rid o' c))" for rid' m r
    using settled [OF that] route_invD(6,7) [OF assms(2)] assms(6) by blast+
qed

lemma settled_cases:
  assumes "(rid', m, Inr r) \<in> set (pg_settled (settle rid o' c))"
  obtains "(rid', m, Inr r) \<in> set (pg_settled c)" | "rid' = rid" "req_of c rid = Some m" "o' = Inr r"
  using assms by (auto simp: settle_def req_of_def split: option.splits)

lemma settle_ask:
  assumes "ids_ok c" and "ask_inv c U0 M0 st" and "shrinks rid U0 U" and "shrinks rid M0 M"
    and "\<And>q r. req_of c rid = Some q \<Longrightarrow> o' = Inr r \<Longrightarrow> fld q ''type'' = JStr ''subscribe'' \<Longrightarrow> held st (sub_sid q)"
  shows "ask_inv (settle rid o' c) U M st"
  unfolding ask_inv_def wanted_settle [OF assms(1)] issued_settle settle_frame
proof (intro conjI allI impI)
  note D = ask_invD [OF assms(2)]
  show "no_repeats (wanted c)" by (rule D(1))
  show "sid \<in> issued_sids c" "jm_get (pg_subscriptions c) sid \<noteq> None" if "sid \<in># wanted c" for sid
    using D(2,3) [OF that] .
  show "sub_sid m \<in> issued_sids c" "sub_sid m \<notin># wanted c" if "m \<in># U" "fld m ''type'' = JStr ''unsubscribe''" for m
    using D(4,5) [OF shrinks_mem [OF assms(3) that(1)] that(2)] .
  show "held st sid" if "sid \<in> set (pg_handed c)" for sid using D(6) [OF that] .
  show "held st (sub_sid r)" if "r \<in># M" "fld r ''type'' = JStr ''subscribed''" for r
    using D(7) [OF shrinks_mem [OF assms(4) that(1)] that(2)] .
  show "held st (sub_sid m)" if "(rid', m, Inr r) \<in> set (pg_settled (settle rid o' c))" "fld m ''type'' = JStr ''subscribe''" for rid' m r
    using that(1)
  proof (cases rule: settled_cases)
    case 1
    then show ?thesis using D(8) that(2) by blast
  next
    case 2
    then show ?thesis using assms(5) that(2) by blast
  qed
qed

lemma settle_view:
  assumes "view_inv c U0 M0 st" and "shrinks rid U0 U" and "shrinks rid M0 M"
  shows "view_inv (settle rid o' c) U M st"
proof -
  have same: "updateMessage sid v x \<in># M \<longleftrightarrow> updateMessage sid v x \<in># M0" for sid v x
    using shrinks_mem [OF assms(3)] assms(3) by (auto simp: shrinks_def)
  then have "seen u M sid = seen u M0 sid" for u sid by (simp add: seen_def)
  moreover have "flown (settle rid o' c) st m = flown c st m" for m by (simp add: flown_def)
  ultimately have eq: "seen u M sid = seen u M0 sid" "flown (settle rid o' c) st m = flown c st m" for u sid m by blast+
  note D = view_invD [OF assms(1)]
  note up = shrinks_mem [OF assms(2)]
  show ?thesis
    unfolding view_inv_def issued_settle settle_frame same eq
  proof (intro conjI allI impI)
    show "settling m \<or> fld m ''type'' = JStr ''status'' \<or> fld m ''type'' = JStr ''opening'' \<or> flown c st m" if "m \<in># M" for m
      using D(2) [OF shrinks_mem [OF assms(3) that]] .
    show "\<not> held st sid" "updateMessage sid v x \<notin># M0" if "m \<in># U" "sub_request m sid" for m sid v x
      using D(5,6) [OF up [OF that(1)] that(2)] .
    show "u_selection u = fld m ''selection''" "u_shown u = []"
      if "m \<in># U" "sub_request m sid" "jm_get (pg_subscriptions c) sid = Some u" for m sid u
      using D(7,8) [OF up [OF that(1)] that(2,3)] .
  qed (rule D; assumption)+
qed

lemma settle_open:
  assumes "open_inv E c U0 M0 st" and "shrinks rid U0 U" and "shrinks rid M0 M" and "loose c rid U M"
    and "\<And>q r. req_of c rid = Some q \<Longrightarrow> o' = Inr r \<Longrightarrow> answers (instanceId st) q r \<and> fld r ''type'' \<noteq> JStr ''error''"
    and "\<And>q r. req_of c rid = Some q \<Longrightarrow> o' = Inr r \<Longrightarrow> fld q ''type'' = JStr ''subscribe'' \<Longrightarrow> held st (sub_sid q)"
  shows "open_inv E (settle rid o' c) U M st"
proof -
  have ids: "ids_ok c" and r: "route_inv (instanceId st) c U0 M0" and a: "ask_inv c U0 M0 st" and v: "view_inv c U0 M0 st"
    using assms(1) by (simp_all add: open_inv_def)
  have "route_inv (instanceId st) (settle rid o' c) U M" using assms(5) by (intro settle_route [OF ids r assms(2-4)])
  moreover have "ask_inv (settle rid o' c) U M st" using assms(6) by (intro settle_ask [OF ids a assms(2,3)])
  moreover have "view_inv (settle rid o' c) U M st" using settle_view [OF v assms(2,3)] .
  ultimately show ?thesis using assms(1) by (simp add: open_inv_def settle_ids settle_subs)
qed

subsection \<open>The page receives a message\<close>

lemma open_frame:
  assumes "open_inv E c U M st" and "ids_ok c'" and "req_of c' = req_of c" and "requests c' = requests c" and "pg_settled c' = pg_settled c"
    and "pg_subscriptions c' = pg_subscriptions c" and "pg_nextRequest c' = pg_nextRequest c"
    and "pg_nextSubscription c' = pg_nextSubscription c" and "pg_clientId c' = pg_clientId c" and "pg_instance c' = pg_instance c"
    and "pg_handed c' = pg_handed c"
  shows "open_inv E c' U M st"
proof -
  have i: "issued c' = issued c" "issued_sids c' = issued_sids c" "wanted c' = wanted c" "subs_ok c' = subs_ok c"
    using assms(4-11) by (simp_all add: issued_def issued_sids_def wanted_def asks_def subs_ok_def)
  have r: "routed c' m = routed c m" "flown c' st m = flown c st m" for m
    using assms(3,6) i by (simp_all add: routed_def flown_def)
  have "route_inv (instanceId st) c' U M = route_inv (instanceId st) c U M" unfolding route_inv_def assms(3,5) r ..
  moreover have "ask_inv c' U M st = ask_inv c U M st" unfolding ask_inv_def assms(5,6,11) i ..
  moreover have "view_inv c' U M st = view_inv c U M st" unfolding view_inv_def assms(6,10) i r ..
  ultimately show ?thesis using assms(1,2,10) i(4) by (simp add: open_inv_def)
qed

lemma drop_message:
  assumes "open_inv E c U (add_mset m M) st" and "\<not> settling m"
    and "\<And>sid u y. jm_get (pg_subscriptions c) sid = Some u \<Longrightarrow> best (seen u (add_mset m M) sid) y \<Longrightarrow> best (seen u M sid) y"
  shows "open_inv E c U M st"
proof -
  have w: "wire_ids U (add_mset m M) = wire_ids U M" using assms(2) by (simp add: wire_ids_def)
  have "route_inv (instanceId st) c U (add_mset m M)" "ask_inv c U (add_mset m M) st" "view_inv c U (add_mset m M) st"
    using assms(1) by (simp_all add: open_inv_def)
  note R = route_invD [OF this(1)] and A = ask_invD [OF this(2)] and V = view_invD [OF this(3)]
  have in_add: "x \<in># M \<Longrightarrow> x \<in># add_mset m M" for x by simp
  have "route_inv (instanceId st) c U M"
    unfolding route_inv_def
  proof (intro conjI allI impI)
    show "no_repeats (wire_ids U M)" using R(1) w by simp
    show "m' \<in># U \<or> (\<exists>r. r \<in># M \<and> answers (instanceId st) m' r)" if "req_of c rid = Some m'" for rid m'
      using R(5) [OF that] assms(2) answers_settling by auto
    show "\<exists>q. answers (instanceId st) q r \<and> routed c q" if "r \<in># M" "settling r" for r using R(4) [OF in_add [OF that(1)] that(2)] .
  qed (rule R; assumption)+
  moreover have "ask_inv c U M st"
    unfolding ask_inv_def
  proof (intro conjI allI impI)
    show "no_repeats (wanted c)" by (rule A(1))
    show "held st (sub_sid r)" if "r \<in># M" "fld r ''type'' = JStr ''subscribed''" for r using A(7) [OF in_add [OF that(1)] that(2)] .
  qed (rule A; assumption)+
  moreover have "view_inv c U M st"
    unfolding view_inv_def
  proof (intro conjI allI impI)
    show "settling x \<or> fld x ''type'' = JStr ''status'' \<or> fld x ''type'' = JStr ''opening'' \<or> flown c st x" if "x \<in># M" for x
      using V(2) [OF in_add [OF that]] .
    show "updateMessage sid v x \<notin># M" if "q \<in># U" "sub_request q sid" for q sid v x using V(6) [OF that, of v x] by simp
    show "best (seen u M sid) (s_value s)"
      if "jm_get (pg_subscriptions c) sid = Some u" "jm_get (subscriptions st) sid = Some s" for sid u s
      using assms(3) [OF that(1) V(10) [OF that]] .
  qed (rule V; assumption)+
  ultimately show ?thesis using assms(1) by (simp add: open_inv_def)
qed

lemma drop_open:
  assumes "open_inv E c U (add_mset m M) st" and "\<not> settling m" and "fld m ''type'' \<noteq> JStr ''update''"
  shows "open_inv E c U M st"
proof (rule drop_message [OF assms(1,2)])
  have ne: "m \<noteq> updateMessage sid v x" for sid v x using assms(3) by auto
  then have "seen u (add_mset m M) sid = seen u M sid" for u sid using not_sym [OF ne] by (simp add: seen_def)
  then show "best (seen u M sid) y" if "best (seen u (add_mset m M) sid) y" for sid u y using that by simp
qed

lemma replyMatches_any:
  "replyMatches m r (Some i) \<Longrightarrow> replyMatches m r None"
  by (auto simp: replyMatches_def Let_def split: if_splits)

lemma replyMatches_subscribe:
  "replyMatches m r i \<Longrightarrow> fld m ''type'' = JStr ''subscribe'' \<Longrightarrow> fld r ''type'' = JStr ''subscribed'' \<and> sub_sid r = sub_sid m"
  by (auto simp: replyMatches_def Let_def sub_sid_def split: if_splits)

lemma issued_nonempty: "rid \<in> issued c \<Longrightarrow> rid \<noteq> []"
  by (auto simp: issued_def issued_ids_def requestId_at_def)

lemma receive_reply:
  assumes "open_inv E c U (add_mset r M) st" and "settling r" and "\<not> pg_closed c"
  shows "open_inv E (page_receive r c) U M st"
proof -
  have ids: "ids_ok c" and R: "route_inv (instanceId st) c U (add_mset r M)" and A: "ask_inv c U (add_mset r M) st"
    and inst: "pg_instance c = None \<or> pg_instance c = Some (JStr (instanceId st))"
    using assms(1) by (simp_all add: open_inv_def)
  obtain m where m: "answers (instanceId st) m r" "routed c m" using route_invD(4) [OF R _ assms(2)] by auto
  then obtain rid where rid: "fld m ''requestId'' = JStr rid" "rid \<in> issued c" "req_of c rid = Some m \<or> req_of c rid = None"
    by (auto simp: routed_def)
  have id: "fld r ''requestId'' = JStr rid" using answers_settling [OF m(1)] rid(1) by simp
  have "wire_ids U (add_mset r M) = add_mset (JStr rid) (wire_ids U M)" using assms(2) id by (simp add: wire_ids_def)
  then have "JStr rid \<notin># wire_ids U M" using route_invD(1) [OF R] by (simp add: no_repeats_add)
  then have loose: "loose c rid U M" by (simp add: loose_def)
  have shrink: "shrinks rid (add_mset r M) M" using id by (auto simp: shrinks_def)
  have ty: "fld r ''type'' \<noteq> JStr ''update''" "fld r ''type'' \<noteq> JStr ''status''" "fld r ''type'' \<noteq> JStr ''opening''"
    "''requestId'' \<in> set (keysOf r)" using assms(2) by (simp_all add: settling_def)
  have tr: "truthy (fld r ''requestId'')" using id issued_nonempty [OF rid(2)] by simp
  show ?thesis
  proof (cases "fld r ''type'' = JStr ''error''")
    case True
    have "open_inv E (settle rid (Inl e) c) U M st" for e
      by (rule settle_open [OF assms(1) shrinks_refl shrink loose]) simp_all
    then show ?thesis using True tr id assms(3) by (simp add: page_receive_def Let_def)
  next
    case False
    have held: "held st (sub_sid m)" if "fld m ''type'' = JStr ''subscribe''"
    proof -
      have "replyMatches m r (Some (JStr (instanceId st)))" using m(1) False by (simp add: answers_def)
      from replyMatches_subscribe [OF this that] show ?thesis using ask_invD(7) [OF A, of r] by simp
    qed
    have ok: "open_inv E (settle rid (Inr r) c) U M st"
      using m(1) rid(3) held False by (intro settle_open [OF assms(1) shrinks_refl shrink loose]) auto
    show ?thesis
    proof (cases "jm_get (pg_pending c) rid")
      case None
      then show ?thesis using ok ty id assms(3) False by (simp add: page_receive_def Let_def settle_def)
    next
      case (Some p)
      then have p: "q_request p = m" using rid(3) by (simp add: req_of_def)
      have "replyMatches m r (Some (JStr (instanceId st)))" using m(1) False by (simp add: answers_def)
      then have "replyMatches m r (pg_instance c)" using inst replyMatches_any by auto
      then show ?thesis using ok ty id assms(3) False Some p by (simp add: page_receive_def Let_def)
    qed
  qed
qed

subsection \<open>The page receives an update\<close>

lemma best_drop:
  assumes "best (insert (r0, x0) S) y" and "(r1, x1) \<in> S" and "r0 \<le> r1"
  shows "best S y"
proof -
  obtain r where r: "(r, y) \<in> insert (r0, x0) S" "\<And>r' x'. (r', x') \<in> insert (r0, x0) S \<Longrightarrow> r' < r \<or> r' = r \<and> x' = y"
    using assms(1) unfolding best_def by blast
  have "(r, y) \<in> S"
  proof (cases "(r, y) = (r0, x0)")
    case True
    moreover have "r1 < r \<or> r1 = r \<and> x1 = y" using r(2) assms(2) by blast
    ultimately show ?thesis using assms(2,3) by auto
  qed (use r(1) in blast)
  then show ?thesis unfolding best_def using r(2) by blast
qed

lemma seen_add: "seen u (add_mset (updateMessage sid v x) M) sid' = (if sid' = sid then insert (v_revision v, x) (seen u M sid) else seen u M sid')"
proof -
  have "(\<exists>v'. v_revision v' = r \<and> enc_version v' = enc_version v) = (r = v_revision v)" for r
    using enc_version_revision by metis
  then show ?thesis by (auto simp: seen_def)
qed

lemma seen_last:
  "u_shown u \<noteq> [] \<Longrightarrow> last (u_shown u) = (x, enc_version v) \<Longrightarrow> (v_revision v, x) \<in> seen u M sid"
  by (auto simp: seen_def)

lemma newer_enc:
  "v_instance v = v_instance v' \<Longrightarrow> newer (enc_version v) (Some (enc_version v')) \<longleftrightarrow> v_revision v' < v_revision v"
  by (simp add: newer_def)

lemma drop_update:
  assumes "open_inv E c U (add_mset (updateMessage sid v x) M) st"
    and "\<And>u. jm_get (pg_subscriptions c) sid = Some u \<Longrightarrow> \<exists>r1 x1. (r1, x1) \<in> seen u M sid \<and> v_revision v \<le> r1"
  shows "open_inv E c U M st"
proof (rule drop_message [OF assms(1)])
  fix sid' u y
  assume p: "jm_get (pg_subscriptions c) sid' = Some u" and b: "best (seen u (add_mset (updateMessage sid v x) M) sid') y"
  show "best (seen u M sid') y"
  proof (cases "sid' = sid")
    case True
    then obtain r1 x1 where "(r1, x1) \<in> seen u M sid" "v_revision v \<le> r1" using assms(2) p by blast
    then show ?thesis using b True best_drop [of "v_revision v" x "seen u M sid"] by (simp add: seen_add)
  qed (use b in \<open>simp add: seen_add\<close>)
qed simp

definition showing :: "jsval \<Rightarrow> jsval \<Rightarrow> client_subscription \<Rightarrow> client_subscription" where
  "showing x w u = u\<lparr> u_version := Some w, u_shown := u_shown u @ [(x, w)] \<rparr>"

lemma best_subset: "best S y \<Longrightarrow> S' \<subseteq> S \<Longrightarrow> (\<And>r x. (r, x) \<in> S \<Longrightarrow> (r, x) \<in> S' \<or> (\<exists>r1 x1. (r1, x1) \<in> S' \<and> r < r1)) \<Longrightarrow> best S' y"
proof -
  assume b: "best S y" and s: "S' \<subseteq> S" and c: "\<And>r x. (r, x) \<in> S \<Longrightarrow> (r, x) \<in> S' \<or> (\<exists>r1 x1. (r1, x1) \<in> S' \<and> r < r1)"
  obtain r where r: "(r, y) \<in> S" "\<And>r' x'. (r', x') \<in> S \<Longrightarrow> r' < r \<or> r' = r \<and> x' = y" using b unfolding best_def by blast
  have "(r, y) \<in> S'"
  proof (rule ccontr)
    assume "(r, y) \<notin> S'"
    then obtain r1 x1 where "(r1, x1) \<in> S'" "r < r1" using c [OF r(1)] by blast
    then show False using r(2) [of r1 x1] s by auto
  qed
  then show ?thesis unfolding best_def using r(2) s by blast
qed

lemma showing_best:
  assumes "best (seen u M sid) y" and "updateMessage sid v x \<in># M"
    and "\<And>x' w'. u_shown u \<noteq> [] \<Longrightarrow> last (u_shown u) = (x', w') \<Longrightarrow> \<exists>v'. w' = enc_version v' \<and> v_revision v' < v_revision v"
  shows "best (seen (showing x (enc_version v) u) M sid) y"
proof (rule best_subset [OF assms(1)])
  show "seen (showing x (enc_version v) u) M sid \<subseteq> seen u M sid"
  proof
    fix p
    assume "p \<in> seen (showing x (enc_version v) u) M sid"
    then obtain v' where v': "v_revision v' = fst p" "updateMessage sid v' (snd p) \<in># M \<or> (x, enc_version v) = (snd p, enc_version v')"
      by (auto simp: seen_def showing_def)
    have "\<exists>v2. v_revision v2 = fst p \<and> updateMessage sid v2 (snd p) \<in># M"
      using v' assms(2) enc_version_revision [of v v'] by (elim disjE) auto
    then show "p \<in> seen u M sid" by (cases p) (auto simp: seen_def)
  qed
  fix r x'
  assume "(r, x') \<in> seen u M sid"
  then obtain v' where v': "v_revision v' = r"
    "updateMessage sid v' x' \<in># M \<or> u_shown u \<noteq> [] \<and> last (u_shown u) = (x', enc_version v')" by (auto simp: seen_def)
  have in_new: "(v_revision v, x) \<in> seen (showing x (enc_version v) u) M sid" by (intro seen_last) (simp_all add: showing_def)
  from v'(2) show "(r, x') \<in> seen (showing x (enc_version v) u) M sid \<or>
      (\<exists>r1 x1. (r1, x1) \<in> seen (showing x (enc_version v) u) M sid \<and> r < r1)"
  proof
    assume "updateMessage sid v' x' \<in># M"
    then show ?thesis using v'(1) by (auto simp: seen_def)
  next
    assume l: "u_shown u \<noteq> [] \<and> last (u_shown u) = (x', enc_version v')"
    then obtain v2 where "enc_version v' = enc_version v2" "v_revision v2 < v_revision v" using assms(3) by blast
    then have "r < v_revision v" using enc_version_revision [of v' v2] v'(1) by simp
    then show ?thesis using in_new by blast
  qed
qed

lemma show_update:
  assumes "open_inv E c U M st" and "updateMessage sid v x \<in># M" and "jm_get (pg_subscriptions c) sid = Some u"
    and "newer (enc_version v) (u_version u)"
  shows "open_inv E (c\<lparr> pg_subscriptions := jm_set sid (showing x (enc_version v) u) (pg_subscriptions c) \<rparr>) U M st"
proof -
  let ?c = "c\<lparr> pg_subscriptions := jm_set sid (showing x (enc_version v) u) (pg_subscriptions c) \<rparr>"
  have ids: "ids_ok c" and subs: "subs_ok c" and R: "route_inv (instanceId st) c U M" and A: "ask_inv c U M st" and V: "view_inv c U M st"
    using assms(1) by (simp_all add: open_inv_def)
  note V = view_invD [OF V] and A = ask_invD [OF A]
  have inv: "jm_inv (pg_subscriptions c)" and sh: "shown_ok u" using subs assms(3) by (auto simp: subs_ok_def)
  have get: "jm_get (pg_subscriptions ?c) = (jm_get (pg_subscriptions c))(sid \<mapsto> showing x (enc_version v) u)"
    using inv by (simp add: jm.get_put)
  have sel [simp]: "u_selection (showing x w u) = u_selection u" for w by (simp add: showing_def)
  have fly: "flown c st (updateMessage sid v x)" using V(2) [OF assms(2)] by simp
  then obtain v1 where v1: "enc_version v = enc_version v1" "v_instance v1 = instanceId st" "v_revision v1 \<le> revision st"
    by (auto simp: flown_def)
  have vc: "version_of_core st (enc_version v)" using v1 by (auto simp: version_of_core_def)
  have iv: "v_instance v = instanceId st" using v1(1,2) by (simp add: enc_version_def)
  have older: "\<exists>v'. w' = enc_version v' \<and> v_revision v' < v_revision v" if "u_shown u \<noteq> []" "last (u_shown u) = (x', w')" for x' w'
  proof -
    have ver: "u_version u = Some w'" using sh that by (simp add: shown_ok_def)
    then obtain v' where "w' = enc_version v'" "v_instance v' = instanceId st" using V(4) [OF assms(3)] by (auto simp: version_of_core_def)
    then show ?thesis using assms(4) ver newer_enc [of v v'] iv by auto
  qed
  have "subs_ok ?c"
    using subs assms(3) shown_append [OF sh assms(4)]
    by (auto simp: subs_ok_def jm.get_put jm.inv_put jm.keys_put showing_def dest: jm_get_keys split: if_splits)
  moreover have r: "routed ?c m = routed c m" "issued_sids ?c = issued_sids c" "wanted ?c = wanted c" "req_of ?c = req_of c" for m
    by (simp_all add: routed_def issued_def issued_sids_def wanted_def asks_def requests_def req_of_def fun_eq_iff)
  moreover have "route_inv (instanceId st) ?c U M" using R unfolding route_inv_def r by simp
  moreover have "ask_inv ?c U M st"
    unfolding ask_inv_def r get
  proof (intro conjI allI impI)
    show "((jm_get (pg_subscriptions c))(sid \<mapsto> showing x (enc_version v) u)) sid' \<noteq> None" if "sid' \<in># wanted c" for sid'
      using A(3) [OF that] by simp
    show "no_repeats (wanted c)" by (rule A(1))
    show "held st sid'" if "sid' \<in> set (pg_handed ?c)" for sid' using that A(6) by simp
    show "held st (sub_sid m)" if "(rid, m, Inr y) \<in> set (pg_settled ?c)" "fld m ''type'' = JStr ''subscribe''" for rid m y
      using that A(8) by simp
  qed (rule A; assumption)+
  moreover have "view_inv ?c U M st"
    unfolding view_inv_def r get
  proof (intro conjI allI impI)
    show "settling m \<or> fld m ''type'' = JStr ''status'' \<or> fld m ''type'' = JStr ''opening'' \<or> flown ?c st m" if "m \<in># M" for m
    proof -
      have "flown ?c st m" if "flown c st m"
        using that assms(3) unfolding flown_def r get by (metis fun_upd_apply option.inject sel)
      then show ?thesis using V(2) [OF that] by blast
    qed
    fix sid' u'
    assume p: "((jm_get (pg_subscriptions c))(sid \<mapsto> showing x (enc_version v) u)) sid' = Some u'"
    show "pg_instance ?c = Some (JStr (instanceId st))" using V(3) [OF assms(3)] by simp
    show "version_of_core st w" if "u_version u' = Some w" for w
      using p that V(4) vc by (auto simp: showing_def split: if_splits)
    show "u_selection u' = s_selection s" if "jm_get (subscriptions st) sid' = Some s" for s
      using p V(9) [OF _ that] assms(3) by (auto split: if_splits)
    show "best (seen u' M sid') (s_value s)" if s: "jm_get (subscriptions st) sid' = Some s" for s
    proof (cases "sid' = sid")
      case True
      then show ?thesis using p showing_best [OF V(10) [OF assms(3)] assms(2) older] s by auto
    qed (use p V(10) [OF _ s] in simp)
  next
    fix m sid'
    assume q: "m \<in># U" "sub_request m sid'"
    then have "sid' \<noteq> sid" using V(6) [OF q] assms(2) by blast
    then show "u_selection u' = fld m ''selection''" "u_shown u' = []"
      if "((jm_get (pg_subscriptions c))(sid \<mapsto> showing x (enc_version v) u)) sid' = Some u'" for u'
      using that V(7,8) [OF q] by auto
    show "\<not> held st sid'" using V(5) [OF q] .
    show "updateMessage sid' v' x' \<notin># M" for v' x' using V(6) [OF q] .
  qed (rule V(1); assumption)
  ultimately show ?thesis using assms(1) by (simp add: open_inv_def)
qed

lemma receive_update_open:
  assumes "open_inv E c U (add_mset m M) st" and "flown c st m"
  shows "open_inv E (receive_update m c) U M st"
proof -
  obtain sid v x where m: "m = updateMessage sid v x" and v: "v_instance v = instanceId st"
    and fits: "\<And>u. jm_get (pg_subscriptions c) sid = Some u \<Longrightarrow> selectionMatches (u_selection u) x"
    using assms(2) unfolding flown_def by blast
  have V: "view_inv c U (add_mset m M) st" and subs: "subs_ok c" using assms(1) by (simp_all add: open_inv_def)
  have f: "strOf (fld m ''subscriptionId'') = sid" "fld m ''version'' = enc_version v" "fld m ''value'' = x" by (simp_all add: m updateMessage_def)
  show ?thesis
  proof (cases "jm_get (pg_subscriptions c) sid")
    case None
    then have "open_inv E c U M st" using drop_update [OF assms(1) [unfolded m]] by simp
    then show ?thesis using None f by (simp add: receive_update_def Let_def)
  next
    case (Some u)
    have inst: "pg_instance c = Some (JStr (instanceId st))" using view_invD(3) [OF V Some] .
    show ?thesis
    proof (cases "newer (enc_version v) (u_version u)")
      case False
      then obtain w where w: "u_version u = Some w" by (auto simp: newer_def split: option.splits)
      obtain v' where v': "w = enc_version v'" "v_instance v' = instanceId st" using view_invD(4) [OF V Some w] by (auto simp: version_of_core_def)
      have "shown_ok u" using subs Some by (auto simp: subs_ok_def)
      then have "u_shown u \<noteq> []" "last (u_shown u) = (fst (last (u_shown u)), enc_version v')"
        using w v'(1) by (auto simp: shown_ok_def split: if_splits)
      then have "(v_revision v', fst (last (u_shown u))) \<in> seen u M sid" by (rule seen_last)
      moreover have "v_revision v \<le> v_revision v'" using False w v' v newer_enc [of v v'] by simp
      ultimately have "open_inv E c U M st" using Some by (intro drop_update [OF assms(1) [unfolded m]]) auto
      then show ?thesis using Some False f by (simp add: receive_update_def Let_def)
    next
      case True
      let ?c = "c\<lparr> pg_subscriptions := jm_set sid (showing x (enc_version v) u) (pg_subscriptions c) \<rparr>"
      have "open_inv E ?c U (add_mset (updateMessage sid v x) M) st"
        using show_update [OF assms(1) [unfolded m] _ Some True] by simp
      moreover have "jm_get (pg_subscriptions ?c) sid = Some (showing x (enc_version v) u)"
        using subs by (simp add: subs_ok_def jm.get_put)
      moreover have "(v_revision v, x) \<in> seen (showing x (enc_version v) u) M sid" by (intro seen_last) (simp_all add: showing_def)
      ultimately have "open_inv E ?c U M st" using drop_update [of E ?c U sid v x M st] by auto
      then show ?thesis using Some True f inst v fits [OF Some] by (simp add: receive_update_def Let_def showing_def)
    qed
  qed
qed

lemma open_told [simp]:
  assumes "open_inv E c U M st"
  shows "open_inv E (c\<lparr> pg_statuses := s \<rparr>) U M st" "open_inv E (c\<lparr> pg_relay := r \<rparr>) U M st" "open_inv E (c\<lparr> pg_progress := y \<rparr>) U M st"
proof -
  have ids: "ids_ok c" using assms by (simp add: open_inv_def)
  show "open_inv E (c\<lparr> pg_statuses := s \<rparr>) U M st"
    using ids by (intro open_frame [OF assms]) (simp_all add: req_of_def requests_def fun_eq_iff)
  show "open_inv E (c\<lparr> pg_relay := r \<rparr>) U M st"
    using ids by (intro open_frame [OF assms]) (simp_all add: req_of_def requests_def fun_eq_iff)
  show "open_inv E (c\<lparr> pg_progress := y \<rparr>) U M st"
    using ids by (intro open_frame [OF assms]) (simp_all add: req_of_def requests_def fun_eq_iff)
qed

lemma map_snd_set: "map (f \<circ> snd) (jm_set k v m) = map (f \<circ> snd) m" if "jm_get m k = Some v0" "f v = f v0"
  using that by (induction m) (auto simp: jm_set_def jm_get_def split: if_splits)

lemma rearm_open:
  assumes "open_inv E c U M st" and "jm_get (pg_pending c) rid = Some p"
  shows "open_inv E (c\<lparr> pg_pending := jm_set rid (p\<lparr> q_timed := b \<rparr>) (pg_pending c) \<rparr>) U M st"
proof (rule open_frame [OF assms(1)])
  let ?c = "c\<lparr> pg_pending := jm_set rid (p\<lparr> q_timed := b \<rparr>) (pg_pending c) \<rparr>"
  have ids: "ids_ok c" using assms(1) by (simp add: open_inv_def)
  then have inv: "jm_inv (pg_pending c)" by (simp add: ids_ok_def)
  show "ids_ok ?c"
    using ids assms(2) jm_get_keys [OF inv assms(2)] by (auto simp: ids_ok_def jm.inv_put jm.get_put jm.keys_put split: if_splits)
  show "req_of ?c = req_of c" using inv assms(2) by (auto simp: req_of_def fun_eq_iff jm.get_put)
  show "requests ?c = requests c" using map_snd_set [OF assms(2), of q_request "p\<lparr> q_timed := b \<rparr>"] by (simp add: requests_def)
qed simp_all

lemma receive_open:
  assumes "open_inv E c U (add_mset m M) st" and "\<not> pg_closed c"
  shows "open_inv E (page_receive m c) U M st"
proof -
  have V: "view_inv c U (add_mset m M) st" using assms(1) by (simp add: open_inv_def)
  consider "settling m" | "flown c st m" | "\<not> settling m" "fld m ''type'' = JStr ''status''" | "\<not> settling m" "fld m ''type'' = JStr ''opening''"
    using view_invD(2) [OF V, of m] by auto
  then show ?thesis
  proof cases
    case 1
    then show ?thesis using receive_reply assms by blast
  next
    case 2
    then have "fld m ''type'' = JStr ''update''" by (auto simp: flown_def)
    then show ?thesis using receive_update_open [OF assms(1) 2] assms(2) by (simp add: page_receive_def Let_def)
  next
    case 3
    then have "open_inv E c U M st" using drop_open [OF assms(1)] by simp
    then show ?thesis using 3 assms(2) by (simp add: page_receive_def Let_def)
  next
    case 4
    then have o: "open_inv E c U M st" using drop_open [OF assms(1)] by simp
    show ?thesis using 4 assms(2) rearm_open [OF o] o by (simp add: page_receive_def Let_def split: option.split)
  qed
qed

lemma batch_open:
  "open_inv E c U (mset b + M) st \<Longrightarrow> \<not> pg_closed c \<Longrightarrow> open_inv E (fold page_receive b c) U M st"
proof (induction b arbitrary: c)
  case (Cons m b)
  then have "open_inv E (page_receive m c) U (mset b + M) st" by (intro receive_open) simp_all
  then show ?case using Cons.IH [of "page_receive m c"] Cons.prems(2) by simp
qed simp

subsection \<open>What follows an await\<close>

lemma resume_gen:
  assumes "open_inv E c U M st" and "ids_ok c'" and "subs_ok c'" and "pg_pending c' = pg_pending c"
    and "set (pg_settled c') \<subseteq> set (pg_settled c)" and "pg_nextRequest c' = pg_nextRequest c"
    and "pg_nextSubscription c' = pg_nextSubscription c" and "pg_clientId c' = pg_clientId c"
    and inst: "pg_instance c' = pg_instance c \<or> pg_instance c' = Some (JStr (instanceId st))"
    and want: "wanted c' \<subseteq># wanted c" and have_sub: "\<And>sid. sid \<in># wanted c' \<Longrightarrow> jm_get (pg_subscriptions c') sid \<noteq> None"
    and had: "\<And>sid u. jm_get (pg_subscriptions c') sid = Some u \<Longrightarrow> jm_get (pg_subscriptions c) sid = Some u"
    and hand: "\<And>sid. sid \<in> set (pg_handed c') \<Longrightarrow> held st sid"
  shows "open_inv E c' U M st"
proof -
  have R: "route_inv (instanceId st) c U M" and A: "ask_inv c U M st" and V: "view_inv c U M st"
    and i0: "pg_instance c = None \<or> pg_instance c = Some (JStr (instanceId st))"
    using assms(1) by (simp_all add: open_inv_def)
  note R = route_invD [OF R] and A = ask_invD [OF A] and V = view_invD [OF V]
  have eq: "issued c' = issued c" "issued_sids c' = issued_sids c" "req_of c' = req_of c"
    using assms(4,6-8) by (simp_all add: issued_def issued_sids_def req_of_def fun_eq_iff)
  have r: "routed c' m = routed c m" for m by (simp add: routed_def eq)
  have fly: "flown c' st m" if "flown c st m" for m
    using that had unfolding flown_def eq by blast
  have in_w: "sid \<in># wanted c" if "sid \<in># wanted c'" for sid using that want by (rule mset_subset_eqD [rotated])
  have "route_inv (instanceId st) c' U M"
    unfolding route_inv_def r eq
  proof (intro conjI allI impI)
    show "no_repeats (wire_ids U M)" by (rule R(1))
    show "answers (instanceId st) m x" "fld x ''type'' \<noteq> JStr ''error''" if "(rid, m, Inr x) \<in> set (pg_settled c')" for rid m x
      using R(6,7) [OF subsetD [OF assms(5) that]] .
  qed (rule R; assumption)+
  moreover have "ask_inv c' U M st"
    unfolding ask_inv_def eq
  proof (intro conjI allI impI)
    show "no_repeats (wanted c')" using A(1) want by (rule no_repeats_mono)
    show "sid \<in> issued_sids c" if "sid \<in># wanted c'" for sid using A(2) [OF in_w [OF that]] .
    show "sub_sid m \<notin># wanted c'" if "m \<in># U" "fld m ''type'' = JStr ''unsubscribe''" for m using A(5) [OF that] in_w by blast
    show "held st (sub_sid m)" if "(rid, m, Inr x) \<in> set (pg_settled c')" "fld m ''type'' = JStr ''subscribe''" for rid m x
      using A(8) [OF subsetD [OF assms(5) that(1)] that(2)] .
  qed ((rule A have_sub hand; assumption)+)
  moreover have "view_inv c' U M st"
    unfolding view_inv_def eq
  proof (intro conjI allI impI)
    show "settling m \<or> fld m ''type'' = JStr ''status'' \<or> fld m ''type'' = JStr ''opening'' \<or> flown c' st m" if "m \<in># M" for m
      using V(2) [OF that] fly by blast
    show "pg_instance c' = Some (JStr (instanceId st))" if "jm_get (pg_subscriptions c') sid = Some u" for sid u
      using V(3) [OF had [OF that]] inst by auto
    show "version_of_core st w" if "jm_get (pg_subscriptions c') sid = Some u" "u_version u = Some w" for sid u w
      using V(4) [OF had [OF that(1)] that(2)] .
    show "u_selection u = fld m ''selection''" "u_shown u = []"
      if "m \<in># U" "sub_request m sid" "jm_get (pg_subscriptions c') sid = Some u" for m sid u
      using V(7,8) [OF that(1,2) had [OF that(3)]] .
    show "u_selection u = s_selection s" "best (seen u M sid) (s_value s)"
      if "jm_get (pg_subscriptions c') sid = Some u" "jm_get (subscriptions st) sid = Some s" for sid u s
      using V(9,10) [OF had [OF that(1)] that(2)] .
  qed (rule V; assumption)+
  ultimately show ?thesis using assms(1-3) inst i0 by (auto simp: open_inv_def)
qed

lemma resume_settled: "resume e (c\<lparr> pg_settled := s \<rparr>) = (resume e c)\<lparr> pg_settled := s \<rparr>"
  by (cases e) (auto simp: resume_def Let_def split: sum.split)

text \<open>How one entry changes the page.\<close>

lemma resume_effect:
  assumes "route_inv inst c U M" and "(rid, m, o') \<in> set (pg_settled c)"
  obtains (same) "fld m ''type'' \<noteq> JStr ''subscribe''" "pg_subscriptions (resume (rid, m, o') c) = pg_subscriptions c"
      "pg_handed (resume (rid, m, o') c) = pg_handed c"
      "pg_instance (resume (rid, m, o') c) = pg_instance c \<or> pg_instance (resume (rid, m, o') c) = Some (JStr inst)"
  | (lost) "fld m ''type'' = JStr ''subscribe''" "pg_subscriptions (resume (rid, m, o') c) = jm_delete (sub_sid m) (pg_subscriptions c)"
      "pg_handed (resume (rid, m, o') c) = pg_handed c" "pg_instance (resume (rid, m, o') c) = pg_instance c"
  | (given) r where "o' = Inr r" "fld m ''type'' = JStr ''subscribe''" "pg_subscriptions (resume (rid, m, o') c) = pg_subscriptions c"
      "pg_handed (resume (rid, m, o') c) = pg_handed c @ [sub_sid m]" "pg_instance (resume (rid, m, o') c) = pg_instance c"
proof (cases o')
  case (Inl e)
  then show ?thesis using same lost by (cases "fld m ''type'' = JStr ''subscribe''") (simp_all add: resume_def Let_def sub_sid_def)
next
  case (Inr r)
  then have a: "answers inst m r" "fld r ''type'' \<noteq> JStr ''error''" using route_invD(6,7) [OF assms(1)] assms(2) by auto
  then have match: "replyMatches m r (Some (JStr inst))" and ready: "fld r ''type'' = JStr ''ready'' \<Longrightarrow> fld (fld r ''version'') ''instance'' = JStr inst"
    by (simp_all add: answers_def)
  consider "fld m ''type'' = JStr ''subscribe''" | "fld m ''type'' = JStr ''hello''"
    | "fld m ''type'' \<noteq> JStr ''subscribe''" "fld m ''type'' \<noteq> JStr ''hello''" by blast
  then show ?thesis
  proof cases
    case 1
    then have "fld r ''type'' = JStr ''subscribed''" using replyMatches_subscribe [OF match] by simp
    then show ?thesis using 1 Inr given [of r] by (simp add: resume_def Let_def expectedReply_def sub_sid_def)
  next
    case 2
    then have t: "fld r ''type'' = JStr ''ready''" using match by (simp add: replyMatches_def Let_def split: if_splits)
    then show ?thesis using 2 Inr ready [OF t] same by (simp add: resume_def Let_def expectedReply_def)
  next
    case 3
    then show ?thesis using Inr same by (auto simp: resume_def Let_def)
  qed
qed

lemma wanted_settled:
  "pg_settled c = (rid, m, o') # es \<Longrightarrow> wanted c = ask_of m + wanted (c\<lparr> pg_settled := es \<rparr>)"
  by (simp add: wanted_def asks_def requests_def)

lemma wanted_frame:
  "pg_pending c' = pg_pending c \<Longrightarrow> pg_settled c' = pg_settled c \<Longrightarrow> pg_handed c' = pg_handed c @ hs \<Longrightarrow> wanted c' = wanted c + mset hs"
  by (simp add: wanted_def asks_def requests_def)

lemma resume_open:
  assumes "open_inv E c U M st" and "pg_settled c = (rid, m, o') # es"
  shows "open_inv E ((resume (rid, m, o') c)\<lparr> pg_settled := es \<rparr>) U M st"
proof -
  let ?r = "resume (rid, m, o') c"
  let ?c = "?r\<lparr> pg_settled := es \<rparr>"
  have ids: "ids_ok c" and subs: "subs_ok c" and R: "route_inv (instanceId st) c U M" and A: "ask_inv c U M st"
    using assms(1) by (simp_all add: open_inv_def)
  note A = ask_invD [OF A]
  have mem: "(rid, m, o') \<in> set (pg_settled c)" using assms(2) by simp
  have "map fst (pg_results ?r) = map fst (pg_results c) @ [rid]" by simp
  then have "image_mset fst (mset (pg_results ?r)) = image_mset fst (mset (pg_results c)) + {#rid#}"
    by (metis mset_append mset_map mset_single_iff)
  then have ids': "ids_ok ?c" using ids assms(2) by (simp add: ids_ok_def ac_simps)
  have subs': "subs_ok ?c" using resume_subs [OF subs] by simp
  have want: "wanted c = ask_of m + wanted (c\<lparr> pg_settled := es \<rparr>)" using wanted_settled [OF assms(2)] .
  note frame = resume_gen [OF assms(1) ids' subs']
  show ?thesis
  proof (rule resume_effect [OF R mem])
    assume e: "fld m ''type'' \<noteq> JStr ''subscribe''" "pg_subscriptions ?r = pg_subscriptions c" "pg_handed ?r = pg_handed c"
      "pg_instance ?r = pg_instance c \<or> pg_instance ?r = Some (JStr (instanceId st))"
    have w: "wanted ?c = wanted c" using e(1,3) want wanted_frame [of ?c "c\<lparr> pg_settled := es \<rparr>" "[]"] by (simp add: ask_of_def)
    show ?thesis using e w A(3,6) assms(2) by (intro frame) (auto simp: set_subset_Cons)
  next
    assume e: "fld m ''type'' = JStr ''subscribe''" "pg_subscriptions ?r = jm_delete (sub_sid m) (pg_subscriptions c)"
      "pg_handed ?r = pg_handed c" "pg_instance ?r = pg_instance c"
    have w: "wanted c = add_mset (sub_sid m) (wanted ?c)"
      using e(1,3) want wanted_frame [of ?c "c\<lparr> pg_settled := es \<rparr>" "[]"] by (simp add: ask_of_def)
    then have fresh: "sub_sid m \<notin># wanted ?c" using A(1) by (simp add: no_repeats_add)
    have get: "jm_get (pg_subscriptions ?r) = (jm_get (pg_subscriptions c))(sub_sid m := None)"
      using e(2) subs by (simp add: subs_ok_def jm.get_del)
    have "jm_get (pg_subscriptions ?c) sid \<noteq> None" if "sid \<in># wanted ?c" for sid
      using that fresh A(3) [of sid] w by (auto simp: get)
    then show ?thesis using e(3,4) w A(6) assms(2) by (intro frame) (auto simp: get set_subset_Cons split: if_splits)
  next
    fix r
    assume e: "o' = Inr r" "fld m ''type'' = JStr ''subscribe''" "pg_subscriptions ?r = pg_subscriptions c"
      "pg_handed ?r = pg_handed c @ [sub_sid m]" "pg_instance ?r = pg_instance c"
    have w: "wanted ?c = wanted c"
      using e(2,4) want wanted_frame [of ?c "c\<lparr> pg_settled := es \<rparr>" "[sub_sid m]"] by (simp add: ask_of_def)
    have "held st (sub_sid m)" using A(8) [of rid m r] mem e(1,2) by simp
    then show ?thesis using e(3-5) w A(3,6) assms(2) by (intro frame) (auto simp: set_subset_Cons)
  qed
qed

lemma fold_resume_open:
  "open_inv E (c\<lparr> pg_settled := es \<rparr>) U M st \<Longrightarrow> open_inv E ((fold resume es c)\<lparr> pg_settled := [] \<rparr>) U M st"
proof (induction es arbitrary: c)
  case (Cons e es)
  obtain rid m o' where e: "e = (rid, m, o')" by (cases e)
  have "open_inv E ((resume e (c\<lparr> pg_settled := e # es \<rparr>))\<lparr> pg_settled := es \<rparr>) U M st"
    unfolding e by (rule resume_open [OF Cons.prems [unfolded e]]) simp
  then have "open_inv E ((resume e c)\<lparr> pg_settled := es \<rparr>) U M st" by (simp add: resume_settled)
  then show ?case using Cons.IH by simp
qed simp

lemma resume_all_open: "open_inv E c U M st \<Longrightarrow> open_inv E (resume_all c) U M st"
proof -
  assume o: "open_inv E c U M st"
  have "(fold resume es c)\<lparr> pg_settled := [] \<rparr> = fold resume es (c\<lparr> pg_settled := [] \<rparr>)" for es
    by (induction es arbitrary: c) (simp_all add: resume_settled)
  moreover have "open_inv E (c\<lparr> pg_settled := pg_settled c \<rparr>) U M st" using o by simp
  ultimately show ?thesis using fold_resume_open [where c = c and es = "pg_settled c"] by (simp add: resume_all_def)
qed

subsection \<open>The worker serves and publishes\<close>

lemma list_all2_mem:
  assumes "list_all2 P xs ys"
  shows "y \<in> set ys \<Longrightarrow> \<exists>x. x \<in> set xs \<and> P x y" and "x \<in> set xs \<Longrightarrow> \<exists>y. y \<in> set ys \<and> P x y"
  using assms by (induction rule: list_all2_induct) auto

lemma updates_of:
  assumes "list_all2 (is_update inst) us ums"
  shows "updateMessage sid v x \<in> set ums \<Longrightarrow> (sid, v_revision v, x) \<in> set us \<and> v_instance v = inst"
    and "(sid, r, x) \<in> set us \<Longrightarrow> \<exists>v. v_revision v = r \<and> updateMessage sid v x \<in> set ums"
    and "y \<in> set ums \<Longrightarrow> \<exists>sid v x. y = updateMessage sid v x"
proof -
  assume "updateMessage sid v x \<in> set ums"
  then obtain u where u: "u \<in> set us" "is_update inst u (updateMessage sid v x)" using list_all2_mem(1) [OF assms] by blast
  then obtain v' where v': "sid = fst u" "enc_version v = enc_version v'" "x = snd (snd u)" "v_instance v' = inst" "v_revision v' = fst (snd u)"
    by (auto simp: is_update_def)
  moreover have "v_instance v = v_instance v'" using v'(2) by (simp add: enc_version_def)
  ultimately show "(sid, v_revision v, x) \<in> set us \<and> v_instance v = inst" using u(1) enc_version_revision [OF v'(2)] by (cases u) simp
next
  assume "(sid, r, x) \<in> set us"
  then obtain y where "y \<in> set ums" "is_update inst (sid, r, x) y" using list_all2_mem(2) [OF assms] by blast
  then show "\<exists>v. v_revision v = r \<and> updateMessage sid v x \<in> set ums" by (auto simp: is_update_def)
next
  assume "y \<in> set ums"
  then obtain u where "is_update inst u y" using list_all2_mem(1) [OF assms] by blast
  then show "\<exists>sid v x. y = updateMessage sid v x" by (auto simp: is_update_def)
qed

lemma seen_published:
  assumes "list_all2 (is_update inst) us ums" and "\<And>sid v x. updateMessage sid v x \<notin># X"
  shows "seen u (M + mset ums + X) sid = seen u M sid \<union> {(r, x). (sid, r, x) \<in> set us}"
proof -
  have "(\<exists>v. v_revision v = r \<and> updateMessage sid v x \<in> set ums) \<longleftrightarrow> (sid, r, x) \<in> set us" for r x
    using updates_of(1,2) [OF assms(1)] by blast
  then show ?thesis using assms(2) unfolding seen_def by (auto simp: conj_disj_distribL ex_disj_distrib)
qed

lemma seen_bounded:
  assumes "view_inv c U M st" and "subs_ok c" and "jm_get (pg_subscriptions c) sid = Some u" and "(r, x) \<in> seen u M sid"
  shows "r \<le> revision st"
proof -
  note V = view_invD [OF assms(1)]
  obtain v where v: "v_revision v = r" "updateMessage sid v x \<in># M \<or> u_shown u \<noteq> [] \<and> last (u_shown u) = (x, enc_version v)"
    using assms(4) by (auto simp: seen_def)
  from v(2) show ?thesis
  proof
    assume "updateMessage sid v x \<in># M"
    from V(2) [OF this] obtain v' where "enc_version v = enc_version v'" "v_revision v' \<le> revision st" by (auto simp: flown_def)
    then show ?thesis using v(1) enc_version_revision by metis
  next
    assume l: "u_shown u \<noteq> [] \<and> last (u_shown u) = (x, enc_version v)"
    have "shown_ok u" using assms(2,3) by (auto simp: subs_ok_def)
    then have "u_version u = Some (enc_version v)" using l by (simp add: shown_ok_def)
    from V(4) [OF assms(3) this] obtain v' where "enc_version v = enc_version v'" "v_revision v' \<le> revision st" by (auto simp: version_of_core_def)
    then show ?thesis using v(1) enc_version_revision by metis
  qed
qed

lemma movesD:
  assumes "moves st us st'"
  shows "revision st \<le> revision st'" and "distinct (map fst us)"
    and "(sid, r, x) \<in> set us \<Longrightarrow> r \<le> revision st'"
    and "(sid, r, x) \<in> set us \<Longrightarrow> \<exists>s'. jm_get (subscriptions st') sid = Some s' \<and> s_value s' = x \<and> selectionMatches (s_selection s') x"
    and "(sid, r, x) \<in> set us \<Longrightarrow> jm_get (subscriptions st) sid = Some s \<Longrightarrow> revision st < r"
    and "(sid, r, x) \<in> set us \<Longrightarrow> jm_get (subscriptions st) sid = Some s \<Longrightarrow> jm_get (subscriptions st') sid = Some s' \<Longrightarrow>
      s_selection s' = s_selection s"
    and "sid \<notin> fst ` set us \<Longrightarrow> jm_get (subscriptions st') sid = Some s' \<Longrightarrow> jm_get (subscriptions st) sid = Some s'"
proof -
  have e: "r \<le> revision st' \<and> (\<exists>s'. jm_get (subscriptions st') sid = Some s' \<and> s_value s' = x \<and> selectionMatches (s_selection s') x \<and>
      (case jm_get (subscriptions st) sid of None \<Rightarrow> True | Some s \<Rightarrow> revision st < r \<and> s_selection s' = s_selection s))"
    if "(sid, r, x) \<in> set us" for sid r x
    using assms that unfolding moves_def by blast
  show "revision st \<le> revision st'" "distinct (map fst us)" using assms by (simp_all add: moves_def)
  show "sid \<notin> fst ` set us \<Longrightarrow> jm_get (subscriptions st') sid = Some s' \<Longrightarrow> jm_get (subscriptions st) sid = Some s'"
    using assms unfolding moves_def by blast
  assume u: "(sid, r, x) \<in> set us"
  from e [OF u] show "r \<le> revision st'" "\<exists>s'. jm_get (subscriptions st') sid = Some s' \<and> s_value s' = x \<and> selectionMatches (s_selection s') x" by blast+
  assume "jm_get (subscriptions st) sid = Some s"
  with e [OF u] show "revision st < r" "jm_get (subscriptions st') sid = Some s' \<Longrightarrow> s_selection s' = s_selection s" by auto
qed

lemma core_view:
  assumes V: "view_inv c U M st" and subs: "subs_ok c" and mv: "moves st us st'" and inst: "instanceId st' = instanceId st"
    and ums: "list_all2 (is_update (instanceId st)) us ums"
    and src: "\<And>sid. sid \<in> fst ` set us \<Longrightarrow> held st sid \<or> F sid"
    and F: "\<And>sid. F sid \<Longrightarrow> sid \<in> issued_sids c" "\<And>sid. F sid \<Longrightarrow> \<not> held st sid"
      "\<And>sid v x. F sid \<Longrightarrow> updateMessage sid v x \<notin># M"
      "\<And>sid u. F sid \<Longrightarrow> jm_get (pg_subscriptions c) sid = Some u \<Longrightarrow> u_shown u = []"
      "\<And>sid u s'. F sid \<Longrightarrow> jm_get (pg_subscriptions c) sid = Some u \<Longrightarrow> jm_get (subscriptions st') sid = Some s' \<Longrightarrow> u_selection u = s_selection s'"
    and U: "\<And>q sid. q \<in># U \<Longrightarrow> sub_request q sid \<Longrightarrow> \<not> F sid"
    and X: "\<And>y. y \<in># X \<Longrightarrow> settling y \<or> fld y ''type'' = JStr ''status'' \<or> fld y ''type'' = JStr ''opening''"
  shows "view_inv c U (M + mset ums + X) st'"
proof -
  note V' = view_invD [OF V] and mv' = movesD [OF mv]
  have noX: "updateMessage sid v x \<notin># X" for sid v x using X [of "updateMessage sid v x"] by auto
  have old: "held st sid \<or> F sid" if h: "held st' sid" for sid
  proof (cases "sid \<in> fst ` set us")
    case True
    then show ?thesis by (rule src)
  next
    case False
    obtain s' where "jm_get (subscriptions st') sid = Some s'" using h by (auto simp: held_def)
    from mv'(7) [OF False this] show ?thesis by (simp add: held_def)
  qed
  have iss: "sid \<in> issued_sids c" if "held st sid \<or> F sid" for sid using that V'(1) [of sid] F(1) [of sid] by blast
  have sel: "u_selection u = s_selection s'" if p: "jm_get (pg_subscriptions c) sid = Some u" "jm_get (subscriptions st') sid = Some s'" for sid u s'
  proof (cases "sid \<in> fst ` set us")
    case True
    then obtain r x where e: "(sid, r, x) \<in> set us" by auto
    show ?thesis
    proof (cases "F sid")
      case False
      then obtain s where s: "jm_get (subscriptions st) sid = Some s" using src [OF True] by (auto simp: held_def)
      show ?thesis using mv'(6) [OF e s p(2)] V'(9) [OF p(1) s] by simp
    qed (use F(5) p in blast)
  next
    case False
    show ?thesis using V'(9) [OF p(1) mv'(7) [OF False p(2)]] .
  qed
  have fly_old: "flown c st' m" if f: "flown c st m" for m
  proof -
    obtain sid v x where "m = updateMessage sid v x" "v_instance v = instanceId st'" "v_revision v \<le> revision st'" "sid \<in> issued_sids c"
      "\<forall>u. jm_get (pg_subscriptions c) sid = Some u \<longrightarrow> selectionMatches (u_selection u) x"
      using f mv'(1) inst unfolding flown_def by auto
    then show ?thesis unfolding flown_def by blast
  qed
  have fly_new: "flown c st' (updateMessage sid v x)" if m: "updateMessage sid v x \<in> set ums" for sid v x
  proof -
    have e: "(sid, v_revision v, x) \<in> set us" "v_instance v = instanceId st" using updates_of(1) [OF ums m] by blast+
    obtain s' where s': "jm_get (subscriptions st') sid = Some s'" "selectionMatches (s_selection s') x" using mv'(4) [OF e(1)] by blast
    have "sid \<in> fst ` set us" using e(1) by force
    then have "sid \<in> issued_sids c" by (intro iss src)
    then show ?thesis using e(2) mv'(3) [OF e(1)] inst sel [OF _ s'(1)] s'(2) unfolding flown_def
      by (intro exI [of _ sid] exI [of _ v] exI [of _ x]) simp
  qed
  have seen: "seen u (M + mset ums + X) sid = seen u M sid \<union> {(r, x). (sid, r, x) \<in> set us}" for u sid
    using seen_published [OF ums noX] .
  show ?thesis
    unfolding view_inv_def seen inst
  proof (intro conjI allI impI)
    show "sid \<in> issued_sids c" if "held st' sid" for sid using iss [OF old [OF that]] .
    show "settling m \<or> fld m ''type'' = JStr ''status'' \<or> fld m ''type'' = JStr ''opening'' \<or> flown c st' m" if "m \<in># M + mset ums + X" for m
    proof -
      from that consider "m \<in># M" | "m \<in> set ums" | "m \<in># X" by auto
      then show ?thesis
      proof cases
        case 1 then show ?thesis using V'(2) [OF 1] fly_old [of m] by blast
      next
        case 2 then show ?thesis using updates_of(3) [OF ums 2] fly_new by blast
      next
        case 3 then show ?thesis using X [OF 3] by blast
      qed
    qed
    show "version_of_core st' w" if "jm_get (pg_subscriptions c) sid = Some u" "u_version u = Some w" for sid u w
      using V'(4) [OF that] mv'(1) inst unfolding version_of_core_def by auto
    fix q sid
    assume q: "q \<in># U" "sub_request q sid"
    then have nf: "\<not> F sid" by (rule U)
    show "\<not> held st' sid" using old [of sid] nf V'(5) [OF q] by blast
    have "sid \<notin> fst ` set us" using src [of sid] nf V'(5) [OF q] by blast
    then have "updateMessage sid v x \<notin> set ums" for v x using updates_of(1) [OF ums, of sid v x] by force
    then show "updateMessage sid v x \<notin># M + mset ums + X" for v x using V'(6) [OF q] noX by simp
  next
    fix sid u s'
    assume p: "jm_get (pg_subscriptions c) sid = Some u" "jm_get (subscriptions st') sid = Some s'"
    show "u_selection u = s_selection s'" by (rule sel [OF p])
    show "best (seen u M sid \<union> {(r, x). (sid, r, x) \<in> set us}) (s_value s')"
    proof (cases "sid \<in> fst ` set us")
      case False
      then have "{(r, x). (sid, r, x) \<in> set us} = {}" by force
      then show ?thesis using V'(10) [OF p(1) mv'(7) [OF False p(2)]] by simp
    next
      case True
      then obtain r x where e: "(sid, r, x) \<in> set us" by auto
      then have one: "{(r, x). (sid, r, x) \<in> set us} = {(r, x)}" 
      proof -
        have "(r', x') = (r, x)" if "(sid, r', x') \<in> set us" for r' x' using eq_key_imp_eq_value [OF mv'(2) that e] .
        then show ?thesis using e by blast
      qed
      have x: "s_value s' = x" using mv'(4) [OF e] p(2) by auto
      have lt: "r' < r" if s: "(r', x') \<in> seen u M sid" for r' x'
      proof (cases "F sid")
        case True
        then have "seen u M sid = {}" using F(3) [OF True] F(4) [OF True p(1)] unfolding seen_def by simp
        then show ?thesis using s by simp
      next
        case False
        then obtain s0 where "jm_get (subscriptions st) sid = Some s0" using src [OF True] by (auto simp: held_def)
        then show ?thesis using mv'(5) [OF e] seen_bounded [OF V subs p(1) s] by simp
      qed
      show ?thesis
        unfolding one x best_def
      proof (intro exI [of _ r] conjI allI impI)
        show "r' < r \<or> r' = r \<and> x' = x" if "(r', x') \<in> seen u M sid \<union> {(r, x)}" for r' x' using that lt [of r' x'] by blast
      qed simp
    qed
  qed (rule V' sel; assumption)+
qed

lemma two_asks:
  assumes "ids_ok c" and "no_repeats (wanted c)" and "req_of c a = Some m" and "req_of c b = Some q" and "a \<noteq> b"
    and "fld m ''type'' = JStr ''subscribe''" and "fld q ''type'' = JStr ''subscribe''"
  shows "sub_sid m \<noteq> sub_sid q"
proof -
  have inv: "jm_inv (pg_pending c)" using assms(1) by (simp add: ids_ok_def)
  obtain p p' where p: "jm_get (pg_pending c) a = Some p" "q_request p = m" "jm_get (pg_pending c) b = Some p'" "q_request p' = q"
    using assms(3,4) by (auto simp: req_of_def)
  have "mset (pg_pending c) = add_mset (a, p) (mset (jm_delete a (pg_pending c)))" using jm_delete_mset [OF inv p(1)] .
  moreover have "jm_get (jm_delete a (pg_pending c)) b = Some p'" using p(3) assms(5) inv by (simp add: jm.get_del)
  moreover have "jm_inv (jm_delete a (pg_pending c))" using inv by (rule jm.inv_del)
  ultimately have "mset (pg_pending c) = add_mset (a, p) (add_mset (b, p') (mset (jm_delete b (jm_delete a (pg_pending c)))))"
    using jm_delete_mset by metis
  then have "wanted c = add_mset (sub_sid m) (add_mset (sub_sid q)
      (\<Sum>\<^sub># (image_mset ask_of (image_mset (q_request \<circ> snd) (mset (jm_delete b (jm_delete a (pg_pending c)))) + mset (map (fst \<circ> snd) (pg_settled c)))) +
       mset (pg_handed c)))"
    using p(2,4) assms(6,7) by (simp add: wanted_def asks_def requests_def ask_of_def)
  then show ?thesis using assms(2) by (auto simp: no_repeats_add)
qed

lemma routed_pending:
  "routed c m \<Longrightarrow> fld m ''type'' \<noteq> JStr ''hello'' \<Longrightarrow> \<exists>rid. fld m ''requestId'' = JStr rid \<and> req_of c rid = Some m"
  by (auto simp: routed_def)

lemma routed_wanted:
  assumes "ids_ok c" and "routed c m" and "fld m ''type'' = JStr ''subscribe''"
  shows "sub_sid m \<in># wanted c"
proof -
  obtain rid where "req_of c rid = Some m" using routed_pending [OF assms(2)] assms(3) by auto
  from asks_request [OF req_of_requests [OF assms(1) this] assms(3)] show ?thesis .
qed

lemma replyMatches_subscribed:
  "replyMatches m r i \<Longrightarrow> fld r ''type'' = JStr ''subscribed'' \<Longrightarrow> fld m ''type'' = JStr ''subscribe'' \<and> sub_sid r = sub_sid m"
  by (auto simp: replyMatches_def Let_def sub_sid_def split: if_splits)

lemma subscribed_wanted:
  assumes "open_inv E c U M st" and "r \<in># M" and "fld r ''type'' = JStr ''subscribed''"
  shows "sub_sid r \<in># wanted c"
proof -
  have ids: "ids_ok c" and R: "route_inv (instanceId st) c U M" and V: "view_inv c U M st" using assms(1) by (simp_all add: open_inv_def)
  have "settling r" using view_invD(2) [OF V assms(2)] assms(3) by (auto simp: flown_def)
  from route_invD(4) [OF R assms(2) this] obtain q where q: "answers (instanceId st) q r" "routed c q" by blast
  then have "replyMatches q r (Some (JStr (instanceId st)))" using assms(3) by (simp add: answers_def)
  from replyMatches_subscribed [OF this assms(3)] show ?thesis using routed_wanted [OF ids q(2)] by simp
qed

lemma settled_wanted:
  assumes "(rid, m, o') \<in> set (pg_settled c)" and "fld m ''type'' = JStr ''subscribe''"
  shows "sub_sid m \<in># wanted c"
proof (rule asks_request [OF _ assms(2)])
  show "m \<in># mset (requests c)" using assms(1) by (force simp: requests_def)
qed

text \<open>What the worker may do to the subscriptions the page counts on.\<close>

lemma core_ask:
  assumes "open_inv E c U0 M st" and "U \<subseteq># U0" and "\<And>sid. sid \<in># wanted c \<Longrightarrow> held st sid \<Longrightarrow> held st' sid"
    and "\<And>r. r \<in># X \<Longrightarrow> fld r ''type'' = JStr ''subscribed'' \<Longrightarrow> held st' (sub_sid r)"
  shows "ask_inv c U (M + X) st'"
proof -
  have "ask_inv c U0 M st" using assms(1) by (simp add: open_inv_def)
  note A = ask_invD [OF this]
  have up: "m \<in># U0" if "m \<in># U" for m using mset_subset_eqD [OF assms(2) that] .
  show ?thesis
    unfolding ask_inv_def
  proof (intro conjI allI impI)
    show "no_repeats (wanted c)" by (rule A(1))
    show "sub_sid m \<in> issued_sids c" "sub_sid m \<notin># wanted c" if "m \<in># U" "fld m ''type'' = JStr ''unsubscribe''" for m
      using A(4,5) [OF up [OF that(1)] that(2)] .
    show "held st' sid" if "sid \<in> set (pg_handed c)" for sid
      using assms(3) [OF _ A(6) [OF that]] that by (simp add: wanted_def)
    show "held st' (sub_sid r)" if "r \<in># M + X" "fld r ''type'' = JStr ''subscribed''" for r
    proof (cases "r \<in># M")
      case True
      show ?thesis using assms(3) [OF subscribed_wanted [OF assms(1) True that(2)] A(7) [OF True that(2)]] .
    next
      case False
      then show ?thesis using that assms(4) by simp
    qed
    show "held st' (sub_sid m)" if "(rid, m, Inr r) \<in> set (pg_settled c)" "fld m ''type'' = JStr ''subscribe''" for rid m r
      using assms(3) [OF settled_wanted [OF that] A(8) [OF that]] .
  qed (rule A; assumption)+
qed

lemma quiet_wire:
  assumes "\<And>y. y \<in># Y \<Longrightarrow> \<not> settling y"
  shows "wire_ids U (M + Y) = wire_ids U M"
proof -
  have "filter_mset settling Y = {#}" using assms by (induction Y) auto
  then show ?thesis by (simp add: wire_ids_def)
qed

lemma answered_route:
  assumes "route_inv inst c (add_mset m U) M" and "answers inst m r" and "\<And>y. y \<in># Y \<Longrightarrow> \<not> settling y"
  shows "route_inv inst c U (M + (Y + {#r#}))"
proof -
  note R = route_invD [OF assms(1)]
  have s: "settling r" "fld r ''requestId'' = fld m ''requestId''" using answers_settling [OF assms(2)] by simp_all
  have "wire_ids U (M + (Y + {#r#})) = wire_ids U (add_mset r M)" using quiet_wire [where Y = Y and U = U and M = "add_mset r M"] assms(3) by (simp add: ac_simps)
  also have "\<dots> = wire_ids (add_mset m U) M" using s by (simp add: wire_ids_def)
  finally have w: "wire_ids U (M + (Y + {#r#})) = wire_ids (add_mset m U) M" .
  show ?thesis
    unfolding route_inv_def w
  proof (intro conjI allI impI)
    show "no_repeats (wire_ids (add_mset m U) M)" by (rule R(1))
    show "well_sent q" "routed c q" if "q \<in># U" for q using R(2,3) [of q] that by simp_all
    show "\<exists>q. answers inst q x \<and> routed c q" if "x \<in># M + (Y + {#r#})" "settling x" for x
    proof (cases "x = r")
      case True
      then show ?thesis using assms(2) R(3) [of m] by auto
    next
      case False
      then show ?thesis using that R(4) [of x] assms(3) [of x] by auto
    qed
    show "q \<in># U \<or> (\<exists>x. x \<in># M + (Y + {#r#}) \<and> answers inst q x)" if "req_of c rid = Some q" for rid q
      using R(5) [OF that] assms(2) by auto
  qed (rule R; assumption)+
qed

lemma serve_open:
  assumes "authority_ok E A" and "authority_fits E A" and "open_inv E c (add_mset m U) M st" and "revision st < 9007199254740991"
    and "host_dispatch A E m st = (posts, st')"
  shows "open_inv E c U (M + mset (concat posts)) st'"
proof -
  have core: "core_ok E st" and ids: "ids_ok c" and subs: "subs_ok c" and R: "route_inv (instanceId st) c (add_mset m U) M"
    and A: "ask_inv c (add_mset m U) M st" and V: "view_inv c (add_mset m U) M st" using assms(3) by (simp_all add: open_inv_def)
  have k: "core_inv E st" "wire_inv st" "listeners st = [0]" "\<not> closed st" using core by (simp_all add: core_ok_def)
  have sent: "well_sent m" "routed c m" using route_invD(2,3) [OF R] by simp_all
  then obtain rid where rid: "fld m ''requestId'' = JStr rid" "rid \<in> issued c" by (auto simp: routed_def)
  have new: "jm_get (subscriptions st) sid = None" if "sub_request m sid" for sid using view_invD(5) [OF V _ that] by (simp add: held_def)
  have rec: "isRecord m" using sent(1) by (simp add: well_sent_def)
  obtain ps ms where d: "posts = map (\<lambda>p. [openingMessage (JStr rid) p]) ps @ [ms]" "handled m st ms st'" "core_ok E st'" "instanceId st' = instanceId st"
    using host_dispatch_spec [OF assms(1,2) k assms(4) rec rid(1) issued_nonempty [OF rid(2)] new] assms(5) by (auto simp: core_ok_def)
  obtain us ums r where h: "ms = ums @ [r]" "list_all2 (is_update (instanceId st)) us ums" "moves st us st'" "answers (instanceId st) m r"
    "\<And>sid. sid \<in> fst ` set us \<Longrightarrow> jm_get (subscriptions st) sid \<noteq> None \<or> sub_request m sid"
    "\<And>sid. fld r ''type'' \<noteq> JStr ''error'' \<Longrightarrow> sub_request m sid \<Longrightarrow> \<exists>s'. jm_get (subscriptions st') sid = Some s'"
    "\<And>sid s'. sub_request m sid \<Longrightarrow> jm_get (subscriptions st) sid = None \<Longrightarrow> jm_get (subscriptions st') sid = Some s' \<Longrightarrow>
       s_selection s' = fld m ''selection''"
    using d(2) unfolding handled_def by blast
  define ops where "ops = mset (map (\<lambda>p. openingMessage (JStr rid) p) ps)"
  have posts: "mset (concat posts) = mset ums + ops + {#r#}" by (simp add: d(1) h(1) ops_def concat_map_singleton)
  have opn: "\<not> settling y" "fld y ''type'' = JStr ''opening''" if "y \<in># ops" for y
    using that by (auto simp: ops_def settling_def openingMessage_def)
  have quiet: "\<not> settling y" "fld y ''type'' \<noteq> JStr ''subscribed''" if y: "y \<in># mset ums + ops" for y
  proof -
    from y consider "y \<in> set ums" | "y \<in># ops" by auto
    then have "\<not> settling y \<and> fld y ''type'' \<noteq> JStr ''subscribed''" by cases (use updates_of(3) [OF h(2), of y] opn [of y] in auto)
    then show "\<not> settling y" "fld y ''type'' \<noteq> JStr ''subscribed''" by blast+
  qed
  have sr: "fld m ''type'' = JStr ''subscribe'' \<and> sub_sid m = sid" if "sub_request m sid" for sid
    using that by (simp add: sub_request_def sub_sid_def)
  have "route_inv (instanceId st) c U (M + (mset ums + ops + {#r#}))" using answered_route [OF R h(4) quiet(1)] .
  moreover have "ask_inv c U (M + (mset ums + ops + {#r#})) st'"
  proof (rule core_ask [OF assms(3)])
    fix sid
    assume w: "sid \<in># wanted c" and s: "held st sid"
    have "\<not> unsub_request m sid" using ask_invD(5) [OF A, of m] w by (auto simp: unsub_request_def sub_sid_def)
    moreover have "holds st sid" using s k(1) by (simp add: holds_def core_inv_def)
    ultimately show "held st' sid" using host_dispatch_keeps [OF _ _ assms(5)] by (auto simp: holds_def)
  next
    fix x
    assume x: "x \<in># mset ums + ops + {#r#}" "fld x ''type'' = JStr ''subscribed''"
    then have "x = r" using quiet(2) by auto
    then have "replyMatches m r (Some (JStr (instanceId st)))" "fld r ''type'' \<noteq> JStr ''error''" using h(4) x(2) by (auto simp: answers_def)
    moreover from replyMatches_subscribed [OF this(1)] have s: "fld m ''type'' = JStr ''subscribe''" "sub_sid r = sub_sid m" using x(2) \<open>x = r\<close> by simp_all
    moreover have "sub_request m (sub_sid m)" using s sent(1) by (simp add: well_sent_def sub_request_def)
    ultimately show "held st' (sub_sid x)" using h(6) \<open>x = r\<close> by (simp add: held_def)
  qed simp
  moreover have "view_inv c U (M + mset ums + (ops + {#r#})) st'"
  proof (rule core_view [where F = "sub_request m", OF _ subs h(3) d(4) h(2)])
    note V' = view_invD [OF V]
    show "view_inv c U M st" using V unfolding view_inv_def by auto
    show "held st sid \<or> sub_request m sid" if "sid \<in> fst ` set us" for sid using h(5) [OF that] by (simp add: held_def)
    show "sid \<in> issued_sids c" if "sub_request m sid" for sid
      using sr [OF that] routed_wanted [OF ids sent(2)] ask_invD(2) [OF A] by auto
    show "\<not> held st sid" "updateMessage sid v x \<notin># M" if "sub_request m sid" for sid v x using V'(5,6) [OF _ that] by simp_all
    show "u_shown u = []" if "sub_request m sid" "jm_get (pg_subscriptions c) sid = Some u" for sid u using V'(8) [OF _ that] by simp
    show "u_selection u = s_selection s'"
      if "sub_request m sid" "jm_get (pg_subscriptions c) sid = Some u" "jm_get (subscriptions st') sid = Some s'" for sid u s'
      using V'(7) [OF _ that(1,2)] h(7) [OF that(1) new [OF that(1)] that(3)] by simp
    show "\<not> sub_request m sid" if q: "q \<in># U" "sub_request q sid" for q sid
    proof
      assume ms: "sub_request m sid"
      have tq: "fld q ''type'' = JStr ''subscribe''" "sub_sid q = sid" using q(2) by (simp_all add: sub_request_def sub_sid_def)
      obtain a where a: "fld m ''requestId'' = JStr a" "req_of c a = Some m" using routed_pending [OF sent(2)] sr [OF ms] by auto
      have "routed c q" using route_invD(3) [OF R] q(1) by simp
      then obtain b where b: "fld q ''requestId'' = JStr b" "req_of c b = Some q" using routed_pending [of c q] tq by auto
      have "wire_ids (add_mset m U) M = add_mset (JStr a) (wire_ids U M)" using a by (simp add: wire_ids_def)
      then have "JStr a \<notin># wire_ids U M" using route_invD(1) [OF R] by (simp add: no_repeats_add)
      moreover have "JStr b \<in># wire_ids U M" using q(1) b(1) by (auto simp: wire_ids_def intro!: image_eqI)
      ultimately have "a \<noteq> b" by blast
      from two_asks [OF ids ask_invD(1) [OF A] a(2) b(2) this] show False using sr [OF ms] tq by simp
    qed
    show "settling y \<or> fld y ''type'' = JStr ''status'' \<or> fld y ''type'' = JStr ''opening''" if "y \<in># ops + {#r#}" for y
      using that opn(2) answers_settling [OF h(4)] by auto
  qed
  ultimately show ?thesis
    using assms(3) d(3,4) unfolding open_inv_def posts by (simp add: ac_simps)
qed

lemma event_open:
  assumes "authority_ok E A" and "authority_fits E A" and "open_inv E c U M st" and "revision st < 9007199254740991"
    and "event_ok event" and "host_event A E event st = (posts, st')"
  shows "open_inv E c U (M + mset (concat posts)) st'"
proof -
  have core: "core_ok E st" and ids: "ids_ok c" and subs: "subs_ok c" and R: "route_inv (instanceId st) c U M"
    and A: "ask_inv c U M st" and V: "view_inv c U M st" using assms(3) by (simp_all add: open_inv_def)
  have k: "core_inv E st" "wire_inv st" "listeners st = [0]" "\<not> closed st" using core by (simp_all add: core_ok_def)
  have d: "event_handled E st posts st'" "core_inv E st'" "wire_inv st'"
    using host_event_spec [OF assms(1,2) k(1-3) assms(4,5)] assms(6) by auto
  then have k': "core_ok E st'" "instanceId st' = instanceId st" using k by (simp_all add: event_handled_def handed_def core_ok_def)
  obtain us ums ss where h: "moves st us st'" "list_all2 (is_update (instanceId st)) us ums"
    "\<And>sid. sid \<in> fst ` set us \<Longrightarrow> held st sid" "mset (concat posts) = mset ums + mset (map statusMessage ss)"
  proof -
    obtain us where us: "moves st us st'" "\<And>sid. sid \<in> fst ` set us \<Longrightarrow> jm_get (subscriptions st) sid \<noteq> None"
      "us = [] \<and> posts = [] \<or> (\<exists>s. us = [] \<and> posts = [[statusMessage s]]) \<or>
        (\<exists>ums. posts = [ums] \<and> ums \<noteq> [] \<and> list_all2 (is_update (instanceId st)) us ums)"
      using d(1) unfolding event_handled_def by blast
    have held: "held st sid" if "sid \<in> fst ` set us" for sid using us(2) [OF that] by (simp add: held_def)
    from us(3) show ?thesis
    proof (elim disjE exE conjE)
      assume "us = []" "posts = []"
      then show ?thesis using that [of us "[]" "[]"] us(1) held by simp
    next
      fix s
      assume "us = []" "posts = [[statusMessage s]]"
      then show ?thesis using that [of us "[]" "[s]"] us(1) held by simp
    next
      fix ums
      assume "posts = [ums]" "list_all2 (is_update (instanceId st)) us ums"
      then show ?thesis using that [of us ums "[]"] us(1) held by simp
    qed
  qed
  let ?X = "mset (map statusMessage ss)"
  have status: "\<not> settling y" "fld y ''type'' = JStr ''status''" if "y \<in># ?X" for y
    using that by (auto simp: settling_def statusMessage_def)
  have quiet: "\<not> settling y" "fld y ''type'' \<noteq> JStr ''subscribed''" if y: "y \<in># mset ums + ?X" for y
  proof -
    from y consider "y \<in> set ums" | "y \<in># ?X" by auto
    then have "\<not> settling y \<and> fld y ''type'' \<noteq> JStr ''subscribed''" by cases (use updates_of(3) [OF h(2), of y] status [of y] in auto)
    then show "\<not> settling y" "fld y ''type'' \<noteq> JStr ''subscribed''" by blast+
  qed
  have "route_inv (instanceId st) c U (M + (mset ums + ?X))"
    unfolding route_inv_def
  proof (intro conjI allI impI)
    note R' = route_invD [OF R]
    have "wire_ids U (M + (mset ums + ?X)) = wire_ids U M" using quiet(1) by (rule quiet_wire)
    then show "no_repeats (wire_ids U (M + (mset ums + ?X)))" using R'(1) by simp
    show "\<exists>q. answers (instanceId st) q x \<and> routed c q" if "x \<in># M + (mset ums + ?X)" "settling x" for x
      using that R'(4) [of x] quiet(1) [of x] by auto
    show "q \<in># U \<or> (\<exists>x. x \<in># M + (mset ums + ?X) \<and> answers (instanceId st) q x)" if "req_of c rid = Some q" for rid q
      using R'(5) [OF that] by auto
  qed (rule route_invD [OF R]; assumption)+
  moreover have "ask_inv c U (M + (mset ums + ?X)) st'"
  proof (rule core_ask [OF assms(3)])
    show "held st' sid" if "held st sid" for sid
      using host_event_keeps [OF _ assms(6), of sid] that k(1) by (simp add: holds_def core_inv_def)
    show "held st' (sub_sid x)" if "x \<in># mset ums + ?X" "fld x ''type'' = JStr ''subscribed''" for x using quiet(2) [OF that(1)] that(2) by simp
  qed simp
  moreover have "view_inv c U (M + mset ums + ?X) st'"
    by (rule core_view [where F = "\<lambda>_. False", OF V subs h(1) k'(2) h(2)]) (use h(3) status(2) in auto)
  ultimately show ?thesis using assms(3) k' unfolding open_inv_def h(4) by (simp add: ac_simps)
qed

subsection \<open>The page sends a request\<close>

lemma jm_set_fresh: "jm_get m k = None \<Longrightarrow> jm_set k v m = m @ [(k, v)]"
  by (induction m) (auto simp: jm_set_def jm_get_def split: if_splits)

text \<open>What a request that was sent adds to the page.\<close>

lemma sent_fields:
  assumes "ids_ok c" and "\<not> pg_closed c" and "prepare call c = Some c1"
  defines "rid \<equiv> requestId_at (pg_clientId c) (Suc (pg_nextRequest c))"
    and "m \<equiv> request_message (c1\<lparr> pg_nextRequest := Suc (pg_nextRequest c1) \<rparr>) (requestId_at (pg_clientId c) (Suc (pg_nextRequest c))) call"
    and "c' \<equiv> fst (page_do True call c)"
  shows "snd (page_do True call c) = [m]" and "req_of c' = (req_of c)(rid \<mapsto> m)"
    and "mset (requests c') = add_mset m (mset (requests c))" and "issued c' = insert rid (issued c)" and "rid \<notin> issued c"
    and "pg_settled c' = pg_settled c" and "pg_instance c' = pg_instance c" and "pg_subscriptions c' = pg_subscriptions c1"
    and "pg_handed c' = pg_handed c1" and "pg_nextSubscription c' = pg_nextSubscription c1" and "fld m ''requestId'' = JStr rid"
    and "pg_closed c' = False"
proof -
  note fr = prepare_frame [OF assms(3)]
  have c': "page_do True call c = (c1\<lparr> pg_nextRequest := Suc (pg_nextRequest c1),
      pg_pending := jm_set rid \<lparr> q_request = m, q_timed = (case call of Hello _ _ _ _ \<Rightarrow> True | _ \<Rightarrow> False) \<rparr> (pg_pending c1) \<rparr>, [m])"
    using fr assms(2,3) by (simp add: page_do_def page_request_def Let_def rid_def m_def)
  have inv: "jm_inv (pg_pending c)" using assms(1) by (simp add: ids_ok_def)
  have "rid \<notin> set (jm_keys (pg_pending c))" using fresh_id(1) [OF assms(1)] by (simp add: rid_def)
  then have none: "jm_get (pg_pending c) rid = None" using jm.keys_dom [OF inv] by auto
  show "snd (page_do True call c) = [m]" using c' by simp
  show "req_of c' = (req_of c)(rid \<mapsto> m)" unfolding c'_def c' using fr inv by (auto simp: req_of_def fun_eq_iff jm.get_put)
  show "mset (requests c') = add_mset m (mset (requests c))" unfolding c'_def c' using fr none by (simp add: requests_def jm_set_fresh)
  show "issued c' = insert rid (issued c)" unfolding c'_def c' using fr by (auto simp: issued_def issued_ids_def rid_def)
  show "rid \<notin> issued c" by (auto simp: issued_def issued_ids_def rid_def)
  show "fld m ''requestId'' = JStr rid" by (simp add: m_def rid_def)
qed (use prepare_frame [OF assms(3)] assms(2,3) in \<open>simp_all add: c'_def page_do_def page_request_def Let_def\<close>)

lemma wire_issued:
  assumes "route_inv inst c U M" and "i \<in># wire_ids U M"
  shows "\<exists>rid. i = JStr rid \<and> rid \<in> issued c"
proof -
  from assms(2) consider m where "m \<in># U" "i = fld m ''requestId''" | r where "r \<in># M" "settling r" "i = fld r ''requestId''"
    by (auto simp: wire_ids_def)
  then show ?thesis
  proof cases
    case 1
    then show ?thesis using route_invD(3) [OF assms(1) 1(1)] by (auto simp: routed_def)
  next
    case 2
    obtain m where "answers inst m r" "routed c m" using route_invD(4) [OF assms(1) 2(1,2)] by blast
    then show ?thesis using 2(3) answers_settling [of inst m r] by (auto simp: routed_def)
  qed
qed

lemma well_sent_request: "well_sent (request_message c rid call)"
  by (cases call) (simp_all add: well_sent_def sub_sid_def)

lemma sent_route:
  assumes "ids_ok c" and "\<not> pg_closed c" and "prepare call c = Some c1" and "route_inv inst c U M" and "page_do True call c = (c', [m])"
  shows "route_inv inst c' (add_mset m U) M"
proof -
  let ?rid = "requestId_at (pg_clientId c) (Suc (pg_nextRequest c))"
  note F = sent_fields [OF assms(1-3)]
  have m: "m = request_message (c1\<lparr> pg_nextRequest := Suc (pg_nextRequest c1) \<rparr>) ?rid call" using F(1) assms(5) by simp
  have f: "req_of c' = (req_of c)(?rid \<mapsto> m)" "issued c' = insert ?rid (issued c)" "?rid \<notin> issued c" "pg_settled c' = pg_settled c"
    "fld m ''requestId'' = JStr ?rid" using F(2,4-6,11) assms(5) m by simp_all
  note R = route_invD [OF assms(4)]
  have old: "routed c' q" if q: "routed c q" for q
  proof -
    obtain rid where rid: "fld q ''requestId'' = JStr rid" "rid \<in> issued c"
      "req_of c rid = Some q \<or> req_of c rid = None \<and> fld q ''type'' = JStr ''hello''" using q unfolding routed_def by blast
    moreover have "rid \<noteq> ?rid" using rid(2) f(3) by blast
    ultimately show ?thesis unfolding routed_def f(1,2) by simp
  qed
  have "JStr ?rid \<notin># wire_ids U M" using wire_issued [OF assms(4)] f(3) by blast
  then have w: "no_repeats (wire_ids (add_mset m U) M)" using R(1) f(5) by (simp add: wire_ids_def no_repeats_add)
  show ?thesis
    unfolding route_inv_def f(4)
  proof (intro conjI allI impI)
    show "well_sent q" if "q \<in># add_mset m U" for q using that R(2) [of q] well_sent_request m by auto
    show "routed c' q" if "q \<in># add_mset m U" for q 
    proof (cases "q = m")
      case True
      then show ?thesis unfolding routed_def f(1,2) using f(5) by simp
    qed (use that R(3) [of q] old [of q] in simp)
    show "\<exists>q. answers inst q r \<and> routed c' q" if "r \<in># M" "settling r" for r using R(4) [OF that] old by blast
    show "q \<in># add_mset m U \<or> (\<exists>r. r \<in># M \<and> answers inst q r)" if "req_of c' rid = Some q" for rid q
      using that R(5) [of rid q] f(1) by (auto split: if_splits)
    show "no_repeats (wire_ids (add_mset m U) M)" by (rule w)
  qed (rule R; assumption)+
qed

text \<open>The three kinds of request: one that asks for a subscription, one that gives it up, and the others.\<close>

definition asked :: "page_client \<Rightarrow> page_client \<Rightarrow> jsval \<Rightarrow> bool" where
  "asked c c' m \<longleftrightarrow> fld m ''type'' = JStr ''subscribe'' \<and> fld m ''subscriptionId'' = JStr (subscription_at (Suc (pg_nextSubscription c))) \<and>
     pg_nextSubscription c' = Suc (pg_nextSubscription c) \<and> pg_handed c' = pg_handed c \<and>
     pg_subscriptions c' = jm_set (subscription_at (Suc (pg_nextSubscription c)))
       \<lparr> u_selection = fld m ''selection'', u_version = None, u_shown = [] \<rparr> (pg_subscriptions c)"

definition gave_up :: "page_client \<Rightarrow> page_client \<Rightarrow> jsval \<Rightarrow> bool" where
  "gave_up c c' m \<longleftrightarrow> (\<exists>sid. sid \<in> set (pg_handed c) \<and> fld m ''type'' = JStr ''unsubscribe'' \<and> fld m ''subscriptionId'' = JStr sid \<and>
     pg_nextSubscription c' = pg_nextSubscription c \<and> pg_handed c' = removeAll sid (pg_handed c) \<and>
     pg_subscriptions c' = jm_delete sid (pg_subscriptions c))"

definition plain_call :: "page_client \<Rightarrow> page_client \<Rightarrow> jsval \<Rightarrow> bool" where
  "plain_call c c' m \<longleftrightarrow> fld m ''type'' \<noteq> JStr ''subscribe'' \<and> fld m ''type'' \<noteq> JStr ''unsubscribe'' \<and>
     pg_nextSubscription c' = pg_nextSubscription c \<and> pg_handed c' = pg_handed c \<and> pg_subscriptions c' = pg_subscriptions c"

lemma sent_kinds:
  assumes "\<not> pg_closed c" and "prepare call c = Some c1" and "page_do True call c = (c', [m])"
  shows "asked c c' m \<and> (\<exists>sel. call = Subscribe sel) \<or> gave_up c c' m \<or> plain_call c c' m"
proof -
  have "pg_closed c1 = False" using prepare_frame [OF assms(2)] assms(1) by simp
  then have f: "pg_nextSubscription c' = pg_nextSubscription c1" "pg_handed c' = pg_handed c1" "pg_subscriptions c' = pg_subscriptions c1"
    and m: "m = request_message (c1\<lparr> pg_nextRequest := Suc (pg_nextRequest c1) \<rparr>) (requestId_at (pg_clientId c1) (Suc (pg_nextRequest c1))) call"
    using assms(2,3) by (auto simp: page_do_def page_request_def Let_def)
  show ?thesis
  proof (cases call)
    case (Subscribe sel)
    then have "c1 = c\<lparr> pg_nextSubscription := Suc (pg_nextSubscription c), pg_subscriptions := jm_set (subscription_at (Suc (pg_nextSubscription c)))
        \<lparr> u_selection = sel, u_version = None, u_shown = [] \<rparr> (pg_subscriptions c) \<rparr>"
      using assms(1,2) by (simp add: Let_def)
    then have "asked c c' m" unfolding asked_def f m Subscribe by simp
    then show ?thesis using Subscribe by blast
  next
    case (Unsubscribe sid)
    then have s: "sid \<in> set (pg_handed c)"
      "c1 = c\<lparr> pg_handed := removeAll sid (pg_handed c), pg_subscriptions := jm_delete sid (pg_subscriptions c) \<rparr>"
      using assms(1,2) by (auto split: if_splits)
    then have "gave_up c c' m" unfolding gave_up_def f m Unsubscribe by (intro exI [of _ sid]) simp
    then show ?thesis by blast
  qed (use assms(2) f m in \<open>simp_all add: plain_call_def\<close>)
qed

lemma sid_fresh: "subscription_at (Suc (pg_nextSubscription c)) \<notin> issued_sids c"
  by (auto simp: issued_sids_def)

lemma asked_fields:
  assumes "subs_ok c" and "asked c c' m"
  defines "sid \<equiv> subscription_at (Suc (pg_nextSubscription c))"
  shows "issued_sids c' = insert sid (issued_sids c)" and "sub_sid m = sid" and "ask_of m = {#sid#}"
    and "jm_get (pg_subscriptions c') = (jm_get (pg_subscriptions c))(sid \<mapsto> \<lparr> u_selection = fld m ''selection'', u_version = None, u_shown = [] \<rparr>)"
    and "sub_request m s \<longleftrightarrow> s = sid"
  using assms by (auto simp: asked_def issued_sids_def sub_sid_def ask_of_def subs_ok_def jm.get_put atLeastAtMostSuc_conv sub_request_def)

lemma sent_wanted:
  assumes "ids_ok c" and "\<not> pg_closed c" and "prepare call c = Some c1" and "page_do True call c = (c', [m])"
  shows "wanted c' = ask_of m + asks c + mset (pg_handed c')"
proof -
  have "m = request_message (c1\<lparr> pg_nextRequest := Suc (pg_nextRequest c1) \<rparr>) (requestId_at (pg_clientId c) (Suc (pg_nextRequest c))) call"
    using sent_fields(1) [OF assms(1-3)] assms(4) by simp
  then have "mset (requests c') = add_mset m (mset (requests c))" using sent_fields(3) [OF assms(1-3)] assms(4) by simp
  then show ?thesis by (simp add: wanted_def asks_def)
qed

lemma sent_ask:
  assumes "open_inv E c U M st" and "\<not> pg_closed c" and "prepare call c = Some c1" and "page_do True call c = (c', [m])"
  shows "ask_inv c' (add_mset m U) M st"
proof -
  have ids: "ids_ok c" and subs: "subs_ok c" and A: "ask_inv c U M st" using assms(1) by (simp_all add: open_inv_def)
  note A = ask_invD [OF A]
  have want: "wanted c' = ask_of m + asks c + mset (pg_handed c')" using sent_wanted [OF ids assms(2-4)] .
  have set: "pg_settled c' = pg_settled c" using sent_fields(6) [OF ids assms(2,3)] assms(4) by simp
  from sent_kinds [OF assms(2-4)] show ?thesis
  proof (elim disjE conjE)
    assume k: "asked c c' m"
    let ?sid = "subscription_at (Suc (pg_nextSubscription c))"
    note K = asked_fields [OF subs k]
    have h: "pg_handed c' = pg_handed c" and ty: "fld m ''type'' = JStr ''subscribe''" using k by (simp_all add: asked_def)
    have w: "wanted c' = add_mset ?sid (wanted c)" using want K(3) h by (simp add: wanted_def)
    have new: "?sid \<notin># wanted c" using A(2) sid_fresh by blast
    show ?thesis
      unfolding ask_inv_def w K(1,4) set h
    proof (intro conjI allI impI)
      show "no_repeats (add_mset ?sid (wanted c))" using A(1) new by (simp add: no_repeats_add)
      show "s \<in> insert ?sid (issued_sids c)" if "s \<in># add_mset ?sid (wanted c)" for s using that A(2) [of s] by auto
      show "((jm_get (pg_subscriptions c))(?sid \<mapsto> \<lparr> u_selection = fld m ''selection'', u_version = None, u_shown = [] \<rparr>)) s \<noteq> None"
        if "s \<in># add_mset ?sid (wanted c)" for s using that A(3) [of s] by auto
      fix q
      assume q: "q \<in># add_mset m U" "fld q ''type'' = JStr ''unsubscribe''"
      then have "q \<in># U" using ty by auto
      then have "sub_sid q \<in> issued_sids c" "sub_sid q \<notin># wanted c" using A(4,5) q(2) by blast+
      then show "sub_sid q \<in> insert ?sid (issued_sids c)" "sub_sid q \<notin># add_mset ?sid (wanted c)" using sid_fresh [of c] by auto
    qed (rule A; assumption)+
  next
    assume "gave_up c c' m"
    then obtain sid where k: "sid \<in> set (pg_handed c)" "fld m ''type'' = JStr ''unsubscribe''" "fld m ''subscriptionId'' = JStr sid"
      "pg_nextSubscription c' = pg_nextSubscription c" "pg_handed c' = removeAll sid (pg_handed c)"
      "pg_subscriptions c' = jm_delete sid (pg_subscriptions c)" by (auto simp: gave_up_def)
    have i: "issued_sids c' = issued_sids c" using k(4) by (simp add: issued_sids_def)
    have get: "jm_get (pg_subscriptions c') = (jm_get (pg_subscriptions c))(sid := None)" using k(6) subs by (simp add: subs_ok_def jm.get_del)
    have "mset (removeAll sid (pg_handed c)) \<subseteq># mset (pg_handed c)"
      by (simp add: removeAll_filter_not_eq mset_filter)
    then have w: "wanted c' \<subseteq># wanted c" using want k(2,5) by (simp add: wanted_def ask_of_def)
    have in_w: "s \<in># wanted c" if "s \<in># wanted c'" for s using mset_subset_eqD [OF w that] .
    have "sid \<notin># asks c"
    proof
      assume "sid \<in># asks c"
      then obtain X where "asks c = add_mset sid X" by (meson mset_add)
      moreover obtain Y where "mset (pg_handed c) = add_mset sid Y" using k(1) by (metis mset_add set_mset_mset)
      ultimately show False using A(1) by (simp add: wanted_def no_repeats_add)
    qed
    then have gone: "sid \<notin># wanted c'" using want k(2,5) by (simp add: ask_of_def)
    have sub: "sub_sid m = sid" using k(3) by (simp add: sub_sid_def)
    show ?thesis
      unfolding ask_inv_def i get set
    proof (intro conjI allI impI)
      show "no_repeats (wanted c')" using A(1) w by (rule no_repeats_mono)
      show "s \<in> issued_sids c" if "s \<in># wanted c'" for s using A(2) [OF in_w [OF that]] .
      show "((jm_get (pg_subscriptions c))(sid := None)) s \<noteq> None" if "s \<in># wanted c'" for s using A(3) [OF in_w [OF that]] that gone by auto
      fix q
      assume q: "q \<in># add_mset m U" "fld q ''type'' = JStr ''unsubscribe''"
      show "sub_sid q \<in> issued_sids c" using q A(4) [of q] sub A(2) [of sid] k(1) by (auto simp: wanted_def)
      show "sub_sid q \<notin># wanted c'" using q A(5) [of q] sub gone in_w by auto
    next
      show "held st s" if "s \<in> set (pg_handed c')" for s using that A(6) [of s] k(5) by simp
    qed (rule A; assumption)+
  next
    assume k: "plain_call c c' m"
    then have w: "wanted c' = wanted c" using want by (simp add: plain_call_def wanted_def ask_of_def)
    have i: "issued_sids c' = issued_sids c" "pg_handed c' = pg_handed c" "pg_subscriptions c' = pg_subscriptions c" "fld m ''type'' \<noteq> JStr ''unsubscribe''"
      using k by (simp_all add: plain_call_def issued_sids_def)
    show ?thesis
      unfolding ask_inv_def w i(1-3) set
    proof (intro conjI allI impI)
      show "no_repeats (wanted c)" by (rule A(1))
      show "sub_sid q \<in> issued_sids c" "sub_sid q \<notin># wanted c" if "q \<in># add_mset m U" "fld q ''type'' = JStr ''unsubscribe''" for q
        using that A(4,5) [of q] i(4) by auto
    qed (rule A; assumption)+
  qed
qed

text \<open>A request that asks for no subscription leaves the views alone, whatever it removes.\<close>

lemma unasked_view:
  assumes "view_inv c U M st" and "issued_sids c' = issued_sids c" and "pg_instance c' = pg_instance c"
    and had: "\<And>sid u. jm_get (pg_subscriptions c') sid = Some u \<Longrightarrow> jm_get (pg_subscriptions c) sid = Some u"
    and "fld m ''type'' \<noteq> JStr ''subscribe''"
  shows "view_inv c' (add_mset m U) M st"
proof -
  note V = view_invD [OF assms(1)]
  have up: "q \<in># U" if "q \<in># add_mset m U" "sub_request q sid" for q sid using that assms(5) by (auto simp: sub_request_def)
  have fly: "flown c' st q" if "flown c st q" for q using that had unfolding flown_def assms(2) by blast
  show ?thesis
    unfolding view_inv_def assms(2,3)
  proof (intro conjI allI impI)
    show "settling q \<or> fld q ''type'' = JStr ''status'' \<or> fld q ''type'' = JStr ''opening'' \<or> flown c' st q" if "q \<in># M" for q
      using V(2) [OF that] fly [of q] by blast
    show "pg_instance c = Some (JStr (instanceId st))" if "jm_get (pg_subscriptions c') sid = Some u" for sid u
      using V(3) [OF had [OF that]] .
    show "version_of_core st w" if "jm_get (pg_subscriptions c') sid = Some u" "u_version u = Some w" for sid u w
      using V(4) [OF had [OF that(1)] that(2)] .
    show "\<not> held st sid" "updateMessage sid v x \<notin># M" if "q \<in># add_mset m U" "sub_request q sid" for q sid v x
      using V(5,6) [OF up [OF that] that(2)] .
    show "u_selection u = fld q ''selection''" "u_shown u = []"
      if "q \<in># add_mset m U" "sub_request q sid" "jm_get (pg_subscriptions c') sid = Some u" for q sid u
      using V(7,8) [OF up [OF that(1,2)] that(2) had [OF that(3)]] .
    show "u_selection u = s_selection s" "best (seen u M sid) (s_value s)"
      if "jm_get (pg_subscriptions c') sid = Some u" "jm_get (subscriptions st) sid = Some s" for sid u s
      using V(9,10) [OF had [OF that(1)] that(2)] .
  qed (rule V; assumption)
qed

lemma asked_view:
  assumes "open_inv E c U M st" and "asked c c' m" and "pg_instance c = Some (JStr (instanceId st))" and "pg_instance c' = pg_instance c"
  shows "view_inv c' (add_mset m U) M st"
proof -
  have ids: "ids_ok c" and subs: "subs_ok c" and R: "route_inv (instanceId st) c U M" and A: "ask_inv c U M st" and V: "view_inv c U M st"
    using assms(1) by (simp_all add: open_inv_def)
  let ?sid = "subscription_at (Suc (pg_nextSubscription c))"
  let ?u = "\<lparr> u_selection = fld m ''selection'', u_version = None, u_shown = [] \<rparr>"
  note V = view_invD [OF V] and K = asked_fields [OF subs assms(2)]
  have old: "s \<noteq> ?sid" if "s \<in> issued_sids c" for s using that sid_fresh by blast
  have fly: "flown c' st q" if f: "flown c st q" for q
  proof -
    obtain s v x where q: "q = updateMessage s v x" "v_instance v = instanceId st" "v_revision v \<le> revision st" "s \<in> issued_sids c"
      "\<forall>u. jm_get (pg_subscriptions c) s = Some u \<longrightarrow> selectionMatches (u_selection u) x" using f unfolding flown_def by blast
    have "\<forall>u. jm_get (pg_subscriptions c') s = Some u \<longrightarrow> selectionMatches (u_selection u) x" using q(5) old [OF q(4)] by (simp add: K(4))
    then show ?thesis unfolding flown_def K(1) using q(1-4) by blast
  qed
  have unheld: "\<not> held st ?sid" using V(1) sid_fresh by blast
  have unseen: "updateMessage ?sid v x \<notin># M" for v x
  proof
    assume "updateMessage ?sid v x \<in># M"
    from V(2) [OF this] have "?sid \<in> issued_sids c" by (auto simp: flown_def)
    then show False using sid_fresh by blast
  qed
  have up: "s \<noteq> ?sid" if "q \<in># U" "sub_request q s" for q s
  proof -
    have t: "fld q ''type'' = JStr ''subscribe''" "sub_sid q = s" using that(2) by (simp_all add: sub_request_def sub_sid_def)
    from ask_invD(2) [OF A routed_wanted [OF ids route_invD(3) [OF R that(1)] t(1)]] show ?thesis using old t(2) by blast
  qed
  show ?thesis
    unfolding view_inv_def K(1,4) assms(4)
  proof (intro conjI allI impI)
    show "s \<in> insert ?sid (issued_sids c)" if "held st s" for s using V(1) [OF that] by simp
    show "settling q \<or> fld q ''type'' = JStr ''status'' \<or> fld q ''type'' = JStr ''opening'' \<or> flown c' st q" if "q \<in># M" for q
      using V(2) [OF that] fly [of q] by blast
    show "pg_instance c = Some (JStr (instanceId st))" by (rule assms(3))
    show "version_of_core st w" if "((jm_get (pg_subscriptions c))(?sid \<mapsto> ?u)) s = Some u" "u_version u = Some w" for s u w
      using that V(4) [of s u w] by (auto split: if_splits)
    show "\<not> held st s" "updateMessage s v x \<notin># M" if q: "q \<in># add_mset m U" "sub_request q s" for q s v x
      using q V(5,6) [of q s] K(5) [of s] unheld unseen by auto
    show "u_selection u = fld q ''selection''" "u_shown u = []"
      if q: "q \<in># add_mset m U" "sub_request q s" "((jm_get (pg_subscriptions c))(?sid \<mapsto> ?u)) s = Some u" for q s u
      using q V(7,8) [of q s u] K(5) [of s] up [of q s] by (auto split: if_splits)
    show "u_selection u = s_selection z" "best (seen u M s) (s_value z)"
      if p: "((jm_get (pg_subscriptions c))(?sid \<mapsto> ?u)) s = Some u" "jm_get (subscriptions st) s = Some z" for s u z
    proof -
      have "s \<noteq> ?sid" using p(2) unheld by (auto simp: held_def)
      then show "u_selection u = s_selection z" "best (seen u M s) (s_value z)" using p V(9,10) [of s u z] by simp_all
    qed
  qed
qed

lemma sent_open:
  assumes "open_inv E c U M st" and "\<not> pg_closed c" and "call_ready call c" and "prepare call c = Some c1" and "page_do True call c = (c', [m])"
  shows "open_inv E c' (add_mset m U) M st"
proof -
  have ids: "ids_ok c" and subs: "subs_ok c" and R: "route_inv (instanceId st) c U M" and V: "view_inv c U M st"
    and inst: "pg_instance c = None \<or> pg_instance c = Some (JStr (instanceId st))" using assms(1) by (simp_all add: open_inv_def)
  have i: "pg_instance c' = pg_instance c" using sent_fields(7) [OF ids assms(2,4)] assms(5) by simp
  have "view_inv c' (add_mset m U) M st"
    using sent_kinds [OF assms(2,4,5)]
  proof (elim disjE conjE exE)
    fix sel
    assume k: "asked c c' m" and s: "call = Subscribe sel"
    have "pg_instance c = Some (JStr (instanceId st))" using assms(3) s inst by (auto simp: call_ready_def)
    then show ?thesis using asked_view [OF assms(1) k _ i] by blast
  next
    assume k: "gave_up c c' m"
    then show ?thesis
      using subs by (intro unasked_view [OF V _ i]) (auto simp: gave_up_def issued_sids_def subs_ok_def jm.get_del split: if_splits)
  next
    assume k: "plain_call c c' m"
    then show ?thesis by (intro unasked_view [OF V _ i]) (auto simp: plain_call_def issued_sids_def)
  qed
  moreover have "ids_ok c'" "subs_ok c'" using page_do_ids [OF ids, of True call] page_do_subs [OF subs, of True call] assms(5) by simp_all
  ultimately show ?thesis
    using sent_route [OF ids assms(2,4) R assms(5)] sent_ask [OF assms(1,2,4,5)] assms(1) i by (simp add: open_inv_def)
qed

lemma call_open:
  assumes "open_inv E c U M st" and "\<not> pg_closed c" and "call_ready call c" and "page_do sends call c = (c', ms)"
  shows "open_inv E c' (U + mset ms) M st"
proof (cases "prepare call c")
  case None
  then show ?thesis using assms(1,4) by (simp add: page_do_def)
next
  case (Some c1)
  have ids: "ids_ok c" using assms(1) by (simp add: open_inv_def)
  let ?rid = "requestId_at (pg_clientId c) (Suc (pg_nextRequest c))"
  obtain c2 m where t: "page_do True call c = (c2, [m])" using sent_fields(1) [OF ids assms(2) Some] by (cases "page_do True call c") auto
  have o: "open_inv E c2 (add_mset m U) M st" using sent_open [OF assms(1-3) Some t] .
  show ?thesis
  proof (cases sends)
    case True
    then show ?thesis using o t assms(4) by auto
  next
    case False
    have m: "fld m ''requestId'' = JStr ?rid" using sent_fields(1,11) [OF ids assms(2) Some] t by simp
    have eq: "c' = resume_all (settle ?rid (Inl SendFailed) c2)" "ms = []"
      using False t assms(2,4) Some prepare_frame [OF Some] by (auto simp: page_do_def page_request_def Let_def)
    have R: "route_inv (instanceId st) c2 (add_mset m U) M" using o by (simp add: open_inv_def)
    have "wire_ids (add_mset m U) M = add_mset (JStr ?rid) (wire_ids U M)" using m by (simp add: wire_ids_def)
    then have "JStr ?rid \<notin># wire_ids U M" using route_invD(1) [OF R] by (simp add: no_repeats_add)
    then have "loose c2 ?rid U M" by (simp add: loose_def)
    moreover have "shrinks ?rid (add_mset m U) U" using m by (auto simp: shrinks_def)
    ultimately have "open_inv E (settle ?rid (Inl SendFailed) c2) U M st" using o by (intro settle_open [OF o]) simp_all
    then show ?thesis using eq resume_all_open by simp
  qed
qed

end
