(* ===== verification/EndToEnd.thy ===== *)
theory EndToEnd
  imports Channel
begin

text \<open>
  The page and the worker joined by the two directions of a message channel. Posted messages are served and
  delivered in any order, which covers the order of a port, so nothing below rests on it. The page is used as its
  callers do: everything but \<open>hello\<close> waits for the first \<open>ready\<close>.
\<close>

section \<open>The two ends and what is between them\<close>

record 'w system =
  y_page :: page_client
  y_up :: "jsval list"
  y_down :: "jsval list list"
  y_core :: "'w core"

inductive system_step :: "'w authority \<Rightarrow> js_env \<Rightarrow> 'w system \<Rightarrow> 'w system \<Rightarrow> bool"
  for A :: "'w authority" and E :: js_env where
  sys_call: "call_ready call (y_page y) \<Longrightarrow> page_do sends call (y_page y) = (c, ms) \<Longrightarrow>
     system_step A E y (y\<lparr> y_page := c, y_up := y_up y @ ms \<rparr>)"
| sys_serve: "y_up y = xs @ m # ys \<Longrightarrow> revision (y_core y) < 9007199254740991 \<Longrightarrow> host_dispatch A E m (y_core y) = (posts, st) \<Longrightarrow>
     system_step A E y (y\<lparr> y_up := xs @ ys, y_down := y_down y @ posts, y_core := st \<rparr>)"
| sys_event: "event_ok event \<Longrightarrow> revision (y_core y) < 9007199254740991 \<Longrightarrow> host_event A E event (y_core y) = (posts, st) \<Longrightarrow>
     system_step A E y (y\<lparr> y_down := y_down y @ posts, y_core := st \<rparr>)"
| sys_deliver: "y_down y = xs @ b # ys \<Longrightarrow> system_step A E y (y\<lparr> y_page := page_batch b (y_page y), y_down := xs @ ys \<rparr>)"
| sys_timeout: "jm_get (pg_pending (y_page y)) rid = Some p \<Longrightarrow> fld (q_request p) ''type'' = JStr ''hello'' \<Longrightarrow>
     system_step A E y (y\<lparr> y_page := page_timeout rid (y_page y) \<rparr>)"
| sys_close: "system_step A E y (y\<lparr> y_page := page_close (y_page y) \<rparr>)"

definition system_start :: "'w system \<Rightarrow> bool" where
  "system_start y \<longleftrightarrow> (\<exists>clientId inst w. text_ok inst \<and>
     y = \<lparr> y_page = new_page clientId, y_up = [], y_down = [], y_core = core_listen 0 (new_core inst w) \<rparr>)"

definition system_inv :: "js_env \<Rightarrow> 'w system \<Rightarrow> bool" where
  "system_inv E y \<longleftrightarrow> pg_closed (y_page y) \<or>
     pg_settled (y_page y) = [] \<and> open_inv E (y_page y) (mset (y_up y)) (mset (concat (y_down y))) (y_core y)"


subsection \<open>Every step keeps the invariant\<close>

lemma page_do_closed: "pg_closed (fst (page_do sends call c)) = pg_closed c"
  by (auto simp: page_do_def page_request_def Let_def dest!: prepare_frame split: option.split)

lemma batch_closed: "pg_closed (fold page_receive b c) = pg_closed c"
  by (induction b arbitrary: c) simp_all

lemma timeout_open:
  assumes "open_inv E c U M st" and "jm_get (pg_pending c) rid = Some p" and "fld (q_request p) ''type'' = JStr ''hello''"
  shows "open_inv E (page_timeout rid c) U M st"
proof -
  have "loose c rid U M" using assms(2,3) by (simp add: loose_def req_of_def)
  then have "open_inv E (settle rid (Inl (ServiceError startupTimeout)) c) U M st"
    by (intro settle_open [OF assms(1)]) simp_all
  then show ?thesis unfolding page_timeout_def by (rule resume_all_open)
qed

lemma system_start_inv:
  assumes "system_start y"
  shows "system_inv E y"
proof -
  obtain clientId inst w where t: "text_ok inst"
    and y: "y = \<lparr> y_page = new_page clientId, y_up = [], y_down = [], y_core = core_listen 0 (new_core inst w) \<rparr>"
    using assms by (auto simp: system_start_def)
  let ?c = "new_page clientId" and ?k = "core_listen 0 (new_core inst w)"
  have "page_inv ?c" using pag.inv_start by (auto simp: page_start_def)
  then have p: "ids_ok ?c" "subs_ok ?c" by (simp_all add: page_inv_def)
  have "relayMembership JNull" by (simp add: relayMembership_def nullable_def)
  then have "core_ok E ?k"
    using t by (simp add: core_ok_def core_listen_def core_inv_def new_core_def digests_ok_def versions_ok_def wire_inv_def)
  moreover have w: "wanted ?c = {#}" "requests ?c = []" by (simp_all add: wanted_def asks_def requests_def new_page_def)
  moreover have "route_inv (instanceId ?k) ?c {#} {#}"
    by (simp add: route_inv_def wire_ids_def no_repeats_def req_of_def new_page_def jm_get_def)
  moreover have "ask_inv ?c {#} {#} ?k" using w by (simp add: ask_inv_def no_repeats_def) (simp add: new_page_def)
  moreover have "view_inv ?c {#} {#} ?k"
    by (simp add: view_inv_def held_def core_listen_def new_core_def new_page_def jm_get_def)
  ultimately show ?thesis using p by (simp add: system_inv_def open_inv_def y) (simp add: new_page_def)
qed

lemma system_step_inv:
  assumes "authority_ok E A" and "authority_fits E A" and "system_inv E y" and "system_step A E y z"
  shows "system_inv E z"
proof (cases "pg_closed (y_page y)")
  case True
  have "pg_closed (y_page z)"
    using assms(4)
  proof cases
    case (sys_call call sends c ms)
    then show ?thesis using True page_do_closed [of sends call "y_page y"] by simp
  qed (simp_all add: True page_batch_def page_timeout_def page_close_def batch_closed)
  then show ?thesis by (simp add: system_inv_def)
next
  case False
  then have o: "open_inv E (y_page y) (mset (y_up y)) (mset (concat (y_down y))) (y_core y)" and s: "pg_settled (y_page y) = []"
    using assms(3) by (simp_all add: system_inv_def)
  from assms(4) show ?thesis
  proof cases
    case (sys_call call sends c ms)
    then show ?thesis
      using call_open [OF o False sys_call(2,3)] settled_after(4) [OF s, of sends call] by (simp add: system_inv_def)
  next
    case (sys_serve xs m ys posts st)
    have "open_inv E (y_page y) (add_mset m (mset (xs @ ys))) (mset (concat (y_down y))) (y_core y)" using o sys_serve(2) by simp
    from serve_open [OF assms(1,2) this sys_serve(3,4)] show ?thesis using sys_serve(1) s by (simp add: system_inv_def)
  next
    case (sys_event event posts st)
    from event_open [OF assms(1,2) o sys_event(3,2,4)] show ?thesis using sys_event(1) s by (simp add: system_inv_def)
  next
    case (sys_deliver xs b ys)
    have "open_inv E (y_page y) (mset (y_up y)) (mset b + mset (concat (xs @ ys))) (y_core y)" using o sys_deliver(2) by (simp add: ac_simps)
    from resume_all_open [OF batch_open [OF this False]] show ?thesis using sys_deliver(1) by (simp add: system_inv_def page_batch_def)
  next
    case (sys_timeout rid p)
    from timeout_open [OF o sys_timeout(2,3)] show ?thesis using sys_timeout(1) by (simp add: system_inv_def)
  next
    case sys_close
    then show ?thesis using False by (simp add: system_inv_def page_close_def)
  qed
qed

interpretation sys: stepping "\<lambda>y. authority_ok E A \<and> authority_fits E A \<and> system_start y" "system_step A E"
  "\<lambda>y. authority_ok E A \<and> authority_fits E A \<and> system_inv E y" for A E
  by unfold_locales (use system_start_inv system_step_inv in blast)+

lemma system_reachable:
  assumes "authority_ok E A" and "authority_fits E A" and "system_start y0" and "(system_step A E)\<^sup>*\<^sup>* y0 y" and "\<not> pg_closed (y_page y)"
  shows "open_inv E (y_page y) (mset (y_up y)) (mset (concat (y_down y))) (y_core y)"
  using sys.inv_reachable [OF _ assms(4)] assms(1,2,3,5) by (auto simp: system_inv_def)

section \<open>What the page can rely on\<close>

text \<open>C5: No request is lost or answered wrongly. Whatever the order in which messages are served and delivered, every
  request the page still waits for is on its way to the worker or has its answer on its way back, every reply on its
  way is an error or one the page matches to the request with that id, and once both channels are empty nothing is
  left waiting.\<close>

theorem requests_answered:
  assumes "authority_ok E A" and "authority_fits E A" and "system_start y0" and "(system_step A E)\<^sup>*\<^sup>* y0 y" and "\<not> pg_closed (y_page y)"
  shows "(\<forall>rid p. jm_get (pg_pending (y_page y)) rid = Some p \<longrightarrow>
       q_request p \<in> set (y_up y) \<or> (\<exists>r \<in> set (concat (y_down y)). settling r \<and> fld r ''requestId'' = JStr rid)) \<and>
     (\<forall>r \<in> set (concat (y_down y)). \<forall>p. settling r \<longrightarrow> jm_get (pg_pending (y_page y)) (strOf (fld r ''requestId'')) = Some p \<longrightarrow>
       fld r ''type'' = JStr ''error'' \<or> replyMatches (q_request p) r (pg_instance (y_page y))) \<and>
     (y_up y = [] \<longrightarrow> y_down y = [] \<longrightarrow> pg_pending (y_page y) = [])"
proof -
  let ?c = "y_page y" and ?U = "mset (y_up y)" and ?M = "mset (concat (y_down y))" and ?i = "instanceId (y_core y)"
  have ids: "ids_ok ?c" and R: "route_inv ?i ?c ?U ?M" and inst: "pg_instance ?c = None \<or> pg_instance ?c = Some (JStr ?i)"
    using system_reachable [OF assms] by (simp_all add: open_inv_def)
  have req: "req_of ?c rid = Some (q_request p)" if "jm_get (pg_pending ?c) rid = Some p" for rid p using that by (simp add: req_of_def)
  have a: "q_request p \<in> set (y_up y) \<or> (\<exists>r \<in> set (concat (y_down y)). settling r \<and> fld r ''requestId'' = JStr rid)"
    if "jm_get (pg_pending ?c) rid = Some p" for rid p
    using route_invD(5) [OF R req [OF that]] answers_settling req_of_id [OF ids req [OF that]] by fastforce
  have b: "fld r ''type'' = JStr ''error'' \<or> replyMatches (q_request p) r (pg_instance ?c)"
    if r: "r \<in> set (concat (y_down y))" "settling r" "jm_get (pg_pending ?c) (strOf (fld r ''requestId'')) = Some p" for r p
  proof -
    obtain m where m: "answers ?i m r" "routed ?c m" using route_invD(4) [OF R _ r(2)] r(1) by auto
    then have "q_request p = m" using req [OF r(3)] answers_settling [OF m(1)] by (auto simp: routed_def)
    then show ?thesis using m(1) inst replyMatches_any [of m r] by (auto simp: answers_def)
  qed
  have "pg_pending ?c = []" if "y_up y = []" "y_down y = []"
  proof (rule ccontr)
    assume "pg_pending ?c \<noteq> []"
    then obtain rid p where "(rid, p) \<in> set (pg_pending ?c)" by (cases "pg_pending ?c") auto
    then have "jm_get (pg_pending ?c) rid = Some p" using ids by (simp add: ids_ok_def jm_inv_def jm_get_def)
    from a [OF this] show False using that by simp
  qed
  then show ?thesis using a b by blast
qed

text \<open>C6: The page shows what the worker holds. Once everything posted was delivered, each subscription a caller holds is
  also held by the worker, for the same selection, and the value its listener was last called with is the one the
  worker holds, whatever the order in which updates and replies arrived.\<close>

theorem views_agree:
  assumes "authority_ok E A" and "authority_fits E A" and "system_start y0" and "(system_step A E)\<^sup>*\<^sup>* y0 y" and "\<not> pg_closed (y_page y)"
    and "y_down y = []" and "sid \<in> set (pg_handed (y_page y))"
  shows "\<exists>u s. jm_get (pg_subscriptions (y_page y)) sid = Some u \<and> jm_get (subscriptions (y_core y)) sid = Some s \<and>
     u_selection u = s_selection s \<and> u_shown u \<noteq> [] \<and> fst (last (u_shown u)) = s_value s"
proof -
  have A: "ask_inv (y_page y) (mset (y_up y)) {#} (y_core y)" and V: "view_inv (y_page y) (mset (y_up y)) {#} (y_core y)"
    using system_reachable [OF assms(1-5)] assms(6) by (simp_all add: open_inv_def)
  obtain u where u: "jm_get (pg_subscriptions (y_page y)) sid = Some u" using ask_invD(3) [OF A, of sid] assms(7) by (auto simp: wanted_def)
  obtain s where s: "jm_get (subscriptions (y_core y)) sid = Some s" using ask_invD(6) [OF A assms(7)] by (auto simp: held_def)
  have "\<exists>r. (r, s_value s) \<in> seen u {#} sid" using view_invD(10) [OF V u s] unfolding best_def by blast
  then have "u_shown u \<noteq> []" "fst (last (u_shown u)) = s_value s" by (auto simp: seen_def)
  then show ?thesis using u s view_invD(9) [OF V u s] by blast
qed

section \<open>The channels drain\<close>

lemma updatesOrNone_revision: "updatesOrNone A E affected st = (ms, st') \<Longrightarrow> revision st' = revision st"
  using updatesOrNone_frame by blast

lemma core_handle_revision:
  assumes "core_handle A E m st = (res, st')"
  shows "revision st' \<le> Suc (revision st)"
proof -
  have c: ?thesis if "core_command A E m st = (res, st')"
    using that by (auto simp: core_command_def Let_def bump_def dest!: updatesOrNone_revision split: option.splits if_splits prod.splits sum.splits)
  have o: ?thesis if "core_observe A E m st = (res, st')"
    using that by (auto simp: core_observe_def Let_def bump_def dest!: updatesOrNone_revision split: if_splits prod.splits sum.splits)
  have t: ?thesis if "core_task A E m st = (res, st')"
    using that by (auto simp: core_task_def Let_def dest!: updatesOrNone_revision split: prod.splits sum.splits)
  have q: ?thesis if "core_query A m st = (res, st')"
    using that by (auto simp: core_query_def Let_def split: prod.splits sum.splits)
  have s: ?thesis if "core_subscribe A E m st = (res, st')"
    using that by (auto simp: core_subscribe_def Let_def split: prod.splits sum.splits)
  have u: ?thesis if "core_unsubscribe m st = (res, st')" using that by (auto simp: core_unsubscribe_def Let_def)
  show ?thesis using assms c o t q s u by (auto simp: core_handle_def Let_def split: if_splits)
qed

lemma core_hello_revision: "revision (snd (core_hello A m st)) = revision st"
  by (auto simp: core_hello_def Let_def fold_publish_revision split: option.split prod.split sum.split thrown.split bool.split)

lemma host_dispatch_revision:
  assumes "host_dispatch A E m st = (posts, st')"
  shows "revision st' \<le> Suc (revision st)"
proof (cases "decodeLibraryServiceClientMessage E m")
  case (Inr q)
  obtain ms st1 where d: "core_dispatch A E q st = (ms, st1)" by (cases "core_dispatch A E q st")
  obtain res st2 where h: "core_handle A E q st = (res, st2)" by (cases "core_handle A E q st")
  have "revision st1 \<le> Suc (revision st)"
  proof (cases "decodeLibraryServiceClientMessage E q")
    case (Inr p)
    obtain res st2 where h: "core_handle A E p st = (res, st2)" by (cases "core_handle A E p st")
    show ?thesis
      using d h Inr core_handle_revision [OF h] core_hello_revision [of A p st]
      by (cases res) (auto simp: core_dispatch_def Let_def split: if_splits)
  qed (use d in \<open>simp add: core_dispatch_def\<close>)
  then show ?thesis using assms Inr d by (simp add: host_dispatch_def)
qed (use assms in \<open>simp add: host_dispatch_def\<close>)

text \<open>The worker serves what was sent and the page reads what was posted; nobody calls, closes or gives up.\<close>

inductive exchange_step :: "'w authority \<Rightarrow> js_env \<Rightarrow> 'w system \<Rightarrow> 'w system \<Rightarrow> bool"
  for A :: "'w authority" and E :: js_env where
  ex_serve: "y_up y = xs @ m # ys \<Longrightarrow> revision (y_core y) < 9007199254740991 \<Longrightarrow> host_dispatch A E m (y_core y) = (posts, st) \<Longrightarrow>
     exchange_step A E y (y\<lparr> y_up := xs @ ys, y_down := y_down y @ posts, y_core := st \<rparr>)"
| ex_deliver: "y_down y = xs @ b # ys \<Longrightarrow> exchange_step A E y (y\<lparr> y_page := page_batch b (y_page y), y_down := xs @ ys \<rparr>)"

lemma exchange_is_step: "exchange_step A E y z \<Longrightarrow> system_step A E y z"
  by (erule exchange_step.cases) (auto intro: sys_serve sys_deliver)

lemma exchange_are_steps: "(exchange_step A E)\<^sup>*\<^sup>* y z \<Longrightarrow> (system_step A E)\<^sup>*\<^sup>* y z"
  by (rule mono_rtranclp [rule_format]) (rule exchange_is_step)

lemma receive_next: "pg_nextRequest (page_receive m c) = pg_nextRequest c"
proof -
  have "pg_nextRequest (failAll e d) = pg_nextRequest d" for e d by (simp add: failAll_def rejectAll_def Let_def)
  then show ?thesis by (simp add: page_receive_def receive_update_def Let_def split: option.split)
qed

lemma batch_frame: "pg_nextRequest (page_batch b c) = pg_nextRequest c" "pg_clientId (page_batch b c) = pg_clientId c"
    "pg_closed (page_batch b c) = pg_closed c"
proof -
  have "pg_nextRequest (fold page_receive b c) = pg_nextRequest c \<and> pg_clientId (fold page_receive b c) = pg_clientId c"
    by (induction b arbitrary: c) (simp_all add: receive_next)
  then show "pg_nextRequest (page_batch b c) = pg_nextRequest c" "pg_clientId (page_batch b c) = pg_clientId c"
    by (simp_all add: page_batch_def)
  show "pg_closed (page_batch b c) = pg_closed c" by (simp add: page_batch_def batch_closed)
qed

definition room :: "'w system \<Rightarrow> bool" where
  "room y \<longleftrightarrow> revision (y_core y) + length (y_up y) \<le> 9007199254740991"

lemma exchange_frame:
  assumes "exchange_step A E y z" and "room y"
  shows "room z \<and> pg_closed (y_page z) = pg_closed (y_page y) \<and> pg_nextRequest (y_page z) = pg_nextRequest (y_page y) \<and>
     pg_clientId (y_page z) = pg_clientId (y_page y) \<and>
     (length (y_up z) < length (y_up y) \<or> length (y_up z) = length (y_up y) \<and> length (y_down z) < length (y_down y))"
  using assms(1)
proof cases
  case (ex_serve xs m ys posts st)
  then show ?thesis using assms(2) host_dispatch_revision [OF ex_serve(4)] by (simp add: room_def)
next
  case (ex_deliver xs b ys)
  then show ?thesis using assms(2) by (simp add: room_def batch_frame)
qed

lemma exchange_frames:
  assumes "(exchange_step A E)\<^sup>*\<^sup>* y z" and "room y"
  shows "room z \<and> pg_closed (y_page z) = pg_closed (y_page y) \<and> pg_nextRequest (y_page z) = pg_nextRequest (y_page y) \<and>
     pg_clientId (y_page z) = pg_clientId (y_page y)"
  using assms(1)
proof (induction rule: rtranclp_induct)
  case (step v z)
  then show ?case using exchange_frame [OF step.hyps(2)] by simp
qed (simp add: assms(2))

lemma exchange_stuck:
  assumes "room z" and "\<And>z'. \<not> exchange_step A E z z'"
  shows "y_up z = [] \<and> y_down z = []"
proof
  show "y_down z = []"
  proof (cases "y_down z")
    case (Cons b bs)
    then show ?thesis using assms(2) ex_deliver [of z "[]" b bs A E] by auto
  qed simp
  show "y_up z = []"
  proof (cases "y_up z")
    case (Cons m ms)
    obtain posts st where d: "host_dispatch A E m (y_core z) = (posts, st)" by (cases "host_dispatch A E m (y_core z)")
    have "revision (y_core z) < 9007199254740991" using assms(1) Cons by (simp add: room_def)
    then show ?thesis using assms(2) ex_serve [of z "[]" m ms A E posts st] Cons d by auto
  qed simp
qed

lemma exchange_ends: "room y \<Longrightarrow> \<exists>z. (exchange_step A E)\<^sup>*\<^sup>* y z \<and> (\<forall>z'. \<not> exchange_step A E z z')"
proof (induction "(length (y_up y), length (y_down y))" arbitrary: y rule: wf_induct [OF wf_lex_prod [OF wf_less_than wf_less_than]])
  case (1 y)
  show ?case
  proof (cases "\<exists>z. exchange_step A E y z")
    case True
    then obtain z where z: "exchange_step A E y z" by blast
    note F = exchange_frame [OF z 1(2)]
    then have "((length (y_up z), length (y_down z)), (length (y_up y), length (y_down y))) \<in> less_than <*lex*> less_than" by auto
    then obtain v where "(exchange_step A E)\<^sup>*\<^sup>* z v \<and> (\<forall>z'. \<not> exchange_step A E v z')" using 1(1) F by blast
    then show ?thesis using z by (blast intro: converse_rtranclp_into_rtranclp)
  qed blast
qed

lemma exchange_finite:
  assumes "room (f 0)" and run: "\<And>i. exchange_step A E (f i) (f (Suc i))"
  shows False
proof -
  have R: "room (f i)" for i by (induction i) (use assms(1) exchange_frame [OF run] in auto)
  have "((length (y_up (f (Suc i))), length (y_down (f (Suc i)))), (length (y_up (f i)), length (y_down (f i)))) \<in> less_than <*lex*> less_than" for i
    using exchange_frame [OF run R, of i] by auto
  then have "\<exists>g. \<forall>i. (g (Suc i), g i) \<in> less_than <*lex*> less_than"
    by (intro exI [of _ "\<lambda>i. (length (y_up (f i)), length (y_down (f i)))"]) blast
  then show False using wf_lex_prod [OF wf_less_than wf_less_than] unfolding wf_iff_no_infinite_down_chain by blast
qed

text \<open>C7: Every call is answered by the worker in the end. From every state an open page and the worker can reach together, let
  the worker serve and the page read what is on its way, in any order, with nobody calling, closing or timing out. This comes
  to an end, and whenever it does the page is still open and every request it ever made has its one outcome. The revision has
  to stay within the integers the protocol can carry.\<close>

theorem calls_complete:
  assumes "authority_ok E A" and "authority_fits E A" and "system_start y0" and "(system_step A E)\<^sup>*\<^sup>* y0 y" and "\<not> pg_closed (y_page y)"
    and "revision (y_core y) + length (y_up y) \<le> 9007199254740991"
  shows "(\<nexists>f. f 0 = y \<and> (\<forall>i. exchange_step A E (f i) (f (Suc i)))) \<and>
     (\<exists>z. (exchange_step A E)\<^sup>*\<^sup>* y z \<and> (\<forall>z'. \<not> exchange_step A E z z')) \<and>
     (\<forall>z. (exchange_step A E)\<^sup>*\<^sup>* y z \<and> (\<forall>z'. \<not> exchange_step A E z z') \<longrightarrow>
        \<not> pg_closed (y_page z) \<and> pg_pending (y_page z) = [] \<and> distinct (map fst (pg_results (y_page z))) \<and>
        set (map fst (pg_results (y_page z))) = requestId_at (pg_clientId (y_page y)) ` {1..pg_nextRequest (y_page y)})"
proof (intro conjI allI impI)
  have start: "room y" using assms(6) by (simp add: room_def)
  show "\<nexists>f. f 0 = y \<and> (\<forall>i. exchange_step A E (f i) (f (Suc i)))" using exchange_finite [of _ A E] start by blast
  show "\<exists>z. (exchange_step A E)\<^sup>*\<^sup>* y z \<and> (\<forall>z'. \<not> exchange_step A E z z')" by (rule exchange_ends [OF start])
  fix z assume run: "(exchange_step A E)\<^sup>*\<^sup>* y z \<and> (\<forall>z'. \<not> exchange_step A E z z')"
  note F = exchange_frames [OF conjunct1 [OF run] start]
  have empty: "y_up z = []" "y_down z = []" using exchange_stuck [of z A E] F run by blast+
  have reach: "(system_step A E)\<^sup>*\<^sup>* y0 z" using assms(4) exchange_are_steps [OF conjunct1 [OF run]] by (rule rtranclp_trans)
  have inv: "system_inv E z" using sys.inv_reachable [OF _ reach] assms(1-3) by blast
  have op: "\<not> pg_closed (y_page z)" using F assms(5) by blast
  then show "\<not> pg_closed (y_page z)" .
  have o: "open_inv E (y_page z) {#} {#} (y_core z)" and s: "pg_settled (y_page z) = []" using inv empty op by (simp_all add: system_inv_def)
  then have ids: "ids_ok (y_page z)" and R: "route_inv (instanceId (y_core z)) (y_page z) {#} {#}" by (simp_all add: open_inv_def)
  have "req_of (y_page z) rid = None" for rid using route_invD(5) [OF R, of rid] by (cases "req_of (y_page z) rid") auto
  then have none: "jm_get (pg_pending (y_page z)) rid = None" for rid by (simp add: req_of_def)
  show p: "pg_pending (y_page z) = []"
    using none [of "fst (hd (pg_pending (y_page z)))"] by (cases "pg_pending (y_page z)") (auto simp: jm_get_def)
  have eq: "mset (map fst (pg_results (y_page z))) = mset (issued_ids (pg_clientId (y_page z)) (pg_nextRequest (y_page z)))"
    using ids p s by (simp add: ids_ok_def jm_keys_def)
  have "distinct (issued_ids (pg_clientId (y_page z)) (pg_nextRequest (y_page z)))"
    by (simp add: issued_ids_def distinct_map inj_on_def del: upt_Suc)
  then show "distinct (map fst (pg_results (y_page z)))" using mset_eq_imp_distinct_iff [OF eq] by blast
  have "set (map fst (pg_results (y_page z))) = set (issued_ids (pg_clientId (y_page z)) (pg_nextRequest (y_page z)))"
    using eq by (rule mset_eq_setD)
  also have "\<dots> = requestId_at (pg_clientId (y_page y)) ` {1..pg_nextRequest (y_page y)}"
    using F by (simp add: issued_ids_def atLeastLessThanSuc_atLeastAtMost del: upt_Suc)
  finally show "set (map fst (pg_results (y_page z))) = requestId_at (pg_clientId (y_page y)) ` {1..pg_nextRequest (y_page y)}" .
qed

section \<open>A page that opens a library and subscribes\<close>

definition fitting_authority :: "nat authority" where
  "fitting_authority = demo_authority\<lparr> a_select := (\<lambda>sel w.
     (if sel = demo_selection then Inr (JObj [(''kind'', JStr ''watchlist''), (''titles'', JArr [])]) else Inl OtherThrown, w)) \<rparr>"

lemma fitting_ok: "authority_ok plain_env fitting_authority"
  by (auto simp: authority_ok_def fitting_authority_def demo_authority_def text_ok_def selectionValue_def exact_def exact_key_def split: if_splits)

lemma fitting_fits: "authority_fits plain_env fitting_authority"
  by (auto simp: authority_fits_def fitting_authority_def demo_authority_def demo_selection_def selectionMatches_def split: if_splits)

definition demo_watchlist :: jsval where
  "demo_watchlist = JObj [(''kind'', JStr ''watchlist''), (''titles'', JArr [])]"

definition demo_v :: library_version where
  "demo_v = \<lparr> v_instance = ''i1'', v_generation = Some ''g1'', v_revision = 0 \<rparr>"

definition opened_core :: "nat core" where
  "opened_core = (core_listen 0 (new_core ''i1'' 0))\<lparr> opened := True, listening := True, membership := JNull,
     client := Some \<lparr> cl_id = JStr ''p'', cl_libraryKey = JStr demo_key, cl_mode = JStr ''local'', cl_wire = jint 4 \<rparr> \<rparr>"

definition subscribed_core :: "nat core" where
  "subscribed_core = opened_core\<lparr> subscriptions := [(''subscription-1'',
     \<lparr> s_selection = demo_selection, s_value = demo_watchlist, s_digest = stringify plain_env demo_watchlist \<rparr>)] \<rparr>"

definition page_hello :: jsval where
  "page_hello = JObj [(''type'', JStr ''hello''), (''protocol'', PROTOCOL), (''requestId'', JStr ''p:1''), (''clientId'', JStr ''p''),
     (''libraryKey'', JStr demo_key), (''mode'', JStr ''local''), (''wire'', jint 4)]"

definition page_subscribe :: jsval where
  "page_subscribe = JObj [(''type'', JStr ''subscribe''), (''protocol'', PROTOCOL), (''requestId'', JStr ''p:2''),
     (''subscriptionId'', JStr ''subscription-1''), (''selection'', demo_selection)]"

lemma page_requests_ok: "client_message plain_env page_hello" "client_message plain_env page_subscribe"
  by (simp_all add: client_message_def client_payload_def client_keys_def page_hello_def page_subscribe_def demo_key_ok
      codec_defs demo_selection_def LIBRARY_SERVICE_PROTOCOL_def selection_def exact_def exact_key_def)

lemma demo_replies_ok:
  "accepted plain_env (readyMessage (JStr ''p:1'') JNull demo_v)"
  "accepted plain_env (updateMessage ''subscription-1'' demo_v demo_watchlist)"
  "accepted plain_env (subscribedMessage (JStr ''p:2'') ''subscription-1'' demo_v)"
proof -
  have v: "version_ok demo_v" by (simp add: version_ok_def demo_v_def text_ok_def)
  show "accepted plain_env (readyMessage (JStr ''p:1'') JNull demo_v)"
    by (rule accepted_ready) (simp_all add: v relayMembership_def nullable_def text_ok_def)
  show "accepted plain_env (updateMessage ''subscription-1'' demo_v demo_watchlist)"
    by (rule accepted_update) (simp_all add: v text_ok_def demo_watchlist_def selectionValue_def exact_def exact_key_def)
  show "accepted plain_env (subscribedMessage (JStr ''p:2'') ''subscription-1'' demo_v)"
    by (rule accepted_subscribed) (simp_all add: v text_ok_def)
qed

lemma serves_hello:
  "host_dispatch fitting_authority plain_env page_hello (core_listen 0 (new_core ''i1'' 0)) =
     ([[readyMessage (JStr ''p:1'') JNull demo_v]], opened_core)"
proof -
  have dec: "decodeLibraryServiceClientMessage plain_env page_hello = Inr page_hello" using page_requests_ok by (simp add: decode_client_iff)
  have "core_dispatch fitting_authority plain_env page_hello (core_listen 0 (new_core ''i1'' 0)) =
      ([readyMessage (JStr ''p:1'') JNull demo_v], opened_core)"
    unfolding core_dispatch_def dec
    by (simp add: Let_def page_hello_def core_hello_def fitting_authority_def demo_authority_def core_listen_def new_core_def opened_core_def
        versionOf_def demo_v_def)
  then show ?thesis
    using dec demo_replies_ok publish_accepted [of plain_env "[readyMessage (JStr ''p:1'') JNull demo_v]"]
    by (simp add: host_dispatch_def handed_over_def opened_core_def core_listen_def new_core_def)
qed

lemma serves_subscribe:
  "host_dispatch fitting_authority plain_env page_subscribe opened_core =
     ([[updateMessage ''subscription-1'' demo_v demo_watchlist, subscribedMessage (JStr ''p:2'') ''subscription-1'' demo_v]], subscribed_core)"
proof -
  have dec: "decodeLibraryServiceClientMessage plain_env page_subscribe = Inr page_subscribe" using page_requests_ok by (simp add: decode_client_iff)
  have "core_dispatch fitting_authority plain_env page_subscribe opened_core =
      ([updateMessage ''subscription-1'' demo_v demo_watchlist, subscribedMessage (JStr ''p:2'') ''subscription-1'' demo_v], subscribed_core)"
    unfolding core_dispatch_def dec
    by (simp add: Let_def page_subscribe_def core_handle_def core_subscribe_def fitting_authority_def demo_authority_def core_listen_def
        new_core_def opened_core_def subscribed_core_def versionOf_def demo_v_def demo_watchlist_def jm_set_def)
  then show ?thesis
    using dec demo_replies_ok
      publish_accepted [of plain_env "[updateMessage ''subscription-1'' demo_v demo_watchlist, subscribedMessage (JStr ''p:2'') ''subscription-1'' demo_v]"]
    by (simp add: host_dispatch_def handed_over_def opened_core_def subscribed_core_def core_listen_def new_core_def)
qed

definition demo_hello_call :: page_call where
  "demo_hello_call = Hello (JStr demo_key) (JStr ''local'') JUndef JUndef"

definition greeting_page :: page_client where
  "greeting_page = fst (page_do True demo_hello_call (new_page ''p''))"

definition ready_page :: page_client where
  "ready_page = page_batch [readyMessage (JStr ''p:1'') JNull demo_v] greeting_page"

definition asking_page :: page_client where
  "asking_page = fst (page_do True (Subscribe demo_selection) ready_page)"

definition showing_page :: page_client where
  "showing_page = page_batch [updateMessage ''subscription-1'' demo_v demo_watchlist,
     subscribedMessage (JStr ''p:2'') ''subscription-1'' demo_v] asking_page"

definition demo_start :: "nat system" where
  "demo_start = \<lparr> y_page = new_page ''p'', y_up = [], y_down = [], y_core = core_listen 0 (new_core ''i1'' 0) \<rparr>"

definition demo_asking :: "nat system" where
  "demo_asking = \<lparr> y_page = asking_page, y_up = [page_subscribe], y_down = [], y_core = opened_core \<rparr>"

definition demo_showing :: "nat system" where
  "demo_showing = \<lparr> y_page = showing_page, y_up = [], y_down = [], y_core = subscribed_core \<rparr>"

lemma demo_pages:
  "page_do True demo_hello_call (new_page ''p'') = (greeting_page, [page_hello])"
  "page_do True (Subscribe demo_selection) ready_page = (asking_page, [page_subscribe])"
  "pg_instance ready_page = Some (JStr ''i1'')" "pg_handed showing_page = [''subscription-1'']"
  "pg_closed showing_page = False" "pg_closed asking_page = False"
  by code_simp+

lemma demo_system_start: "system_start demo_start"
  unfolding system_start_def demo_start_def by (intro exI [of _ "''p''"] exI [of _ "''i1''"] exI [of _ 0]) (simp add: text_ok_def)

lemma demo_asking_reached: "(system_step fitting_authority plain_env)\<^sup>*\<^sup>* demo_start demo_asking"
proof -
  let ?s = "system_step fitting_authority plain_env"
  let ?y1 = "demo_start\<lparr> y_page := greeting_page, y_up := [page_hello] \<rparr>"
  let ?y2 = "?y1\<lparr> y_up := [], y_down := [[readyMessage (JStr ''p:1'') JNull demo_v]], y_core := opened_core \<rparr>"
  let ?y3 = "?y2\<lparr> y_page := ready_page, y_down := [] \<rparr>"
  have "?s demo_start ?y1"
    using sys_call [of demo_hello_call demo_start True greeting_page "[page_hello]"] demo_pages(1)
    by (simp add: demo_start_def call_ready_def demo_hello_call_def)
  moreover have "?s ?y1 ?y2"
    using sys_serve [of ?y1 "[]" page_hello "[]" fitting_authority plain_env] serves_hello
    by (simp add: demo_start_def) (simp add: core_listen_def new_core_def)
  moreover have "?s ?y2 ?y3"
    using sys_deliver [of ?y2 "[]" "[readyMessage (JStr ''p:1'') JNull demo_v]" "[]"] by (simp add: demo_start_def ready_page_def)
  moreover have "?s ?y3 demo_asking"
    using sys_call [of "Subscribe demo_selection" ?y3 True asking_page "[page_subscribe]"] demo_pages(2,3)
    by (simp add: demo_start_def call_ready_def demo_asking_def)
  ultimately show ?thesis by (meson converse_rtranclp_into_rtranclp rtranclp.rtrancl_refl)
qed

lemma demo_showing_reached: "(system_step fitting_authority plain_env)\<^sup>*\<^sup>* demo_start demo_showing"
proof -
  let ?s = "system_step fitting_authority plain_env"
  let ?ms = "[updateMessage ''subscription-1'' demo_v demo_watchlist, subscribedMessage (JStr ''p:2'') ''subscription-1'' demo_v]"
  let ?y = "demo_asking\<lparr> y_up := [], y_down := [?ms], y_core := subscribed_core \<rparr>"
  have "?s demo_asking ?y"
    using sys_serve [of demo_asking "[]" page_subscribe "[]" fitting_authority plain_env] serves_subscribe
    by (simp add: demo_asking_def) (simp add: opened_core_def core_listen_def new_core_def)
  moreover have "?s ?y demo_showing"
    using sys_deliver [of ?y "[]" ?ms "[]"] by (simp add: demo_asking_def demo_showing_def showing_page_def)
  ultimately show ?thesis using demo_asking_reached by (meson rtranclp.rtrancl_into_rtrancl)
qed

theorem requests_answered_witness:
  "page_subscribe \<in> set (y_up demo_asking) \<and> (jm_get (pg_pending (y_page demo_asking)) ''p:2'' \<noteq> None) \<and>
   pg_pending (y_page demo_showing) = []"
proof -
  have "jm_get (pg_pending asking_page) ''p:2'' = Some \<lparr> q_request = page_subscribe, q_timed = False \<rparr>" by code_simp
  then have "page_subscribe \<in> set (y_up demo_asking) \<and> jm_get (pg_pending (y_page demo_asking)) ''p:2'' \<noteq> None"
    using requests_answered [OF fitting_ok fitting_fits demo_system_start demo_asking_reached] demo_pages(6) by (simp add: demo_asking_def)
  moreover have "pg_pending (y_page demo_showing) = []"
    using requests_answered [OF fitting_ok fitting_fits demo_system_start demo_showing_reached] demo_pages(5) by (simp add: demo_showing_def)
  ultimately show ?thesis by blast
qed

theorem views_agree_witness:
  "\<exists>u s. jm_get (pg_subscriptions showing_page) ''subscription-1'' = Some u \<and>
     jm_get (subscriptions subscribed_core) ''subscription-1'' = Some s \<and> s_value s = demo_watchlist \<and> fst (last (u_shown u)) = s_value s"
proof -
  have "s_value s = demo_watchlist" if "jm_get (subscriptions subscribed_core) ''subscription-1'' = Some s" for s
    using that by (auto simp: subscribed_core_def jm_get_def)
  then show ?thesis
    using views_agree [OF fitting_ok fitting_fits demo_system_start demo_showing_reached, of "''subscription-1''"] demo_pages(4,5)
    by (auto simp: demo_showing_def)
qed

theorem calls_complete_witness:
  "pg_pending (y_page demo_asking) \<noteq> [] \<and>
   (\<exists>z. (exchange_step fitting_authority plain_env)\<^sup>*\<^sup>* demo_asking z \<and> \<not> pg_closed (y_page z) \<and> pg_pending (y_page z) = [])"
proof -
  have "pg_pending asking_page \<noteq> []" by code_simp
  moreover have "revision opened_core = 0" by (simp add: opened_core_def core_listen_def new_core_def)
  ultimately show ?thesis
    using calls_complete [OF fitting_ok fitting_fits demo_system_start demo_asking_reached] demo_pages(6) by (auto simp: demo_asking_def)
qed

end
