(* ===== verification/ContentCodec.thy ===== *)
theory ContentCodec
  imports CodecBase
begin

text \<open>
  \<^verbatim>\<open>web/src/lib/contentServiceProtocolCodec.ts\<close> with the limits of \<^verbatim>\<open>contentServiceProtocol.ts\<close>: the validators that
  stand between a page and the content service, the second service of the worker. A type guard is a bool-valued
  function of the untyped value. The content codec lists property names in an array, so its \<open>exact\<close> is
  \<open>exactKeys\<close> here.
\<close>

section \<open>Limits and primitive guards\<close>

definition CONTENT_SERVICE_PROTOCOL :: int where "CONTENT_SERVICE_PROTOCOL = 9"

record content_limits =
  lim_titles :: nat
  lim_queryText :: nat
  lim_region :: nat
  lim_page :: nat
  lim_filters :: nat
  lim_related :: nat
  lim_importLookups :: nat
  lim_cursor :: nat

definition CONTENT_SERVICE_WIRE_LIMITS :: content_limits where
  "CONTENT_SERVICE_WIRE_LIMITS =
    \<lparr> lim_titles = 512, lim_queryText = 1024, lim_region = 2, lim_page = 500, lim_filters = 64, lim_related = 512,
      lim_importLookups = 10000, lim_cursor = 128 \<rparr>"

abbreviation CLIMITS :: content_limits where "CLIMITS \<equiv> CONTENT_SERVICE_WIRE_LIMITS"

definition exactKeys :: "jsval \<Rightarrow> string list \<Rightarrow> bool" where
  "exactKeys value keys \<longleftrightarrow> list_all (\<lambda>key. key \<in> set keys) (keysOf value)"

definition textUpTo :: "nat \<Rightarrow> jsval \<Rightarrow> bool" where
  "textUpTo limit value \<longleftrightarrow> strWith (\<lambda>s. 0 < length s \<and> length s \<le> limit) value"

definition integerFrom :: "rat \<Rightarrow> jsval \<Rightarrow> bool" where
  "integerFrom minimum value \<longleftrightarrow> isSafeInteger value \<and> num_ge value minimum"

definition isMedia :: "jsval \<Rightarrow> bool" where
  "isMedia value \<longleftrightarrow> oneOf [''movie'', ''tv''] value"

definition stringList :: "jsval \<Rightarrow> bool" where
  "stringList value \<longleftrightarrow> listOf value (textUpTo 256) (lim_filters CLIMITS)"

definition integerList :: "jsval \<Rightarrow> bool" where
  "integerList value \<longleftrightarrow> listOf value (integerFrom 0) (lim_filters CLIMITS)"

record content_failure =
  cf_code :: string
  cf_message :: string
  cf_retryable :: bool
  cf_expectedProtocol :: "int option"

text \<open>\<open>failure\<close>; no caller of it in the sources gives a provider or a time.\<close>

definition contentFailure :: "string \<Rightarrow> string \<Rightarrow> bool \<Rightarrow> content_failure" where
  "contentFailure code message retryable =
    \<lparr> cf_code = code, cf_message = message, cf_retryable = retryable, cf_expectedProtocol = None \<rparr>"

definition contentProtocol :: "jsval \<Rightarrow> content_failure option" where
  "contentProtocol value =
    (if fld value ''protocol'' = jint CONTENT_SERVICE_PROTOCOL then None
     else Some ((contentFailure ''protocol-mismatch'' ''content service protocol does not match'' False)
       \<lparr> cf_expectedProtocol := Some CONTENT_SERVICE_PROTOCOL \<rparr>))"

definition contentTitleRef :: "bool \<Rightarrow> jsval \<Rightarrow> bool" where
  "contentTitleRef onlyTv value \<longleftrightarrow>
     isRecord value \<and> exactKeys value [''type'', ''id''] \<and> isMedia (fld value ''type'') \<and>
     (\<not> onlyTv \<or> fld value ''type'' = JStr ''tv'') \<and> integerFrom 1 (fld value ''id'')"

definition isRegion :: "jsval \<Rightarrow> bool" where
  "isRegion value \<longleftrightarrow> strWith (re_exactly isUpper 2) value"

section \<open>What a query carries\<close>

definition contentPolicyValue :: "jsval \<Rightarrow> bool" where
  "contentPolicyValue value \<longleftrightarrow>
     isRecord value \<and> exactKeys value [''maximumAge'', ''unknownRatings'', ''kidAudience'', ''region'', ''approvals''] \<and>
     (fld value ''region'' = JUndef \<or> isRegion (fld value ''region'')) \<and>
     (fld value ''maximumAge'' = JNull \<or> integerFrom 0 (fld value ''maximumAge'') \<and> num_le (fld value ''maximumAge'') 18) \<and>
     (fld value ''unknownRatings'' = JStr ''allow'' \<or> fld value ''unknownRatings'' = JStr ''block'') \<and>
     optional (fld value ''approvals'') (\<lambda>candidate. listOf candidate (contentTitleRef False) 10000) \<and>
     (fld value ''kidAudience'' = JUndef \<or> fld value ''kidAudience'' = JStr ''child'' \<or> fld value ''kidAudience'' = JStr ''child-or-teen'')"

definition contentServiceBase :: "js_env \<Rightarrow> jsval \<Rightarrow> bool" where
  "contentServiceBase E value =
    (if value = JNull then True
     else if \<not> strWith (\<lambda>s. 1 \<le> length s \<and> length s \<le> 4096) value then False
     else if prefix ''/'' (strOf value) \<and> \<not> prefix ''//'' (strOf value) then CHR ''#'' \<notin> set (strOf value)
     else case urlParse E (strOf value) of
         None \<Rightarrow> False
       | Some url \<Rightarrow> (u_protocol url = ''http:'' \<or> u_protocol url = ''https:'') \<and>
           u_username url = [] \<and> u_password url = [] \<and> u_hash url = [])"

definition grantId :: "jsval \<Rightarrow> bool" where
  "grantId value \<longleftrightarrow> strWith (re_exactly isHexLower 8) value"

definition isPrintable :: "char \<Rightarrow> bool" where
  "isPrintable c \<longleftrightarrow> 33 \<le> (of_char c :: nat) \<and> (of_char c :: nat) \<le> 126"

definition heldGrant :: "jsval \<Rightarrow> bool" where
  "heldGrant value \<longleftrightarrow>
     isRecord value \<and> exactKeys value [''gid'', ''secret''] \<and> grantId (fld value ''gid'') \<and>
     strWith (re_between isPrintable 1 128) (fld value ''secret'')"

definition providerKey :: "jsval \<Rightarrow> bool" where
  "providerKey value \<longleftrightarrow> oneOf [''tmdb'', ''omdb'', ''content-warnings''] value"

definition contentProvider :: "jsval \<Rightarrow> bool" where
  "contentProvider value \<longleftrightarrow> oneOf [''tmdb'', ''ratings'', ''warnings'', ''atlas''] value"

definition discover :: "jsval \<Rightarrow> bool" where
  "discover value =
    (if \<not> isRecord value \<or>
        \<not> exactKeys value [''mediaType'', ''genres'', ''genreJoin'', ''keywords'', ''withoutGenres'', ''originalLanguage'',
          ''originCountry'', ''voteCountGte'', ''voteAverageGte'', ''releaseDateGte'', ''releaseDateLte'', ''sortBy'',
          ''watchProviders'', ''watchRegion'', ''monetization''] \<or>
        \<not> isMedia (fld value ''mediaType'')
     then False
     else
       optional (fld value ''genres'') integerList \<and>
       (fld value ''genreJoin'' = JUndef \<or> fld value ''genreJoin'' = JStr ''and'' \<or> fld value ''genreJoin'' = JStr ''or'') \<and>
       optional (fld value ''keywords'') integerList \<and>
       optional (fld value ''withoutGenres'') integerList \<and>
       optional (fld value ''originalLanguage'') (textUpTo 128) \<and>
       optional (fld value ''originCountry'') stringList \<and>
       optional (fld value ''voteCountGte'') isFinite \<and>
       optional (fld value ''voteAverageGte'') isFinite \<and>
       optional (fld value ''releaseDateGte'') (textUpTo 128) \<and>
       optional (fld value ''releaseDateLte'') (textUpTo 128) \<and>
       optional (fld value ''sortBy'') (textUpTo 128) \<and>
       optional (fld value ''watchProviders'') integerList \<and>
       (fld value ''watchRegion'' = JUndef \<or> isRegion (fld value ''watchRegion'')) \<and>
       optional (fld value ''monetization'') stringList)"

definition catalogSpec :: "jsval \<Rightarrow> bool" where
  "catalogSpec value =
    (let kind = fld value ''kind'' in
     if \<not> isRecord value \<or> \<not> textUpTo 32 kind then False
     else if kind = JStr ''discover'' then exactKeys value [''kind'', ''query''] \<and> discover (fld value ''query'')
     else if kind = JStr ''trending'' then
       exactKeys value [''kind'', ''media'', ''window''] \<and> isMedia (fld value ''media'') \<and>
       (fld value ''window'' = JStr ''day'' \<or> fld value ''window'' = JStr ''week'')
     else if kind = JStr ''popular'' \<or> kind = JStr ''top-rated'' then
       exactKeys value [''kind'', ''media''] \<and> isMedia (fld value ''media'')
     else if kind = JStr ''upcoming'' then exactKeys value [''kind'']
     else if kind = JStr ''recommendations'' then exactKeys value [''kind'', ''title''] \<and> contentTitleRef False (fld value ''title'')
     else False)"

definition exploreType :: "jsval \<Rightarrow> bool" where
  "exploreType value \<longleftrightarrow> oneOf [''movie'', ''tv'', ''all''] value"

definition filterItems :: "jsval \<Rightarrow> bool" where
  "filterItems value \<longleftrightarrow>
     listOf value (\<lambda>item. isRecord item \<and> exactKeys item [''kind'', ''id'', ''exclude''] \<and> textUpTo 64 (fld item ''kind'') \<and>
       textUpTo 256 (fld item ''id'') \<and> (fld item ''exclude'' = JUndef \<or> isBool (fld item ''exclude'')))
       (lim_filters CLIMITS)"

definition affinityList :: "jsval \<Rightarrow> bool" where
  "affinityList value \<longleftrightarrow> value = JUndef \<or> listOf value (contentTitleRef False) 32"

definition kidsHomeSource :: "jsval \<Rightarrow> bool" where
  "kidsHomeSource value =
    (let kind = fld value ''kind'' in
     if \<not> isRecord value \<or> \<not> textUpTo 32 kind then False
     else if kind = JStr ''query'' then
       exactKeys value [''kind'', ''query'', ''minimumScore'', ''affinity''] \<and>
       textUpTo (lim_queryText CLIMITS) (fld value ''query'') \<and> isFinite (fld value ''minimumScore'') \<and>
       num_ge (fld value ''minimumScore'') 0 \<and> num_le (fld value ''minimumScore'') 10 \<and> affinityList (fld value ''affinity'')
     else if kind = JStr ''franchise'' then
       exactKeys value [''kind'', ''type'', ''id''] \<and> isMedia (fld value ''type'') \<and> integerFrom 1 (fld value ''id'')
     else
       kind = JStr ''filter'' \<and> exactKeys value [''kind'', ''type'', ''selection'', ''affinity''] \<and> exploreType (fld value ''type'') \<and>
       listOf (fld value ''selection'') (textUpTo 320) (lim_filters CLIMITS) \<and> affinityList (fld value ''affinity''))"

definition atlasQuery :: "jsval \<Rightarrow> bool" where
  "atlasQuery value =
    (let operation = fld value ''operation'' in
     if \<not> isRecord value \<or> \<not> textUpTo 32 operation then False
     else if operation = JStr ''kids-home'' then exactKeys value [''operation'']
     else if operation = JStr ''kids-row'' then
       exactKeys value [''operation'', ''cursor'', ''source'', ''page''] \<and> textUpTo (lim_cursor CLIMITS) (fld value ''cursor'') \<and>
       kidsHomeSource (fld value ''source'') \<and> integerFrom 1 (fld value ''page'') \<and>
       num_le (fld value ''page'') (of_nat (lim_page CLIMITS))
     else if \<not> exploreType (fld value ''type'') \<or> \<not> filterItems (fld value ''items'') then False
     else if operation = JStr ''titles'' then
       exactKeys value [''operation'', ''cursor'', ''type'', ''items'', ''page''] \<and>
       textUpTo (lim_cursor CLIMITS) (fld value ''cursor'') \<and> integerFrom 1 (fld value ''page'')
     else if operation = JStr ''counts'' then exactKeys value [''operation'', ''type'', ''items'']
     else if operation = JStr ''values'' then
       exactKeys value [''operation'', ''type'', ''items'', ''valueKind'', ''query''] \<and> textUpTo 64 (fld value ''valueKind'') \<and>
       textUpTo (lim_queryText CLIMITS) (fld value ''query'')
     else if operation = JStr ''people'' then
       exactKeys value [''operation'', ''type'', ''items'', ''traits'', ''order'', ''page''] \<and> filterItems (fld value ''traits'') \<and>
       (fld value ''order'' = JUndef \<or> textUpTo 64 (fld value ''order'')) \<and> integerFrom 1 (fld value ''page'')
     else if operation = JStr ''people-counts'' then
       exactKeys value [''operation'', ''type'', ''items'', ''traits''] \<and> filterItems (fld value ''traits'')
     else if operation = JStr ''trait-values'' then
       exactKeys value [''operation'', ''type'', ''items'', ''traits'', ''trait'', ''query''] \<and> filterItems (fld value ''traits'') \<and>
       textUpTo 64 (fld value ''trait'') \<and> textUpTo (lim_queryText CLIMITS) (fld value ''query'')
     else False)"

definition relatedLimit :: "jsval \<Rightarrow> bool" where
  "relatedLimit value \<longleftrightarrow> value = JUndef \<or> integerFrom 1 value \<and> num_le value (of_nat (lim_related CLIMITS))"

definition relatedQuery :: "jsval \<Rightarrow> bool" where
  "relatedQuery value =
    (let operation = fld value ''operation'' in
     if \<not> isRecord value \<or> \<not> textUpTo 32 operation \<or> \<not> contentTitleRef False (fld value ''title'') then False
     else if operation = JStr ''list'' then
       exactKeys value [''operation'', ''source'', ''title'', ''mixed'', ''limit''] \<and>
       (fld value ''source'' = JStr ''similar'' \<or> fld value ''source'' = JStr ''neighbours'') \<and> isBool (fld value ''mixed'') \<and>
       relatedLimit (fld value ''limit'')
     else if operation = JStr ''suggest'' then
       exactKeys value [''operation'', ''title'', ''mixed'', ''limit''] \<and> isBool (fld value ''mixed'') \<and> relatedLimit (fld value ''limit'')
     else if operation = JStr ''cards'' then
       exactKeys value [''operation'', ''title'', ''skip'', ''limit''] \<and> integerFrom 0 (fld value ''skip'') \<and>
       num_le (fld value ''skip'') (of_nat (lim_related CLIMITS)) \<and> integerFrom 1 (fld value ''limit'') \<and>
       num_le (fld value ''limit'') (of_nat (lim_related CLIMITS))
     else if operation = JStr ''franchise'' \<or> operation = JStr ''versions'' then exactKeys value [''operation'', ''title'']
     else False)"

text \<open>\<open>Object.entries(value).every\<close>.\<close>

definition atlasWhere :: "jsval \<Rightarrow> bool" where
  "atlasWhere value \<longleftrightarrow>
     isRecord value \<and> length (keysOf value) \<le> lim_filters CLIMITS \<and>
     list_all (\<lambda>key. textUpTo 64 (JStr key) \<and> textUpTo 256 (fld value key)) (keysOf value)"

definition isArray :: "jsval \<Rightarrow> bool" where
  "isArray value = (case value of JArr _ \<Rightarrow> True | _ \<Rightarrow> False)"

definition recommendationBody :: "js_env \<Rightarrow> jsval \<Rightarrow> bool" where
  "recommendationBody E value =
    (if \<not> isRecord value \<or>
        \<not> exactKeys value [''version'', ''surface'', ''now'', ''fresh'', ''services'', ''library'', ''owned'', ''hide''] \<or>
        fld value ''version'' \<noteq> jint 1 \<or>
        fld value ''surface'' \<noteq> JStr ''home'' \<and> fld value ''surface'' \<noteq> JStr ''movies'' \<and> fld value ''surface'' \<noteq> JStr ''series'' \<or>
        \<not> textUpTo 64 (fld value ''now'') \<or>
        fld value ''fresh'' \<noteq> JUndef \<and> \<not> isBool (fld value ''fresh'') \<or>
        \<not> isArray (fld value ''services'') \<or> \<not> isArray (fld value ''library'') \<or> \<not> isArray (fld value ''owned'') \<or>
        \<not> isRecord (fld value ''hide'') \<or>
        length (arrOf (fld value ''library'')) > 5000 \<or> length (arrOf (fld value ''owned'')) > 10000
     then False
     else case stringify E value of None \<Rightarrow> False | Some s \<Rightarrow> length s \<le> 2000000)"

definition importLookup :: "jsval \<Rightarrow> bool" where
  "importLookup value =
    (let kind = fld value ''kind'' in
     if \<not> isRecord value \<or> \<not> textUpTo 256 (fld value ''id'') \<or> \<not> textUpTo 32 kind then False
     else if kind = JStr ''search'' then
       exactKeys value [''id'', ''kind'', ''query'', ''media'', ''page''] \<and> textUpTo (lim_queryText CLIMITS) (fld value ''query'') \<and>
       (fld value ''media'' = JUndef \<or> isMedia (fld value ''media'')) \<and>
       (fld value ''page'' = JUndef \<or> integerFrom 1 (fld value ''page''))
     else if kind = JStr ''translations'' then
       exactKeys value [''id'', ''kind'', ''title'', ''field''] \<and> contentTitleRef False (fld value ''title'') \<and>
       (fld value ''field'' = JStr ''title'' \<or> fld value ''field'' = JStr ''overview'')
     else if kind = JStr ''series-shape'' then
       exactKeys value [''id'', ''kind'', ''title''] \<and> contentTitleRef True (fld value ''title'')
     else if kind = JStr ''episodes'' then
       exactKeys value [''id'', ''kind'', ''title'', ''season''] \<and> contentTitleRef True (fld value ''title'') \<and>
       integerFrom 0 (fld value ''season'')
     else kind = JStr ''runtime'' \<and> exactKeys value [''id'', ''kind'', ''title''] \<and> contentTitleRef False (fld value ''title''))"


section \<open>Requests\<close>

text \<open>\<open>const { interfaceLanguage, ...operation } = value\<close>.\<close>

fun withoutKey :: "string \<Rightarrow> jsval \<Rightarrow> jsval" where
  "withoutKey key (JObj kvs) = JObj (filter (\<lambda>p. fst p \<noteq> key) kvs)"
| "withoutKey key v = v"

definition titleRefs :: "jsval \<Rightarrow> bool" where
  "titleRefs value \<longleftrightarrow> listOf value (contentTitleRef False) (lim_titles CLIMITS)"

definition airedSeries :: "jsval \<Rightarrow> bool" where
  "airedSeries one \<longleftrightarrow>
     isRecord one \<and> exactKeys one [''tmdb'', ''imdb''] \<and> integerFrom 1 (fld one ''tmdb'') \<and>
     (fld one ''imdb'' = JUndef \<or> strWith (\<lambda>s. prefix ''tt'' s \<and> re_between isDigit 1 12 (drop 2 s)) (fld one ''imdb''))"

text \<open>The \<open>switch\<close> of \<open>request\<close>.\<close>

definition contentOperation :: "js_env \<Rightarrow> jsval \<Rightarrow> bool" where
  "contentOperation E value =
    (let kind = fld value ''kind'' in
     if kind = JStr ''sources.configure'' then
       exactKeys value [''kind'', ''atlas''] \<and> contentServiceBase E (fld value ''atlas'')
     else if kind = JStr ''grants.configure'' then
       exactKeys value [''kind'', ''grants''] \<and> listOf (fld value ''grants'') heldGrant 64
     else if kind = JStr ''titles'' then
       exactKeys value [''kind'', ''titles''] \<and> titleRefs (fld value ''titles'')
     else if kind = JStr ''title.detail'' \<or> kind = JStr ''title.hero'' \<or> kind = JStr ''prefetch.detail'' then
       exactKeys value [''kind'', ''title'', ''region''] \<and> contentTitleRef False (fld value ''title'') \<and> isRegion (fld value ''region'')
     else if kind = JStr ''title.extras'' then
       exactKeys value [''kind'', ''title'', ''warningCategories''] \<and> contentTitleRef False (fld value ''title'') \<and>
       stringList (fld value ''warningCategories'')
     else if kind = JStr ''title.external-id'' then
       exactKeys value [''kind'', ''title''] \<and> contentTitleRef False (fld value ''title'')
     else if kind = JStr ''title.eligibility'' then
       exactKeys value [''kind'', ''titles''] \<and> titleRefs (fld value ''titles'')
     else if kind = JStr ''season'' then
       exactKeys value [''kind'', ''title'', ''season''] \<and> contentTitleRef True (fld value ''title'') \<and> integerFrom 0 (fld value ''season'')
     else if kind = JStr ''person'' \<or> kind = JStr ''person.filmography'' \<or> kind = JStr ''collection'' then
       exactKeys value [''kind'', ''id''] \<and> integerFrom 1 (fld value ''id'')
     else if kind = JStr ''catalog.page'' then
       exactKeys value [''kind'', ''catalog'', ''page''] \<and> catalogSpec (fld value ''catalog'') \<and> integerFrom 1 (fld value ''page'') \<and>
       num_le (fld value ''page'') (of_nat (lim_page CLIMITS))
     else if kind = JStr ''search'' then
       exactKeys value [''kind'', ''query''] \<and> textUpTo (lim_queryText CLIMITS) (fld value ''query'')
     else if kind = JStr ''service.regions'' then exactKeys value [''kind'']
     else if kind = JStr ''service.directory'' then exactKeys value [''kind'', ''region''] \<and> isRegion (fld value ''region'')
     else if kind = JStr ''atlas.query'' then exactKeys value [''kind'', ''query''] \<and> atlasQuery (fld value ''query'')
     else if kind = JStr ''atlas.related'' then exactKeys value [''kind'', ''query''] \<and> relatedQuery (fld value ''query'')
     else if kind = JStr ''atlas.row'' then
       exactKeys value [''kind'', ''type'', ''where'', ''page''] \<and> isMedia (fld value ''type'') \<and> atlasWhere (fld value ''where'') \<and>
       integerFrom 1 (fld value ''page'') \<and> num_le (fld value ''page'') (of_nat (lim_page CLIMITS))
     else if kind = JStr ''atlas.service.catalogs'' then exactKeys value [''kind'']
     else if kind = JStr ''atlas.service.chart'' then
       exactKeys value [''kind'', ''catalog'', ''country''] \<and> isRecord (fld value ''catalog'') \<and>
       exactKeys (fld value ''catalog'') [''id'', ''type''] \<and> textUpTo 256 (fld (fld value ''catalog'') ''id'') \<and>
       isMedia (fld (fld value ''catalog'') ''type'') \<and> isRegion (fld value ''country'')
     else if kind = JStr ''atlas.recommend.shared'' then
       exactKeys value [''kind'', ''scope'', ''fresh'', ''day''] \<and>
       (fld value ''scope'' = JStr ''home'' \<or> fld value ''scope'' = JStr ''movies'' \<or> fld value ''scope'' = JStr ''series'') \<and>
       isBool (fld value ''fresh'') \<and> strWith re_day (fld value ''day'')
     else if kind = JStr ''atlas.recommend.personal'' then
       exactKeys value [''kind'', ''body''] \<and> recommendationBody E (fld value ''body'')
     else if kind = JStr ''atlas.airing'' then
       exactKeys value [''kind'', ''series''] \<and> listOf (fld value ''series'') airedSeries (lim_titles CLIMITS)
     else if kind = JStr ''import.resolve'' then
       exactKeys value [''kind'', ''lookups''] \<and> listOf (fld value ''lookups'') importLookup (lim_importLookups CLIMITS)
     else if kind = JStr ''provider-key.check'' then
       exactKeys value [''kind'', ''service'', ''candidate''] \<and> providerKey (fld value ''service'') \<and>
       (fld value ''candidate'' = JUndef \<or> textUpTo 16384 (fld value ''candidate''))
     else if kind = JStr ''provider-cache.clear'' then
       exactKeys value [''kind'', ''service''] \<and> fld value ''service'' = JStr ''tmdb''
     else False)"

definition contentRequest :: "js_env \<Rightarrow> jsval \<Rightarrow> bool" where
  "contentRequest E value =
    (let language = fld value ''interfaceLanguage'' in
     if \<not> isRecord value \<or> \<not> textUpTo 64 (fld value ''kind'') then False
     else if language \<noteq> JUndef \<and> language \<noteq> JStr ''en'' \<and> language \<noteq> JStr ''es'' \<and> language \<noteq> JStr ''sv'' then False
     else contentOperation E (if language \<noteq> JUndef then withoutKey ''interfaceLanguage'' value else value))"

section \<open>Results, failures and statuses\<close>

definition boundedArray :: "nat \<Rightarrow> jsval \<Rightarrow> bool" where
  "boundedArray limit candidate \<longleftrightarrow> isArray candidate \<and> length (arrOf candidate) \<le> limit"

definition resource :: "jsval \<Rightarrow> bool" where
  "resource candidate =
    (let state = fld candidate ''state''; reason = fld candidate ''reason'' in
     if \<not> isRecord candidate \<or> \<not> textUpTo 32 state then False
     else if state = JStr ''ready'' then exactKeys candidate [''state'', ''value'']
     else if state = JStr ''absent'' \<or> state = JStr ''not-configured'' then exactKeys candidate [''state'']
     else
       state = JStr ''unavailable'' \<and> exactKeys candidate [''state'', ''provider'', ''reason'', ''retryAfterMs''] \<and>
       (fld candidate ''provider'' = JUndef \<or> contentProvider (fld candidate ''provider'')) \<and>
       (reason = JUndef \<or> oneOf [''network'', ''rate-limited'', ''refused'', ''invalid-answer''] reason) \<and>
       (fld candidate ''retryAfterMs'' = JUndef \<or> integerFrom 0 (fld candidate ''retryAfterMs'')))"

definition contentResult :: "jsval \<Rightarrow> bool" where
  "contentResult value =
    (let kind = fld value ''kind''; titles = lim_titles CLIMITS in
     if \<not> isRecord value \<or> \<not> textUpTo 64 kind then False
     else if kind = JStr ''sources.configure'' \<or> kind = JStr ''grants.configure'' then exactKeys value [''kind'']
     else if kind = JStr ''titles'' then
       exactKeys value [''kind'', ''titles'', ''retryable''] \<and> boundedArray titles (fld value ''titles'') \<and>
       boundedArray titles (fld value ''retryable'') \<and> list_all (contentTitleRef False) (arrOf (fld value ''retryable''))
     else if kind = JStr ''title.detail'' then exactKeys value [''kind'', ''detail''] \<and> resource (fld value ''detail'')
     else if kind = JStr ''title.hero'' then exactKeys value [''kind'', ''hero''] \<and> resource (fld value ''hero'')
     else if kind = JStr ''title.extras'' then exactKeys value [''kind'', ''extras''] \<and> isRecord (fld value ''extras'')
     else if kind = JStr ''title.external-id'' then exactKeys value [''kind'', ''imdbId''] \<and> resource (fld value ''imdbId'')
     else if kind = JStr ''title.eligibility'' then
       exactKeys value [''kind'', ''allowed''] \<and> boundedArray titles (fld value ''allowed'') \<and>
       list_all (contentTitleRef False) (arrOf (fld value ''allowed''))
     else if kind = JStr ''season'' then exactKeys value [''kind'', ''episodes''] \<and> resource (fld value ''episodes'')
     else if kind = JStr ''person'' then exactKeys value [''kind'', ''person''] \<and> resource (fld value ''person'')
     else if kind = JStr ''person.filmography'' then exactKeys value [''kind'', ''credits''] \<and> resource (fld value ''credits'')
     else if kind = JStr ''collection'' \<or> kind = JStr ''catalog.page'' then
       exactKeys value [''kind'', ''titles''] \<and> boundedArray titles (fld value ''titles'')
     else if kind = JStr ''atlas.query'' then exactKeys value [''kind'', ''answer''] \<and> resource (fld value ''answer'')
     else if kind = JStr ''atlas.related'' then exactKeys value [''kind'', ''answer''] \<and> resource (fld value ''answer'')
     else if kind = JStr ''atlas.row'' \<or> kind = JStr ''atlas.service.chart'' then
       exactKeys value [''kind'', ''titles''] \<and> resource (fld value ''titles'')
     else if kind = JStr ''atlas.service.catalogs'' then exactKeys value [''kind'', ''catalogs''] \<and> resource (fld value ''catalogs'')
     else if kind = JStr ''atlas.recommend.shared'' \<or> kind = JStr ''atlas.recommend.personal'' then
       exactKeys value [''kind'', ''slides''] \<and> resource (fld value ''slides'')
     else if kind = JStr ''atlas.airing'' then
       exactKeys value [''kind'', ''airing''] \<and> resource (fld value ''airing'') \<and>
       (\<not> isRecord (fld value ''airing'') \<or> fld (fld value ''airing'') ''state'' \<noteq> JStr ''ready'' \<or>
        boundedArray titles (fld (fld value ''airing'') ''value''))
     else if kind = JStr ''search'' then exactKeys value [''kind'', ''hits''] \<and> boundedArray titles (fld value ''hits'')
     else if kind = JStr ''service.regions'' then exactKeys value [''kind'', ''regions''] \<and> boundedArray 512 (fld value ''regions'')
     else if kind = JStr ''service.directory'' then
       exactKeys value [''kind'', ''services'', ''complete''] \<and> boundedArray 512 (fld value ''services'') \<and> isBool (fld value ''complete'')
     else if kind = JStr ''import.resolve'' then
       exactKeys value [''kind'', ''results''] \<and> boundedArray (lim_importLookups CLIMITS) (fld value ''results'')
     else if kind = JStr ''prefetch.detail'' then exactKeys value [''kind'']
     else if kind = JStr ''provider-key.check'' then
       exactKeys value [''kind'', ''service'', ''outcome''] \<and> providerKey (fld value ''service'') \<and>
       oneOf [''accepted'', ''refused'', ''unavailable''] (fld value ''outcome'')
     else if kind = JStr ''provider-cache.clear'' then
       exactKeys value [''kind'', ''service''] \<and> fld value ''service'' = JStr ''tmdb''
     else False)"

definition contentServiceFailure :: "jsval \<Rightarrow> bool" where
  "contentServiceFailure value =
    (if \<not> isRecord value \<or>
        \<not> exactKeys value [''code'', ''message'', ''retryable'', ''provider'', ''retryAfterMs'', ''expectedProtocol''] \<or>
        \<not> textUpTo 4096 (fld value ''message'') \<or> \<not> isBool (fld value ''retryable'')
     then False
     else
       oneOf [''protocol-mismatch'', ''invalid-request'', ''not-ready'', ''not-configured'', ''not-found'', ''refused'',
         ''rate-limited'', ''unavailable'', ''cancelled'', ''internal''] (fld value ''code'') \<and>
       (fld value ''provider'' = JUndef \<or> contentProvider (fld value ''provider'')) \<and>
       (fld value ''retryAfterMs'' = JUndef \<or> integerFrom 0 (fld value ''retryAfterMs'')) \<and>
       (fld value ''expectedProtocol'' = JUndef \<or> integerFrom 1 (fld value ''expectedProtocol'')))"

definition contentStatus :: "jsval \<Rightarrow> bool" where
  "contentStatus value =
    (let kind = fld value ''kind'' in
     if \<not> isRecord value \<or> \<not> textUpTo 32 kind then False
     else if kind = JStr ''ready'' then exactKeys value [''kind'']
     else if kind = JStr ''throttled'' then
       exactKeys value [''kind'', ''provider'', ''retryAfterMs''] \<and> contentProvider (fld value ''provider'') \<and>
       integerFrom 0 (fld value ''retryAfterMs'')
     else if kind = JStr ''grant-ended'' then exactKeys value [''kind'', ''gid''] \<and> grantId (fld value ''gid'')
     else
       kind = JStr ''unavailable'' \<and> exactKeys value [''kind'', ''provider'', ''error''] \<and>
       (fld value ''provider'' = JUndef \<or> contentProvider (fld value ''provider'')) \<and> contentServiceFailure (fld value ''error''))"

section \<open>The decoders\<close>

definition decodeContentServiceClientMessage :: "js_env \<Rightarrow> jsval \<Rightarrow> content_failure + jsval" where
  "decodeContentServiceClientMessage E input =
    (let invalid = (\<lambda>message. Inl (contentFailure ''invalid-request'' message False)) in
     if \<not> isRecord input then invalid ''content request must be an object''
     else case contentProtocol input of
         Some mismatch \<Rightarrow> Inl mismatch
       | None \<Rightarrow>
           if fld input ''type'' = JStr ''content-query'' then
             if \<not> exactKeys input [''type'', ''protocol'', ''requestId'', ''request'', ''policy''] \<or>
                \<not> textUpTo 256 (fld input ''requestId'') \<or> \<not> contentRequest E (fld input ''request'') \<or>
                \<not> optional (fld input ''policy'') contentPolicyValue
             then invalid ''content query is invalid'' else Inr input
           else if fld input ''type'' \<noteq> JStr ''content-cancel'' \<or>
                \<not> exactKeys input [''type'', ''protocol'', ''targetRequestId''] \<or> \<not> textUpTo 256 (fld input ''targetRequestId'')
           then invalid ''content request type is invalid'' else Inr input)"

definition decodeContentServiceServerMessage :: "jsval \<Rightarrow> content_failure + jsval" where
  "decodeContentServiceServerMessage input =
    (let invalid = (\<lambda>message. Inl (contentFailure ''invalid-request'' message False)); type = fld input ''type'' in
     if \<not> isRecord input then invalid ''content reply must be an object''
     else case contentProtocol input of
         Some mismatch \<Rightarrow> Inl mismatch
       | None \<Rightarrow>
           if type = JStr ''content-result'' \<or> type = JStr ''content-progress'' then
             if \<not> exactKeys input [''type'', ''protocol'', ''requestId'', ''result''] \<or>
                \<not> textUpTo 256 (fld input ''requestId'') \<or> \<not> contentResult (fld input ''result'')
             then invalid ''content result is invalid'' else Inr input
           else if type = JStr ''content-error'' then
             if \<not> exactKeys input [''type'', ''protocol'', ''requestId'', ''error''] \<or>
                fld input ''requestId'' \<noteq> JUndef \<and> \<not> textUpTo 256 (fld input ''requestId'') \<or>
                \<not> contentServiceFailure (fld input ''error'')
             then invalid ''content error is invalid'' else Inr input
           else if type \<noteq> JStr ''content-status'' \<or> \<not> exactKeys input [''type'', ''protocol'', ''status''] \<or>
                \<not> contentStatus (fld input ''status'')
           then invalid ''content reply type is invalid'' else Inr input)"

end
