(* ===== verification/ContentCore.thy ===== *)
theory ContentCore
  imports ContentCodec ServiceCore Transitions "HOL-Library.Multiset"
begin

text \<open>
  \<^verbatim>\<open>web/src/lib/contentServiceCore.ts\<close>: a dispatcher without a lane,
  whose queries overlap. An \<open>AbortController\<close> is the ticket of its call of \<open>dispatch\<close>; what the authority
  does with a query (improving answers, a result, anything thrown) is free. Every stretch between two awaits is
  one function, and the steps interleave in any order.
\<close>

section \<open>State\<close>

text \<open>What \<open>authority.query\<close> may throw.\<close>

datatype content_thrown = ContentServiceFault jsval | AbortError string | ContentJsError string | ContentOther

text \<open>A call of \<open>dispatch\<close> is its ticket. \<open>cc_running\<close> are the queries the authority works on, with request id, request
  and policy; \<open>cc_asked\<close> every call of \<open>authority.query\<close> made so far; \<open>cc_answered\<close> what \<open>dispatch\<close> returned.\<close>

record content_core =
  cc_requests :: "(string, nat) jmap"
  cc_aborted :: "nat list"
  cc_listeners :: "nat list"
  cc_closed :: bool
  cc_running :: "(nat \<times> string \<times> jsval \<times> jsval) list"
  cc_asked :: "(nat \<times> string \<times> jsval \<times> jsval) list"
  cc_answered :: "(nat \<times> jsval list) list"
  cc_published :: "(nat \<times> jsval list) list"
  cc_next :: nat

definition new_content :: content_core where
  "new_content = \<lparr> cc_requests = [], cc_aborted = [], cc_listeners = [], cc_closed = False, cc_running = [], cc_asked = [], cc_answered = [],
     cc_published = [], cc_next = 0 \<rparr>"

section \<open>Messages\<close>

definition CPROTOCOL :: jsval where "CPROTOCOL = jint CONTENT_SERVICE_PROTOCOL"

text \<open>\<open>errorMessage\<close>.\<close>

definition contentError :: "jsval \<Rightarrow> string option \<Rightarrow> jsval" where
  "contentError error requestId = JObj
     ([(''type'', JStr ''content-error''), (''protocol'', CPROTOCOL)] @ truthy_field ''requestId'' requestId @ [(''error'', error)])"

definition failureValue :: "string \<Rightarrow> string \<Rightarrow> bool \<Rightarrow> jsval" where
  "failureValue code message retryable =
     JObj [(''code'', JStr code), (''message'', JStr message), (''retryable'', JBool retryable)]"

definition encContentFailure :: "content_failure \<Rightarrow> jsval" where
  "encContentFailure f = JObj
     ([(''code'', JStr (cf_code f)), (''message'', JStr (cf_message f)), (''retryable'', JBool (cf_retryable f))] @
      (case cf_expectedProtocol f of None \<Rightarrow> [] | Some n \<Rightarrow> [(''expectedProtocol'', jint n)]))"

definition contentResultMessage :: "string \<Rightarrow> jsval \<Rightarrow> jsval" where
  "contentResultMessage requestId result = JObj
     [(''type'', JStr ''content-result''), (''protocol'', CPROTOCOL), (''requestId'', JStr requestId), (''result'', result)]"

definition contentProgressMessage :: "string \<Rightarrow> jsval \<Rightarrow> jsval" where
  "contentProgressMessage requestId result = JObj
     [(''type'', JStr ''content-progress''), (''protocol'', CPROTOCOL), (''requestId'', JStr requestId), (''result'', result)]"

definition contentStatusMessage :: "jsval \<Rightarrow> jsval" where
  "contentStatusMessage status = JObj
     [(''type'', JStr ''content-status''), (''protocol'', CPROTOCOL), (''status'', status)]"

definition queryCancelled :: jsval where
  "queryCancelled = failureValue ''cancelled'' ''content request was cancelled'' False"

fun asFailure :: "content_thrown \<Rightarrow> bool \<Rightarrow> jsval" where
  "asFailure (ContentServiceFault f) aborted = f"
| "asFailure (AbortError message) aborted = queryCancelled"
| "asFailure (ContentJsError message) aborted = (if aborted then queryCancelled else failureValue ''internal'' message True)"
| "asFailure ContentOther aborted = (if aborted then queryCancelled else failureValue ''internal'' ''content service query failed'' True)"

section \<open>Operations\<close>

definition content_publish :: "jsval list \<Rightarrow> content_core \<Rightarrow> content_core" where
  "content_publish messages c =
    (if cc_closed c \<or> messages = [] then c
     else c\<lparr> cc_published := cc_published c @ map (\<lambda>l. (l, messages)) (cc_listeners c) \<rparr>)"

text \<open>The promise of a call is resolved.\<close>

definition content_resolve :: "nat \<Rightarrow> jsval list \<Rightarrow> content_core \<Rightarrow> content_core" where
  "content_resolve ticket messages c = c\<lparr> cc_answered := cc_answered c @ [(ticket, messages)] \<rparr>"

text \<open>\<open>#query\<close> up to its \<open>await\<close>.\<close>

definition content_query :: "string \<Rightarrow> jsval \<Rightarrow> jsval \<Rightarrow> content_core \<Rightarrow> content_core" where
  "content_query requestId request policy c =
    (let ticket = cc_next c; c1 = c\<lparr> cc_next := Suc ticket \<rparr> in
     if cc_closed c then
       content_resolve ticket [contentError (failureValue ''cancelled'' ''content service is closed'' False) (Some requestId)] c1
     else if jm_get (cc_requests c) requestId \<noteq> None then
       content_resolve ticket
         [contentError (failureValue ''invalid-request'' ''content request id is already in use'' False) (Some requestId)] c1
     else c1\<lparr> cc_requests := jm_set requestId ticket (cc_requests c),
                cc_running := cc_running c @ [(ticket, requestId, request, policy)],
                cc_asked := cc_asked c @ [(ticket, requestId, request, policy)] \<rparr>)"

definition content_cancel :: "string \<Rightarrow> content_core \<Rightarrow> content_core" where
  "content_cancel target c =
    (let ticket = cc_next c;
         c1 = c\<lparr> cc_next := Suc ticket, cc_aborted := (case jm_get (cc_requests c) target of
             None \<Rightarrow> cc_aborted c | Some controller \<Rightarrow> cc_aborted c @ [controller]) \<rparr>
     in content_resolve ticket [] c1)"

definition content_dispatch :: "jsval \<Rightarrow> content_core \<Rightarrow> content_core" where
  "content_dispatch message c =
    (if fld message ''type'' = JStr ''content-cancel'' then content_cancel (strOf (fld message ''targetRequestId'')) c
     else content_query (strOf (fld message ''requestId'')) (fld message ''request'') (fld message ''policy'') c)"

text \<open>The running call of a ticket.\<close>

definition running :: "content_core \<Rightarrow> nat \<Rightarrow> (string \<times> jsval \<times> jsval) option" where
  "running c ticket = map_of (cc_running c) ticket"

text \<open>The \<open>progress\<close> callback given to the authority. A call that has returned may still be called back.\<close>

definition content_partial :: "nat \<Rightarrow> jsval \<Rightarrow> content_core \<Rightarrow> content_core" where
  "content_partial ticket part c =
    (case map_of (cc_asked c) ticket of
       None \<Rightarrow> c
     | Some (requestId, request, policy) \<Rightarrow>
         if ticket \<in> set (cc_aborted c) \<or> fld part ''kind'' \<noteq> fld request ''kind'' then c
         else content_publish [contentProgressMessage requestId part] c)"

text \<open>What \<open>#query\<close> returns after its \<open>await\<close>.\<close>

definition query_outcome :: "string \<Rightarrow> jsval \<Rightarrow> bool \<Rightarrow> content_thrown + jsval \<Rightarrow> jsval" where
  "query_outcome requestId request aborted answer =
    (case answer of
       Inl e \<Rightarrow> contentError (asFailure e aborted) (Some requestId)
     | Inr result \<Rightarrow>
         if fld result ''kind'' \<noteq> fld request ''kind'' then
           contentError (asFailure (ContentServiceFault (failureValue ''internal''
             (''content service returned '' @ strOf (fld result ''kind'') @ '' for '' @ strOf (fld request ''kind'')) True)) aborted)
             (Some requestId)
         else if aborted then contentError queryCancelled (Some requestId)
         else contentResultMessage requestId result)"

definition content_answer :: "nat \<Rightarrow> content_thrown + jsval \<Rightarrow> content_core \<Rightarrow> content_core" where
  "content_answer ticket answer c =
    (case running c ticket of
       None \<Rightarrow> c
     | Some (requestId, request, policy) \<Rightarrow>
         let c1 = c\<lparr> cc_running := filter (\<lambda>p. fst p \<noteq> ticket) (cc_running c),
               cc_requests := (if jm_get (cc_requests c) requestId = Some ticket
                               then jm_delete requestId (cc_requests c) else cc_requests c) \<rparr>
         in content_resolve ticket [query_outcome requestId request (ticket \<in> set (cc_aborted c)) answer] c1)"

definition content_listen :: "nat \<Rightarrow> content_core \<Rightarrow> content_core" where
  "content_listen l c = (if cc_closed c \<or> l \<in> set (cc_listeners c) then c else c\<lparr> cc_listeners := cc_listeners c @ [l] \<rparr>)"

definition content_unlisten :: "nat \<Rightarrow> content_core \<Rightarrow> content_core" where
  "content_unlisten l c = c\<lparr> cc_listeners := removeAll l (cc_listeners c) \<rparr>"

definition content_close :: "content_core \<Rightarrow> content_core" where
  "content_close c =
    (if cc_closed c then c
     else c\<lparr> cc_closed := True, cc_aborted := cc_aborted c @ map snd (cc_requests c), cc_requests := [], cc_listeners := [] \<rparr>)"

end
