(* ===== verification/ContentFacts.thy ===== *)
theory ContentFacts
  imports ContentCore
begin

text \<open>
  The content dispatcher in every order of queries, cancellations, improving answers, results and closing: every call is
  answered once, and a cancelled query never delivers.
\<close>

section \<open>The dispatcher in every order\<close>

inductive content_step :: "content_core \<Rightarrow> content_core \<Rightarrow> bool" where
  content_dispatches: "content_step c (content_dispatch m c)"
| content_improves: "content_step c (content_partial ticket part c)"
| content_answers: "content_step c (content_answer ticket answer c)"
| content_tells: "content_step c (content_publish [contentStatusMessage status] c)"
| content_listens: "content_step c (content_listen l c)"
| content_unlistens: "content_step c (content_unlisten l c)"
| content_closes: "content_step c (content_close c)"

text \<open>Every call is in one place. While the service is open the table holds exactly the running queries; once it is
  closed the table is empty and what still runs was aborted.\<close>

definition content_tickets :: "nat \<Rightarrow> nat list" where
  "content_tickets n = [0..<n]"

definition content_inv :: "content_core \<Rightarrow> bool" where
  "content_inv c \<longleftrightarrow> jm_inv (cc_requests c) \<and>
     mset (map fst (cc_running c)) + mset (map fst (cc_answered c)) = mset (content_tickets (cc_next c)) \<and>
     set (cc_running c) \<subseteq> set (cc_asked c) \<and> distinct (map fst (cc_asked c)) \<and> set (map fst (cc_asked c)) \<subseteq> {..<cc_next c} \<and>
     (\<forall>rid t. jm_get (cc_requests c) rid = Some t \<longrightarrow> (\<exists>req. (t, rid, req) \<in> set (cc_running c))) \<and>
     (if cc_closed c then cc_requests c = [] \<and> (\<forall>t rid req. (t, rid, req) \<in> set (cc_running c) \<longrightarrow> t \<in> set (cc_aborted c))
      else (\<forall>t rid req. (t, rid, req) \<in> set (cc_running c) \<longrightarrow> jm_get (cc_requests c) rid = Some t))"

lemma content_tickets_Suc: "mset (content_tickets (Suc n)) = add_mset n (mset (content_tickets n))"
  by (simp add: content_tickets_def)

lemma content_running_fresh:
  assumes "content_inv c"
  shows "(cc_next c, x) \<notin> set (cc_running c)" and "distinct (map fst (cc_running c))" and "t \<in> set (map fst (cc_running c)) \<Longrightarrow> t \<notin> set (map fst (cc_answered c))"
proof -
  have eq: "mset (map fst (cc_running c) @ map fst (cc_answered c)) = mset (content_tickets (cc_next c))" using assms by (simp add: content_inv_def)
  then have "distinct (map fst (cc_running c) @ map fst (cc_answered c))"
    using mset_eq_imp_distinct_iff [OF eq] by (simp add: content_tickets_def)
  then show "distinct (map fst (cc_running c))" "t \<in> set (map fst (cc_running c)) \<Longrightarrow> t \<notin> set (map fst (cc_answered c))" by auto
  have "set (map fst (cc_running c) @ map fst (cc_answered c)) = set (content_tickets (cc_next c))" using eq by (rule mset_eq_setD)
  then have "set (map fst (cc_running c)) \<subseteq> {0..<cc_next c}" by (auto simp: content_tickets_def)
  then show "(cc_next c, x) \<notin> set (cc_running c)" by force
qed

lemma content_resolve_inv_fields [simp]:
  "cc_requests (content_resolve t ms c) = cc_requests c" "cc_running (content_resolve t ms c) = cc_running c"
  "cc_closed (content_resolve t ms c) = cc_closed c" "cc_aborted (content_resolve t ms c) = cc_aborted c"
  "cc_asked (content_resolve t ms c) = cc_asked c" "cc_next (content_resolve t ms c) = cc_next c" "cc_answered (content_resolve t ms c) = cc_answered c @ [(t, ms)]"
  "cc_published (content_resolve t ms c) = cc_published c" "cc_listeners (content_resolve t ms c) = cc_listeners c"
  by (simp_all add: content_resolve_def)

lemma content_publish_fields [simp]:
  "cc_requests (content_publish ms c) = cc_requests c" "cc_running (content_publish ms c) = cc_running c"
  "cc_closed (content_publish ms c) = cc_closed c" "cc_aborted (content_publish ms c) = cc_aborted c"
  "cc_asked (content_publish ms c) = cc_asked c" "cc_next (content_publish ms c) = cc_next c" "cc_answered (content_publish ms c) = cc_answered c"
  by (simp_all add: content_publish_def)

lemma content_publish_inv [simp]: "content_inv (content_publish ms c) = content_inv c"
  by (simp add: content_inv_def)

lemma content_invD:
  assumes "content_inv c"
  shows "jm_inv (cc_requests c)"
    and "mset (map fst (cc_running c)) + mset (map fst (cc_answered c)) = mset (content_tickets (cc_next c))"
    and "jm_get (cc_requests c) rid = Some t \<Longrightarrow> \<exists>req. (t, rid, req) \<in> set (cc_running c)"
    and "cc_closed c \<Longrightarrow> cc_requests c = []"
    and "cc_closed c \<Longrightarrow> (t, rid, req) \<in> set (cc_running c) \<Longrightarrow> t \<in> set (cc_aborted c)"
    and "\<not> cc_closed c \<Longrightarrow> (t, rid, req) \<in> set (cc_running c) \<Longrightarrow> jm_get (cc_requests c) rid = Some t"
    and "set (cc_running c) \<subseteq> set (cc_asked c)" and "distinct (map fst (cc_asked c))"
    and "set (map fst (cc_asked c)) \<subseteq> {..<cc_next c}"
proof -
  note inv = assms [unfolded content_inv_def]
  show "jm_inv (cc_requests c)" using inv by (rule conjunct1)
  show "mset (map fst (cc_running c)) + mset (map fst (cc_answered c)) = mset (content_tickets (cc_next c))"
    using inv by (elim conjE)
  show "jm_get (cc_requests c) rid = Some t \<Longrightarrow> \<exists>req. (t, rid, req) \<in> set (cc_running c)" using inv by blast
  show "cc_closed c \<Longrightarrow> cc_requests c = []" using inv by presburger
  show "cc_closed c \<Longrightarrow> (t, rid, req) \<in> set (cc_running c) \<Longrightarrow> t \<in> set (cc_aborted c)"
    "\<not> cc_closed c \<Longrightarrow> (t, rid, req) \<in> set (cc_running c) \<Longrightarrow> jm_get (cc_requests c) rid = Some t"
    using inv by (simp_all (no_asm_simp))
  show "set (cc_running c) \<subseteq> set (cc_asked c)" "distinct (map fst (cc_asked c))" "set (map fst (cc_asked c)) \<subseteq> {..<cc_next c}"
    using inv by blast+
qed

lemma content_invI:
  assumes "jm_inv (cc_requests c)"
    and "mset (map fst (cc_running c)) + mset (map fst (cc_answered c)) = mset (content_tickets (cc_next c))"
    and "\<And>rid t. jm_get (cc_requests c) rid = Some t \<Longrightarrow> \<exists>req. (t, rid, req) \<in> set (cc_running c)"
    and "cc_closed c \<Longrightarrow> cc_requests c = []"
    and "\<And>t rid req. cc_closed c \<Longrightarrow> (t, rid, req) \<in> set (cc_running c) \<Longrightarrow> t \<in> set (cc_aborted c)"
    and "\<And>t rid req. \<not> cc_closed c \<Longrightarrow> (t, rid, req) \<in> set (cc_running c) \<Longrightarrow> jm_get (cc_requests c) rid = Some t"
    and "set (cc_running c) \<subseteq> set (cc_asked c)" and "distinct (map fst (cc_asked c))"
    and "set (map fst (cc_asked c)) \<subseteq> {..<cc_next c}"
  shows "content_inv c"
  unfolding content_inv_def
proof (intro conjI allI impI)
  show "if cc_closed c then cc_requests c = [] \<and> (\<forall>t rid req. (t, rid, req) \<in> set (cc_running c) \<longrightarrow> t \<in> set (cc_aborted c))
      else (\<forall>t rid req. (t, rid, req) \<in> set (cc_running c) \<longrightarrow> jm_get (cc_requests c) rid = Some t)"
    using assms(4-6) by (cases "cc_closed c") (simp_all (no_asm_simp))
qed (rule assms; assumption)+

text \<open>A call that is answered at once takes its ticket and leaves the rest.\<close>

lemma content_invSuc:
  assumes inv: "content_inv c" and "set (cc_aborted c) \<subseteq> set ab"
  shows "content_inv (content_resolve (cc_next c) ms (c\<lparr> cc_next := Suc (cc_next c), cc_aborted := ab \<rparr>))"
proof (rule content_invI, goal_cases)
  case (3 rid t) then show ?case using content_invD(3) [OF inv, of rid t] by simp
next
  case (5 t rid req) then show ?case using content_invD(5) [OF inv, of t rid req] assms(2) by auto
next
  case 9 show ?case using content_invD(9) [OF inv] by (auto simp: less_Suc_eq)
qed (use content_invD(2) [OF inv] in \<open>simp_all add: content_tickets_Suc content_invD [OF inv]\<close>)

lemma content_query_inv:
  assumes inv: "content_inv c"
  shows "content_inv (content_query rid req pol c)"
proof (cases "cc_closed c \<or> jm_get (cc_requests c) rid \<noteq> None")
  case True
  have "content_inv (content_resolve (cc_next c) ms (c\<lparr> cc_next := Suc (cc_next c) \<rparr>))" for ms
    using content_invSuc [OF inv subset_refl, of ms] by simp
  then show ?thesis using True by (auto simp: content_query_def Let_def)
next
  case False
  let ?c = "c\<lparr> cc_next := Suc (cc_next c), cc_requests := jm_set rid (cc_next c) (cc_requests c),
      cc_running := cc_running c @ [(cc_next c, rid, req, pol)],
      cc_asked := cc_asked c @ [(cc_next c, rid, req, pol)] \<rparr>"
  note get = jm.get_put [OF content_invD(1) [OF inv]]
  have old: "jm_get (cc_requests c) rid' = Some t \<and> rid' \<noteq> rid" if "(t, rid', req') \<in> set (cc_running c)" for t rid' req'
    using content_invD(6) [OF inv _ that] False by (cases "rid' = rid") auto
  have "content_inv ?c"
  proof (rule content_invI)
    show "\<exists>req'. (t, rid', req') \<in> set (cc_running ?c)" if "jm_get (cc_requests ?c) rid' = Some t" for rid' t
      using that content_invD(3) [OF inv, of rid' t] by (auto simp: get split: if_splits)
    show "jm_get (cc_requests ?c) rid' = Some t" if "(t, rid', req') \<in> set (cc_running ?c)" for t rid' req'
      using that old [of t rid' req'] by (auto simp: get)
    show "set (cc_running ?c) \<subseteq> set (cc_asked ?c)" using content_invD(7) [OF inv] by auto
    show "distinct (map fst (cc_asked ?c))" "set (map fst (cc_asked ?c)) \<subseteq> {..<cc_next ?c}"
      using content_invD(8,9) [OF inv] by auto
  qed (use False content_invD(1,2) [OF inv] in \<open>simp_all add: jm.inv_put content_tickets_Suc\<close>)
  then show ?thesis using False by (simp add: content_query_def Let_def)
qed

lemma content_cancel_inv: "content_inv c \<Longrightarrow> content_inv (content_cancel target c)"
  unfolding content_cancel_def Let_def by (rule content_invSuc) (auto split: option.split)

lemma content_dispatch_inv: "content_inv c \<Longrightarrow> content_inv (content_dispatch m c)"
  by (simp add: content_dispatch_def content_query_inv content_cancel_inv)

lemma mset_filter_ticket:
  "distinct (map fst xs) \<Longrightarrow> t \<in> set (map fst xs) \<Longrightarrow> mset (map fst xs) = add_mset t (mset (map fst (filter (\<lambda>p. fst p \<noteq> t) xs)))"
proof (induction xs)
  case (Cons p xs)
  show ?case
  proof (cases "fst p = t")
    case True
    then have "t \<notin> set (map fst xs)" using Cons.prems(1) by simp
    then have "filter (\<lambda>p. fst p \<noteq> t) xs = xs" by (auto simp: filter_id_conv)
    then show ?thesis using True by simp
  next
    case False
    then have "mset (map fst xs) = add_mset t (mset (map fst (filter (\<lambda>p. fst p \<noteq> t) xs)))" using Cons by simp
    then show ?thesis using False by (simp add: add_mset_commute)
  qed
qed simp

lemma content_answer_inv:
  assumes "content_inv c"
  shows "content_inv (content_answer t a c)"
proof (cases "running c t")
  case (Some q)
  obtain rid req where q: "q = (rid, req)" by (cases q)
  let ?run = "filter (\<lambda>p. fst p \<noteq> t) (cc_running c)"
  let ?req = "if jm_get (cc_requests c) rid = Some t then jm_delete rid (cc_requests c) else cc_requests c"
  let ?c = "c\<lparr> cc_running := ?run, cc_requests := ?req \<rparr>"
  note inv = content_invD(1) [OF assms]
  have mem: "(t, rid, req) \<in> set (cc_running c)" using Some q by (simp add: running_def map_of_SomeD)
  have known: "t \<in> set (map fst (cc_running c))" using mem by force
  note dist = content_running_fresh(2) [OF assms]
  have one: "x = (rid, req)" if "(t, x) \<in> set (cc_running c)" for x using dist that mem by (metis eq_key_imp_eq_value)
  have tickets: "mset (map fst ?run) + mset (map fst (cc_answered c) @ [t]) = mset (content_tickets (cc_next c))"
    using content_invD(2) [OF assms] mset_filter_ticket [OF dist known] by simp
  have table: "\<exists>req'. (t', rid', req') \<in> set ?run" if g: "jm_get ?req rid' = Some t'" for rid' t'
  proof -
    have g': "jm_get (cc_requests c) rid' = Some t'" "rid' = rid \<Longrightarrow> jm_get (cc_requests c) rid \<noteq> Some t"
      using g inv by (auto simp: jm.get_del split: if_splits)
    then obtain req' where r: "(t', rid', req') \<in> set (cc_running c)" using content_invD(3) [OF assms] by blast
    have "t' \<noteq> t" using one [of "(rid', req')"] r g' by auto
    then have "(t', rid', req') \<in> set ?run" using r by simp
    then show ?thesis by (rule exI)
  qed
  have kept: "jm_get ?req rid' = Some t'" if "(t', rid', req') \<in> set ?run" "\<not> cc_closed c" for t' rid' req'
  proof -
    have g: "jm_get (cc_requests c) rid' = Some t'" "t' \<noteq> t" using that content_invD(6) [OF assms, of t' rid' req'] by simp_all
    then have "rid' \<noteq> rid \<or> jm_get (cc_requests c) rid \<noteq> Some t" by auto
    then show ?thesis using g inv by (auto simp: jm.get_del)
  qed
  have "content_inv (content_resolve t ms ?c)" for ms
  proof (rule content_invI, goal_cases)
    case 1 show ?case using inv by (simp add: jm.inv_del)
  next
    case 2 show ?case using tickets by simp
  next
    case (3 rid' t') then show ?case using table [of rid' t'] by simp
  next
    case 4 then show ?case using content_invD(4) [OF assms] by (simp add: jm_get_def)
  next
    case (5 t' rid' req') then show ?case using content_invD(5) [OF assms, of t' rid' req'] by simp
  next
    case (6 t' rid' req') then show ?case using kept [of t' rid' req'] by simp
  next
    case 7 show ?case using content_invD(7) [OF assms] by auto
  qed (use content_invD(8,9) [OF assms] in simp_all)
  then show ?thesis using Some q by (cases req) (simp add: content_answer_def Let_def split: if_splits)
qed (simp add: content_answer_def assms)

lemma content_close_inv:
  assumes inv: "content_inv c"
  shows "content_inv (content_close c)"
proof (cases "cc_closed c")
  case False
  have "t \<in> snd ` set (cc_requests c)" if "(t, rid, req) \<in> set (cc_running c)" for t rid req
    using content_invD(6) [OF inv False that] by (force simp: jm_get_def dest: map_of_SomeD)
  then have "t \<in> set (cc_aborted (content_close c))" if "(t, rid, req) \<in> set (cc_running c)" for t rid req
    using that False by (auto simp: content_close_def)
  then show ?thesis using False content_invD(2) [OF inv] by (intro content_invI) (simp_all add: content_close_def jm_get_def content_invD(7-9) [OF inv] del: set_map)
qed (simp add: content_close_def inv)

lemma content_listeners_inv [simp]: "content_inv (c\<lparr> cc_listeners := ls \<rparr>) = content_inv c"
  by (simp add: content_inv_def)

lemma content_partial_inv: "content_inv c \<Longrightarrow> content_inv (content_partial t part c)"
  by (simp add: content_partial_def split: option.split)

lemma content_step_inv: "content_inv c \<Longrightarrow> content_step c d \<Longrightarrow> content_inv d"
  by (erule content_step.cases)
    (simp_all add: content_dispatch_inv content_answer_inv content_close_inv content_partial_inv content_listen_def content_unlisten_def)

definition content_start :: "content_core \<Rightarrow> bool" where
  "content_start c \<longleftrightarrow> c = new_content"

interpretation con: stepping content_start content_step content_inv
proof unfold_locales
  show "content_inv s" if "content_start s" for s
    using that by (simp add: content_start_def new_content_def content_inv_def content_tickets_def jm_get_def)
qed (rule content_step_inv)

section \<open>What a cancelled query may still do\<close>

lemma content_dispatch_aborted: "set (cc_aborted c) \<subseteq> set (cc_aborted (content_dispatch m c))"
  by (auto simp: content_dispatch_def content_query_def content_cancel_def Let_def split: option.split)

lemma content_dispatch_running: "set (cc_running c) \<subseteq> set (cc_running (content_dispatch m c))"
  by (auto simp: content_dispatch_def content_query_def content_cancel_def Let_def)

lemma content_dispatch_answered: "set (cc_answered c) \<subseteq> set (cc_answered (content_dispatch m c))"
  by (auto simp: content_dispatch_def content_query_def content_cancel_def Let_def)

lemma content_partial_fields [simp]:
  "cc_requests (content_partial t part c) = cc_requests c" "cc_running (content_partial t part c) = cc_running c"
  "cc_closed (content_partial t part c) = cc_closed c" "cc_aborted (content_partial t part c) = cc_aborted c"
  "cc_next (content_partial t part c) = cc_next c" "cc_answered (content_partial t part c) = cc_answered c"
  "cc_asked (content_partial t part c) = cc_asked c"
  by (simp_all add: content_partial_def split: option.split)

lemma content_answer_fields:
  "cc_aborted (content_answer t a c) = cc_aborted c" "cc_closed (content_answer t a c) = cc_closed c"
  "cc_next (content_answer t a c) = cc_next c" "cc_asked (content_answer t a c) = cc_asked c"
  "cc_running (content_answer t a c) = filter (\<lambda>p. fst p \<noteq> t) (cc_running c)"
  "cc_answered (content_answer t a c) = cc_answered c @
     (case running c t of None \<Rightarrow> [] | Some (rid, req, pol) \<Rightarrow> [(t, [query_outcome rid req (t \<in> set (cc_aborted c)) a])])"
proof -
  have none: "filter (\<lambda>p. fst p \<noteq> t) (cc_running c) = cc_running c" if "running c t = None"
    using that by (auto simp: running_def map_of_eq_None_iff filter_id_conv)
  show "cc_aborted (content_answer t a c) = cc_aborted c" "cc_closed (content_answer t a c) = cc_closed c"
    "cc_next (content_answer t a c) = cc_next c" "cc_asked (content_answer t a c) = cc_asked c"
    "cc_running (content_answer t a c) = filter (\<lambda>p. fst p \<noteq> t) (cc_running c)"
    "cc_answered (content_answer t a c) = cc_answered c @
     (case running c t of None \<Rightarrow> [] | Some (rid, req, pol) \<Rightarrow> [(t, [query_outcome rid req (t \<in> set (cc_aborted c)) a])])"
    by (cases "running c t"; simp add: content_answer_def Let_def none split: prod.split)+
qed

lemma running_iff: "content_inv c \<Longrightarrow> running c t = Some q \<longleftrightarrow> (t, q) \<in> set (cc_running c)"
  using content_running_fresh(2) [of c] by (simp add: running_def)

lemma content_step_grows:
  assumes "content_step c d"
  shows "set (cc_aborted c) \<subseteq> set (cc_aborted d)" and "set (cc_answered c) \<subseteq> set (cc_answered d)"
  using assms
  by (cases, auto simp: content_answer_fields content_listen_def content_unlisten_def content_close_def
      dest: subsetD [OF content_dispatch_aborted] subsetD [OF content_dispatch_answered])+

lemma content_step_runs:
  assumes "content_step c d" and "content_inv c" and "(t, rid, req, pol) \<in> set (cc_running c)"
  shows "(t, rid, req, pol) \<in> set (cc_running d) \<or> (\<exists>a. (t, [query_outcome rid req (t \<in> set (cc_aborted c)) a]) \<in> set (cc_answered d))"
  using assms(1)
proof cases
  case (content_answers t' a)
  show ?thesis
  proof (cases "t' = t")
    case True
    then show ?thesis using content_answers running_iff [OF assms(2), of t "(rid, req, pol)"] assms(3)
      by (auto simp: content_answer_fields)
  qed (use content_answers assms(3) in \<open>simp add: content_answer_fields\<close>)
qed (use assms(3) subsetD [OF content_dispatch_running] in \<open>auto simp: content_listen_def content_unlisten_def content_close_def\<close>)

lemma aborted_outcome: "\<exists>f. query_outcome rid req True a = contentError f (Some rid)"
  by (auto simp: query_outcome_def split: sum.split)

definition stays_cancelled :: "nat \<Rightarrow> string \<Rightarrow> content_core \<Rightarrow> bool" where
  "stays_cancelled t rid c \<longleftrightarrow> content_inv c \<and> t \<in> set (cc_aborted c) \<and>
     ((\<exists>req pol. (t, rid, req, pol) \<in> set (cc_running c)) \<or> (\<exists>f. (t, [contentError f (Some rid)]) \<in> set (cc_answered c)))"

lemma stays_cancelled_step:
  assumes "stays_cancelled t rid c" and step: "content_step c d"
  shows "stays_cancelled t rid d"
proof -
  have inv: "content_inv c" and ab: "t \<in> set (cc_aborted c)" using assms(1) by (simp_all add: stays_cancelled_def)
  note grows = content_step_grows [OF step]
  have "(\<exists>req pol. (t, rid, req, pol) \<in> set (cc_running d)) \<or> (\<exists>f. (t, [contentError f (Some rid)]) \<in> set (cc_answered d))"
  proof (cases "\<exists>f. (t, [contentError f (Some rid)]) \<in> set (cc_answered c)")
    case False
    then obtain req pol where run: "(t, rid, req, pol) \<in> set (cc_running c)" using assms(1) by (auto simp: stays_cancelled_def)
    show ?thesis using content_step_runs [OF step inv run] aborted_outcome [of rid req] ab by (metis (full_types))
  qed (use grows(2) in blast)
  then show ?thesis using ab grows(1) content_step_inv [OF inv step] by (auto simp: stays_cancelled_def)
qed

lemma stays_cancelled_steps: "content_step\<^sup>*\<^sup>* c d \<Longrightarrow> stays_cancelled t rid c \<Longrightarrow> stays_cancelled t rid d"
  by (induction rule: rtranclp_induct) (auto intro: stays_cancelled_step)

lemma content_answered_distinct:
  assumes "content_inv c"
  shows "distinct (map fst (cc_running c) @ map fst (cc_answered c))" and "set (map fst (cc_running c) @ map fst (cc_answered c)) = {..<cc_next c}"
proof -
  have eq: "mset (map fst (cc_running c) @ map fst (cc_answered c)) = mset (content_tickets (cc_next c))"
    using content_invD(2) [OF assms] by simp
  then show "distinct (map fst (cc_running c) @ map fst (cc_answered c))"
    using mset_eq_imp_distinct_iff [OF eq] by (simp add: content_tickets_def)
  show "set (map fst (cc_running c) @ map fst (cc_answered c)) = {..<cc_next c}"
    using mset_eq_setD [OF eq] by (auto simp: content_tickets_def)
qed

lemma filter_key_single: "distinct (map fst xs) \<Longrightarrow> (k, v) \<in> set xs \<Longrightarrow> filter (\<lambda>p. fst p = k) xs = [(k, v)]"
  by (induction xs) (auto simp: filter_empty_conv rev_image_eqI)

text \<open>Every call of the content dispatcher has one outcome. Whatever queries overlap and however they are cancelled or
  answered, each call is either still running or has returned exactly once, and while the service is open no two
  running queries share a request id.\<close>

theorem content_answered_once:
  assumes "content_start c0" and "content_step\<^sup>*\<^sup>* c0 c"
  shows "distinct (map fst (cc_running c) @ map fst (cc_answered c)) \<and>
     set (map fst (cc_running c) @ map fst (cc_answered c)) = {..<cc_next c} \<and>
     (\<not> cc_closed c \<longrightarrow> distinct (map (fst \<circ> snd) (cc_running c)) \<and> set (map (fst \<circ> snd) (cc_running c)) = set (jm_keys (cc_requests c)))"
proof -
  have inv: "content_inv c" using con.inv_reachable [OF assms] .
  have keys: "set (jm_keys (cc_requests c)) = dom (jm_get (cc_requests c))" by (rule jm.keys_dom [OF content_invD(1) [OF inv]])
  have "set (map (fst \<circ> snd) (cc_running c)) = set (jm_keys (cc_requests c))" if open': "\<not> cc_closed c"
    unfolding keys
  proof (intro set_eqI iffI)
    fix rid
    show "rid \<in> dom (jm_get (cc_requests c))" if "rid \<in> set (map (fst \<circ> snd) (cc_running c))"
      using that content_invD(6) [OF inv open'] by fastforce
    show "rid \<in> set (map (fst \<circ> snd) (cc_running c))" if "rid \<in> dom (jm_get (cc_requests c))"
      using that content_invD(3) [OF inv] by force
  qed
  moreover have "distinct (map (fst \<circ> snd) (cc_running c))" if open': "\<not> cc_closed c"
  proof -
    have "inj_on (fst \<circ> snd) (set (cc_running c))"
    proof (rule inj_onI)
      fix p q assume pq: "p \<in> set (cc_running c)" "q \<in> set (cc_running c)" "(fst \<circ> snd) p = (fst \<circ> snd) q"
      have "jm_get (cc_requests c) (fst (snd x)) = Some (fst x)" if "x \<in> set (cc_running c)" for x
        using that content_invD(6) [OF inv open', of "fst x" "fst (snd x)" "snd (snd x)"] by simp
      from this [OF pq(1)] this [OF pq(2)] have "fst p = fst q" using pq(3) by simp
      then show "p = q" using pq content_running_fresh(2) [OF inv] by (metis eq_key_imp_eq_value prod.collapse)
    qed
    moreover have "distinct (cc_running c)" using content_running_fresh(2) [OF inv] by (simp add: distinct_map)
    ultimately show ?thesis by (simp add: distinct_map)
  qed
  ultimately show ?thesis using content_answered_distinct [OF inv] by blast
qed

text \<open>C27: A cancelled query never delivers. Once a running query was aborted, whatever happens afterwards the authority's
  improving answers are dropped and the only thing its caller is ever told is one error about that request.\<close>

theorem content_cancelled:
  assumes "content_start c0" and "content_step\<^sup>*\<^sup>* c0 c" and "(t, rid, req, pol) \<in> set (cc_running c)"
    and "t \<in> set (cc_aborted c)" and "content_step\<^sup>*\<^sup>* c d"
  shows "content_partial t part d = d \<and>
     (if t \<in> set (map fst (cc_running d)) then filter (\<lambda>p. fst p = t) (cc_answered d) = []
      else (\<exists>f. filter (\<lambda>p. fst p = t) (cc_answered d) = [(t, [contentError f (Some rid)])]))"
proof -
  have "stays_cancelled t rid c" using con.inv_reachable [OF assms(1,2)] assms(3,4) by (auto simp: stays_cancelled_def)
  then have d: "stays_cancelled t rid d" by (rule stays_cancelled_steps [OF assms(5)])
  then have inv: "content_inv d" by (simp add: stays_cancelled_def)
  have part: "content_partial t part d = d" using d by (auto simp: content_partial_def stays_cancelled_def split: option.split)
  show ?thesis
  proof (cases "t \<in> set (map fst (cc_running d))")
    case True
    then have "filter (\<lambda>p. fst p = t) (cc_answered d) = []"
      using content_running_fresh(3) [OF inv True] by (force simp: filter_empty_conv)
    then show ?thesis using True part by simp
  next
    case False
    then obtain f where mem: "(t, [contentError f (Some rid)]) \<in> set (cc_answered d)" using d by (force simp: stays_cancelled_def)
    have "distinct (map fst (cc_answered d))" using content_answered_distinct(1) [OF inv] by simp
    then have "filter (\<lambda>p. fst p = t) (cc_answered d) = [(t, [contentError f (Some rid)])]" using mem by (rule filter_key_single)
    then show ?thesis using False part by auto
  qed
qed

section \<open>A query that is cancelled\<close>

definition demo_content_query :: "string \<Rightarrow> string \<Rightarrow> jsval" where
  "demo_content_query requestId kind = JObj [(''type'', JStr ''content-query''), (''protocol'', CPROTOCOL),
     (''requestId'', JStr requestId), (''request'', JObj [(''kind'', JStr kind)])]"

definition demo_content_cancel :: "string \<Rightarrow> jsval" where
  "demo_content_cancel target = JObj [(''type'', JStr ''content-cancel''), (''protocol'', CPROTOCOL), (''targetRequestId'', JStr target)]"

definition demo_asked :: content_core where
  "demo_asked = content_dispatch (demo_content_query ''b'' ''service.regions'') (content_dispatch (demo_content_query ''a'' ''titles'') new_content)"

definition demo_aborted :: content_core where
  "demo_aborted = content_dispatch (demo_content_cancel ''a'') demo_asked"

lemmas demo_content_eval = demo_aborted_def demo_asked_def demo_content_query_def demo_content_cancel_def content_dispatch_def
  content_query_def content_cancel_def content_resolve_def new_content_def jm_get_def jm_set_def jm_keys_def Let_def

lemma demo_asked_reached: "content_step\<^sup>*\<^sup>* new_content demo_asked"
  unfolding demo_asked_def
  by (intro rtranclp.rtrancl_into_rtrancl [of content_step, OF _ content_dispatches]) simp

lemma demo_aborted_reached: "content_step\<^sup>*\<^sup>* new_content demo_aborted"
  unfolding demo_aborted_def by (rule rtranclp.rtrancl_into_rtrancl [of content_step, OF demo_asked_reached content_dispatches])

lemma new_content_starts: "content_start new_content"
  by (simp add: content_start_def)

theorem content_answered_once_witness:
  "distinct (map fst (cc_running demo_aborted) @ map fst (cc_answered demo_aborted)) \<and> map fst (cc_running demo_aborted) = [0, 1] \<and>
     map fst (cc_answered demo_aborted) = [2] \<and> jm_keys (cc_requests demo_aborted) = [''a'', ''b'']"
  using content_answered_once [OF new_content_starts demo_aborted_reached] by (simp add: demo_content_eval)

theorem content_cancelled_witness:
  "content_partial 0 (JObj [(''kind'', JStr ''titles'')]) demo_aborted = demo_aborted \<and>
   (\<exists>f. filter (\<lambda>p. fst p = 0) (cc_answered (content_answer 0 (Inr (JObj [(''kind'', JStr ''titles'')])) demo_aborted)) =
      [(0, [contentError f (Some ''a'')])])"
proof -
  have run: "(0, ''a'', JObj [(''kind'', JStr ''titles'')], JUndef) \<in> set (cc_running demo_aborted)" "0 \<in> set (cc_aborted demo_aborted)"
    by (simp_all add: demo_content_eval)
  note told = content_cancelled [OF new_content_starts demo_aborted_reached run]
  have "0 \<notin> set (map fst (cc_running (content_answer 0 (Inr (JObj [(''kind'', JStr ''titles'')])) demo_aborted)))"
    by (auto simp: content_answer_fields)
  then show ?thesis
    using told [OF rtranclp.rtrancl_refl] told [OF r_into_rtranclp [of content_step, OF content_answers]] by (auto split: if_splits)
qed

end
