(* ===== verification/ContentClient.thy ===== *)
theory ContentClient
  imports ContentFacts
begin

text \<open>
  \<^verbatim>\<open>web/src/lib/contentServiceClient.ts\<close>: the page's end of the content protocol. The state is the fields of
  \<open>ContentServiceClient\<close> with what its callers see: how the promise of each request id settled (\<open>cl_results\<close>, beside the request), the improving answers
  and the statuses told, and the abort listeners left on the callers' signals.
\<close>

section \<open>State\<close>

datatype error_scope = RequestScope | TransportScope | LocalScope

datatype content_error = ContentServiceError jsval error_scope

text \<open>What \<open>transport.send\<close> may throw.\<close>

datatype send_error = ThrownContent content_error | DataCloneError string | ThrownError string | ThrownOther

record content_pending =
  cp_request :: jsval
  cp_progress :: bool
  cp_signal :: bool

record content_client =
  cl_clientId :: string
  cl_pending :: "(string, content_pending) jmap"
  cl_statusListeners :: "nat list"
  cl_nextRequest :: nat
  cl_closed :: bool
  cl_watching :: "string list"
  cl_results :: "(string \<times> jsval \<times> (content_error + jsval)) list"
  cl_partials :: "(string \<times> jsval) list"
  cl_statuses :: "(nat \<times> jsval) list"

definition new_content_client :: "string \<Rightarrow> content_client" where
  "new_content_client clientId =
    \<lparr> cl_clientId = clientId, cl_pending = [], cl_statusListeners = [], cl_nextRequest = 0, cl_closed = False,
      cl_watching = [], cl_results = [], cl_partials = [], cl_statuses = [] \<rparr>"

definition clientCancelled :: content_error where
  "clientCancelled = ContentServiceError queryCancelled LocalScope"

fun sendFailure :: "send_error \<Rightarrow> content_error" where
  "sendFailure (ThrownContent e) = e"
| "sendFailure (DataCloneError message) = ContentServiceError (failureValue ''invalid-request'' message False) LocalScope"
| "sendFailure (ThrownError message) = ContentServiceError (failureValue ''unavailable'' message True) TransportScope"
| "sendFailure ThrownOther = ContentServiceError (failureValue ''unavailable'' ''content service transport failed'' True) TransportScope"

section \<open>Operations\<close>

definition contentId_at :: "string \<Rightarrow> nat \<Rightarrow> string" where
  "contentId_at clientId n = clientId @ '':content:'' @ nat_str n"

definition contentQueryMessage :: "string \<Rightarrow> jsval \<Rightarrow> jsval \<Rightarrow> jsval" where
  "contentQueryMessage requestId request policy = JObj
     ([(''type'', JStr ''content-query''), (''protocol'', CPROTOCOL), (''requestId'', JStr requestId), (''request'', request)] @
      (if truthy policy then [(''policy'', policy)] else []))"

definition contentCancelMessage :: "string \<Rightarrow> jsval" where
  "contentCancelMessage target = JObj
     [(''type'', JStr ''content-cancel''), (''protocol'', CPROTOCOL), (''targetRequestId'', JStr target)]"

text \<open>An entry leaves the table, its abort listener the signal, and its promise is settled.\<close>

definition client_settle :: "string \<Rightarrow> content_error + jsval \<Rightarrow> content_client \<Rightarrow> content_client" where
  "client_settle requestId outcome c =
    (case jm_get (cl_pending c) requestId of
       None \<Rightarrow> c
     | Some p \<Rightarrow> c\<lparr> cl_pending := jm_delete requestId (cl_pending c), cl_watching := removeAll requestId (cl_watching c),
                  cl_results := cl_results c @ [(requestId, cp_request p, outcome)] \<rparr>)"

text \<open>\<open>query\<close>: what it throws or rejects with at once, the messages handed to the transport, and the client. \<open>sends\<close> is
  what the transport throws; \<open>signal\<close> is whether the caller gave a signal and whether that is aborted.\<close>

definition client_query ::
  "send_error option \<Rightarrow> bool option \<Rightarrow> bool \<Rightarrow> jsval \<Rightarrow> jsval \<Rightarrow> content_client \<Rightarrow> content_error option \<times> jsval list \<times> content_client" where
  "client_query sends signal onProgress request policy c =
    (if cl_closed c \<or> signal = Some True then (Some clientCancelled, [], c)
     else
       let n = Suc (cl_nextRequest c); requestId = contentId_at (cl_clientId c) n;
           c1 = c\<lparr> cl_nextRequest := n,
             cl_pending := jm_set requestId \<lparr> cp_request = request, cp_progress = onProgress, cp_signal = signal \<noteq> None \<rparr> (cl_pending c),
             cl_watching := cl_watching c @ (if signal \<noteq> None then [requestId] else []) \<rparr>
       in case sends of
            None \<Rightarrow> (None, [contentQueryMessage requestId request policy], c1)
          | Some e \<Rightarrow> (None, [], client_settle requestId (Inl (sendFailure e)) c1))"

text \<open>The \<open>abort\<close> listener of a query: what it sends, if the transport takes it.\<close>

definition client_abort :: "bool \<Rightarrow> string \<Rightarrow> content_client \<Rightarrow> jsval list \<times> content_client" where
  "client_abort sends requestId c =
    (if requestId \<notin> set (cl_watching c) \<or> jm_get (cl_pending c) requestId = None then ([], c)
     else (if sends then [contentCancelMessage requestId] else [], client_settle requestId (Inl clientCancelled) c))"

definition client_failAll :: "content_error \<Rightarrow> content_client \<Rightarrow> content_client" where
  "client_failAll e c = c\<lparr> cl_pending := [], cl_watching := filter (\<lambda>r. r \<notin> set (jm_keys (cl_pending c))) (cl_watching c),
     cl_results := cl_results c @ map (\<lambda>(requestId, p). (requestId, cp_request p, Inl e)) (cl_pending c) \<rparr>"

definition client_close :: "content_client \<Rightarrow> content_client" where
  "client_close c =
    (if cl_closed c then c
     else (client_failAll clientCancelled c)\<lparr> cl_closed := True, cl_statusListeners := [] \<rparr>)"

definition client_onStatus :: "nat \<Rightarrow> content_client \<Rightarrow> content_client" where
  "client_onStatus l c =
    (if cl_closed c \<or> l \<in> set (cl_statusListeners c) then c else c\<lparr> cl_statusListeners := cl_statusListeners c @ [l] \<rparr>)"

definition client_offStatus :: "nat \<Rightarrow> content_client \<Rightarrow> content_client" where
  "client_offStatus l c = c\<lparr> cl_statusListeners := removeAll l (cl_statusListeners c) \<rparr>"

definition wrongKind :: "jsval \<Rightarrow> jsval \<Rightarrow> content_error" where
  "wrongKind result request = ContentServiceError (failureValue ''invalid-request''
     (''content service returned '' @ strOf (fld result ''kind'') @ '' for '' @ strOf (fld request ''kind'')) False) RequestScope"

definition client_receive :: "jsval \<Rightarrow> content_client \<Rightarrow> content_client" where
  "client_receive message c =
    (let type = fld message ''type''; requestId = fld message ''requestId''; result = fld message ''result'' in
     if cl_closed c then c
     else if type = JStr ''content-status'' then
       c\<lparr> cl_statuses := cl_statuses c @ map (\<lambda>l. (l, fld message ''status'')) (cl_statusListeners c) \<rparr>
     else if type = JStr ''content-error'' \<and> \<not> truthy requestId then
       client_failAll (ContentServiceError (fld message ''error'') TransportScope) c
     else if \<not> truthy requestId then c
     else case jm_get (cl_pending c) (strOf requestId) of
         None \<Rightarrow> c
       | Some p \<Rightarrow>
           if type = JStr ''content-progress'' then
             (if fld result ''kind'' = fld (cp_request p) ''kind'' \<and> cp_progress p
              then c\<lparr> cl_partials := cl_partials c @ [(strOf requestId, result)] \<rparr> else c)
           else if type = JStr ''content-error'' then
             client_settle (strOf requestId) (Inl (ContentServiceError (fld message ''error'') RequestScope)) c
           else if fld result ''kind'' \<noteq> fld (cp_request p) ''kind'' then
             client_settle (strOf requestId) (Inl (wrongKind result (cp_request p))) c
           else client_settle (strOf requestId) (Inr result) c)"

text \<open>\<open>PolicedContent.query\<close>: the profile's own policy, once it is there, replaces whatever the caller gives.\<close>

definition policed_query ::
  "jsval \<Rightarrow> send_error option \<Rightarrow> bool option \<Rightarrow> bool \<Rightarrow> jsval \<Rightarrow> jsval \<Rightarrow> content_client \<Rightarrow> content_error option \<times> jsval list \<times> content_client" where
  "policed_query own sends signal onProgress request given c = client_query sends signal onProgress request own c"

section \<open>Every query settles once\<close>

inductive client_step :: "content_client \<Rightarrow> content_client \<Rightarrow> bool" where
  client_queries: "client_step c (snd (snd (client_query sends signal onProgress request policy c)))"
| client_aborts: "client_step c (snd (client_abort sends requestId c))"
| client_receives: "client_step c (client_receive message c)"
| client_closes: "client_step c (client_close c)"
| client_watches: "client_step c (client_onStatus l c)"
| client_unwatches: "client_step c (client_offStatus l c)"

definition content_ids :: "string \<Rightarrow> nat \<Rightarrow> string list" where
  "content_ids clientId n = map (contentId_at clientId) [1..<Suc n]"

definition client_inv :: "content_client \<Rightarrow> bool" where
  "client_inv c \<longleftrightarrow> jm_inv (cl_pending c) \<and>
     mset (jm_keys (cl_pending c)) + mset (map fst (cl_results c)) = mset (content_ids (cl_clientId c) (cl_nextRequest c)) \<and>
     set (cl_watching c) = {requestId. \<exists>p. jm_get (cl_pending c) requestId = Some p \<and> cp_signal p} \<and>
     (\<forall>requestId request result. (requestId, request, Inr result) \<in> set (cl_results c) \<longrightarrow> fld result ''kind'' = fld request ''kind'')"

lemma contentId_at_inj [simp]: "contentId_at c m = contentId_at c n \<longleftrightarrow> m = n"
  by (simp add: contentId_at_def)

lemma content_ids_Suc: "mset (content_ids c (Suc n)) = add_mset (contentId_at c (Suc n)) (mset (content_ids c n))"
  by (simp add: content_ids_def)

lemma distinct_content_ids: "distinct (content_ids c n)"
  by (simp add: content_ids_def distinct_map inj_on_def del: upt_Suc)

lemma client_invD:
  assumes "client_inv c"
  shows "jm_inv (cl_pending c)"
    and "mset (jm_keys (cl_pending c)) + mset (map fst (cl_results c)) = mset (content_ids (cl_clientId c) (cl_nextRequest c))"
    and "set (cl_watching c) = {requestId. \<exists>p. jm_get (cl_pending c) requestId = Some p \<and> cp_signal p}"
    and "(requestId, request, Inr result) \<in> set (cl_results c) \<Longrightarrow> fld result ''kind'' = fld request ''kind''"
  using assms unfolding client_inv_def by blast+

lemma client_ids:
  assumes "client_inv c"
  shows "distinct (jm_keys (cl_pending c) @ map fst (cl_results c))"
    and "set (jm_keys (cl_pending c) @ map fst (cl_results c)) = contentId_at (cl_clientId c) ` {1..cl_nextRequest c}"
proof -
  have eq: "mset (jm_keys (cl_pending c) @ map fst (cl_results c)) = mset (content_ids (cl_clientId c) (cl_nextRequest c))"
    using client_invD(2) [OF assms] by simp
  show "distinct (jm_keys (cl_pending c) @ map fst (cl_results c))"
    using mset_eq_imp_distinct_iff [OF eq] distinct_content_ids by blast
  show "set (jm_keys (cl_pending c) @ map fst (cl_results c)) = contentId_at (cl_clientId c) ` {1..cl_nextRequest c}"
    using mset_eq_setD [OF eq] by (simp add: content_ids_def atLeastLessThanSuc_atLeastAtMost del: upt_Suc)
qed

lemma client_pending_dom: "client_inv c \<Longrightarrow> set (jm_keys (cl_pending c)) = dom (jm_get (cl_pending c))"
  by (rule jm.keys_dom [OF client_invD(1)])

lemma client_fresh: "client_inv c \<Longrightarrow> jm_get (cl_pending c) (contentId_at (cl_clientId c) (Suc (cl_nextRequest c))) = None"
proof -
  assume inv: "client_inv c"
  have "contentId_at (cl_clientId c) (Suc (cl_nextRequest c)) \<notin> contentId_at (cl_clientId c) ` {1..cl_nextRequest c}" by auto
  then show ?thesis using client_ids(2) [OF inv] client_pending_dom [OF inv] by (auto simp: domIff)
qed

lemma mset_remove_key: "distinct ks \<Longrightarrow> k \<in> set ks \<Longrightarrow> mset ks = add_mset k (mset (filter (\<lambda>x. x \<noteq> k) ks))"
proof (induction ks)
  case (Cons x ks)
  then show ?case
  proof (cases "x = k")
    case True
    then have "filter (\<lambda>x. x \<noteq> k) ks = ks" using Cons.prems(1) by (auto simp: filter_id_conv)
    then show ?thesis using True by simp
  qed (simp add: add_mset_commute)
qed simp

lemma client_settle_inv:
  assumes inv: "client_inv c"
    and ok: "\<And>p v. jm_get (cl_pending c) rid = Some p \<Longrightarrow> outcome = Inr v \<Longrightarrow> fld v ''kind'' = fld (cp_request p) ''kind''"
  shows "client_inv (client_settle rid outcome c)"
proof (cases "jm_get (cl_pending c) rid")
  case (Some p)
  note I = client_invD [OF inv]
  have "rid \<in> set (jm_keys (cl_pending c))" using Some client_pending_dom [OF inv] by auto
  then have keys: "mset (jm_keys (cl_pending c)) = add_mset rid (mset (jm_keys (jm_delete rid (cl_pending c))))"
    using mset_remove_key [OF jm.keys_distinct [OF I(1)]] jm.keys_del [OF I(1), of rid] by simp
  have "(requestId, request, Inr result) \<in> set (cl_results c @ [(rid, cp_request p, outcome)]) \<Longrightarrow> fld result ''kind'' = fld request ''kind''"
    for requestId request result using I(4) [of requestId request result] ok [OF Some, of result] by auto
  then show ?thesis
    using Some I(2,3) keys unfolding client_inv_def client_settle_def
    by (auto simp: jm.inv_del [OF I(1)] jm.get_del [OF I(1)])
qed (simp add: client_settle_def inv)

lemma client_failAll_inv:
  assumes inv: "client_inv c"
  shows "client_inv (client_failAll e c)"
proof -
  note I = client_invD [OF inv]
  have "map fst (map (\<lambda>(requestId, p). (requestId, cp_request p, Inl e :: content_error + jsval)) (cl_pending c)) = jm_keys (cl_pending c)"
    by (simp add: jm_keys_def comp_def case_prod_unfold)
  moreover have "filter (\<lambda>r. r \<notin> set (jm_keys (cl_pending c))) (cl_watching c) = []"
    using I(3) client_pending_dom [OF inv] by (auto simp: filter_empty_conv)
  moreover have "(requestId, request, Inr result) \<notin> set (map (\<lambda>(requestId, p). (requestId, cp_request p, Inl e)) (cl_pending c))"
    for requestId request result by auto
  ultimately show ?thesis using I(2,4) unfolding client_inv_def client_failAll_def by (auto simp: jm_get_def add.commute)
qed

lemma client_opened_inv:
  assumes inv: "client_inv c" and n: "n = Suc (cl_nextRequest c)" and rid: "rid = contentId_at (cl_clientId c) n"
  shows "client_inv (c\<lparr> cl_nextRequest := n, cl_pending := jm_set rid p (cl_pending c),
     cl_watching := cl_watching c @ (if cp_signal p then [rid] else []) \<rparr>)"
proof -
  note I = client_invD [OF inv]
  have "rid \<notin> set (jm_keys (cl_pending c))" using client_fresh [OF inv] client_pending_dom [OF inv] n rid by auto
  then show ?thesis
    using I(2,3,4) client_fresh [OF inv] n rid unfolding client_inv_def
    by (auto simp: jm.inv_put [OF I(1)] jm.get_put [OF I(1)] jm.keys_put [OF I(1)] content_ids_Suc)
qed

lemma client_query_inv:
  assumes inv: "client_inv c"
  shows "client_inv (snd (snd (client_query sends signal onProgress request policy c)))"
proof (cases "cl_closed c \<or> signal = Some True")
  case False
  note opened = client_opened_inv [OF inv refl refl, of "\<lparr> cp_request = request, cp_progress = onProgress, cp_signal = signal \<noteq> None \<rparr>"]
  show ?thesis
    using False opened client_settle_inv [OF opened, of _ "Inl (sendFailure (the sends))"]
    by (cases sends) (simp_all add: client_query_def Let_def)
qed (auto simp: client_query_def inv)

lemma client_receive_inv:
  assumes inv: "client_inv c"
  shows "client_inv (client_receive m c)"
  unfolding client_receive_def Let_def
proof (split if_split, intro conjI impI, goal_cases)
  case 2
  have same: "client_inv (c\<lparr> cl_statuses := x \<rparr>)" "client_inv (c\<lparr> cl_partials := y \<rparr>)" for x y
    using inv by (simp_all add: client_inv_def)
  show ?case
    using inv same by (auto intro!: client_failAll_inv client_settle_inv split: option.split)
qed (rule inv)

lemma client_other_inv [simp]:
  "client_inv (c\<lparr> cl_statusListeners := ls \<rparr>) = client_inv c" "client_inv (c\<lparr> cl_closed := b \<rparr>) = client_inv c"
  by (simp_all add: client_inv_def)

lemma client_abort_inv: "client_inv c \<Longrightarrow> client_inv (snd (client_abort sends rid c))"
  by (auto simp: client_abort_def intro: client_settle_inv)

lemma client_close_inv: "client_inv c \<Longrightarrow> client_inv (client_close c)"
  by (simp add: client_close_def client_failAll_inv)

lemma client_step_inv: "client_inv c \<Longrightarrow> client_step c d \<Longrightarrow> client_inv d"
  by (erule client_step.cases)
    (simp_all add: client_query_inv client_abort_inv client_receive_inv client_close_inv client_onStatus_def client_offStatus_def)

definition client_start :: "content_client \<Rightarrow> bool" where
  "client_start c \<longleftrightarrow> (\<exists>clientId. c = new_content_client clientId)"

interpretation ccl: stepping client_start client_step client_inv
proof unfold_locales
  show "client_inv s" if "client_start s" for s
    using that by (auto simp: client_start_def new_content_client_def client_inv_def content_ids_def jm_get_def)
qed (rule client_step_inv)

text \<open>A content query of the page settles once. Whatever the worker posts and whenever the callers abort, each request
  id given out is different and is either waiting or has exactly one result; a result is of the kind that was asked for;
  the abort listeners left on the callers' signals are those of the waiting queries; and a failure of the whole channel or
  closing leaves nothing waiting.\<close>

theorem content_settles_once:
  assumes "client_start c0" and "client_step\<^sup>*\<^sup>* c0 c"
  shows "distinct (jm_keys (cl_pending c) @ map fst (cl_results c)) \<and>
     set (jm_keys (cl_pending c) @ map fst (cl_results c)) = contentId_at (cl_clientId c) ` {1..cl_nextRequest c} \<and>
     (\<forall>requestId request result. (requestId, request, Inr result) \<in> set (cl_results c) \<longrightarrow> fld result ''kind'' = fld request ''kind'') \<and>
     set (cl_watching c) = {requestId. \<exists>p. jm_get (cl_pending c) requestId = Some p \<and> cp_signal p} \<and>
     cl_pending (client_failAll e c) = [] \<and> (\<not> cl_closed c \<longrightarrow> cl_pending (client_close c) = [])"
proof -
  have inv: "client_inv c" using ccl.inv_reachable [OF assms] .
  show ?thesis using client_ids [OF inv] client_invD(3,4) [OF inv] by (auto simp: client_failAll_def client_close_def)
qed

section \<open>Two queries and their answers\<close>

definition demo_content_client :: content_client where
  "demo_content_client =
    client_receive (contentResultMessage ''p:content:1'' (JObj [(''kind'', JStr ''titles'')]))
     (snd (snd (client_query None (Some False) False (JObj [(''kind'', JStr ''season'')]) JUndef
      (snd (snd (client_query None None True (JObj [(''kind'', JStr ''titles'')]) JUndef (new_content_client ''p'')))))))"

theorem content_settles_once_witness:
  "distinct (jm_keys (cl_pending demo_content_client) @ map fst (cl_results demo_content_client)) \<and>
   jm_keys (cl_pending demo_content_client) = [''p:content:2''] \<and> cl_watching demo_content_client = [''p:content:2''] \<and>
   cl_results demo_content_client = [(''p:content:1'', JObj [(''kind'', JStr ''titles'')], Inr (JObj [(''kind'', JStr ''titles'')]))] \<and>
   cl_pending (client_close demo_content_client) = []"
proof -
  have "client_step\<^sup>*\<^sup>* (new_content_client ''p'') demo_content_client"
    unfolding demo_content_client_def
    by (intro rtranclp.rtrancl_into_rtrancl [of client_step, OF _ client_receives]
        rtranclp.rtrancl_into_rtrancl [of client_step, OF _ client_queries] rtranclp.rtrancl_refl)
  moreover have "client_start (new_content_client ''p'')" by (auto simp: client_start_def)
  moreover have "jm_keys (cl_pending demo_content_client) = [''p:content:2'']" "cl_watching demo_content_client = [''p:content:2'']"
    "cl_results demo_content_client = [(''p:content:1'', JObj [(''kind'', JStr ''titles'')], Inr (JObj [(''kind'', JStr ''titles'')]))]"
    "\<not> cl_closed demo_content_client"
    by code_simp+
  ultimately show ?thesis using content_settles_once by simp
qed

end
