(* ===== verification/ContentPolicy.thy ===== *)
theory ContentPolicy
  imports ContentCodec JsonText "HOL-Library.Multiset"
begin

text \<open>
  \<^verbatim>\<open>web/src/lib/contentPolicy.ts\<close>: which content policy a profile's queries run under, how caches name it, and how a
  request to den-atlas is made to carry it. den-core's age rule (\<open>profile_policy_allows\<close>) is a parameter; \<open>None\<close> is
  that it could not run.
\<close>

section \<open>Policies\<close>

datatype unknown_ratings = Allow | Block

datatype kid_audience = Child | ChildOrTeen

datatype media = Movie | Tv

record title_ref =
  tr_type :: media
  tr_id :: int

record profile_content_policy =
  pp_maximumAge :: "int option"
  pp_unknownRatings :: unknown_ratings

record content_policy =
  po_maximumAge :: "int option"
  po_unknownRatings :: unknown_ratings
  po_kidAudience :: "kid_audience option"
  po_approvals :: "title_ref list option"
  po_region :: "string option"

definition TEEN_AUDIENCE_FROM_AGE :: int where "TEEN_AUDIENCE_FROM_AGE = 12"

fun isRestricted :: "content_policy option \<Rightarrow> bool" where
  "isRestricted None = False"
| "isRestricted (Some p) = (po_maximumAge p \<noteq> None \<or> po_unknownRatings p = Block \<or> po_kidAudience p \<noteq> None)"

fun failsClosed :: "content_policy option \<Rightarrow> bool" where
  "failsClosed None = False"
| "failsClosed (Some p) = (po_unknownRatings p = Block \<or> po_kidAudience p \<noteq> None)"

fun isAgeRestricted :: "content_policy option \<Rightarrow> bool" where
  "isAgeRestricted None = False"
| "isAgeRestricted (Some p) = (po_maximumAge p \<noteq> None \<or> po_unknownRatings p = Block)"

fun kidAudienceFor :: "int option \<Rightarrow> kid_audience" where
  "kidAudienceFor None = ChildOrTeen"
| "kidAudienceFor (Some age) = (if TEEN_AUDIENCE_FROM_AGE \<le> age then ChildOrTeen else Child)"

definition contentPolicyFor ::
  "profile_content_policy option \<Rightarrow> bool \<Rightarrow> string option \<Rightarrow> title_ref list \<Rightarrow> content_policy option" where
  "contentPolicyFor policy kid region approvals =
    (let base = (case policy of Some p \<Rightarrow> p
           | None \<Rightarrow> \<lparr> pp_maximumAge = (if kid then Some 0 else None), pp_unknownRatings = (if kid then Block else Allow) \<rparr>);
         effective = \<lparr> po_maximumAge = pp_maximumAge base, po_unknownRatings = pp_unknownRatings base,
           po_kidAudience = (if kid then Some (kidAudienceFor (pp_maximumAge base)) else None),
           po_approvals = (if kid \<and> approvals \<noteq> [] then Some approvals else None), po_region = None \<rparr>
     in if \<not> isRestricted (Some effective) then None
        else case region of
            None \<Rightarrow> Some effective
          | Some r \<Rightarrow> if re_exactly isUpper 2 r then Some (effective\<lparr> po_region := Some r \<rparr>) else Some effective)"

section \<open>On the wire\<close>

fun ratingsText :: "unknown_ratings \<Rightarrow> string" where
  "ratingsText Allow = ''allow''"
| "ratingsText Block = ''block''"

fun audienceText :: "kid_audience \<Rightarrow> string" where
  "audienceText Child = ''child''"
| "audienceText ChildOrTeen = ''child-or-teen''"

fun mediaText :: "media \<Rightarrow> string" where
  "mediaText Movie = ''movie''"
| "mediaText Tv = ''tv''"

definition titleValue :: "title_ref \<Rightarrow> jsval" where
  "titleValue t = JObj [(''type'', JStr (mediaText (tr_type t))), (''id'', jint (tr_id t))]"

definition optField :: "string \<Rightarrow> ('a \<Rightarrow> jsval) \<Rightarrow> 'a option \<Rightarrow> (string \<times> jsval) list" where
  "optField k enc v = (case v of None \<Rightarrow> [] | Some x \<Rightarrow> [(k, enc x)])"

text \<open>The object a \<open>ContentPolicy\<close> is.\<close>

definition policyValue :: "content_policy \<Rightarrow> jsval" where
  "policyValue p = JObj
     ([(''maximumAge'', case po_maximumAge p of None \<Rightarrow> JNull | Some n \<Rightarrow> jint n),
       (''unknownRatings'', JStr (ratingsText (po_unknownRatings p)))] @
      optField ''kidAudience'' (JStr \<circ> audienceText) (po_kidAudience p) @
      optField ''approvals'' (JArr \<circ> map titleValue) (po_approvals p) @ optField ''region'' JStr (po_region p))"

section \<open>The names caches use\<close>

definition orDash :: "('a \<Rightarrow> string) \<Rightarrow> 'a option \<Rightarrow> string" where
  "orDash enc v = (case v of None \<Rightarrow> ''-'' | Some x \<Rightarrow> enc x)"

definition titleKey :: "title_ref \<Rightarrow> string" where
  "titleKey t = mediaText (tr_type t) @ ''-'' @ int_str (tr_id t)"

definition policyKey :: "content_policy option \<Rightarrow> string" where
  "policyKey policy =
    (case policy of
       None \<Rightarrow> ''-''
     | Some p \<Rightarrow>
         if \<not> isRestricted policy then ''-''
         else
           let base = join_with ''_'' [orDash int_str (po_maximumAge p), ratingsText (po_unknownRatings p),
                 orDash (\<lambda>s. s) (po_region p), orDash audienceText (po_kidAudience p)];
               approvals = (case po_approvals p of None \<Rightarrow> [] | Some ts \<Rightarrow> join_with ''.'' (sort (map titleKey ts)))
           in if approvals \<noteq> [] then base @ ''_'' @ approvals else base)"

definition atlasPolicyIdentity :: "content_policy option \<Rightarrow> string option" where
  "atlasPolicyIdentity policy =
    (case policy of
       None \<Rightarrow> None
     | Some p \<Rightarrow>
         if \<not> isRestricted policy then None
         else Some (''maturity:v2;maximumAge='' @ orDash int_str (po_maximumAge p) @ '';unknownRatings='' @
           ratingsText (po_unknownRatings p) @ '';region='' @ orDash (\<lambda>s. s) (po_region p) @ '';kidAudience='' @
           orDash audienceText (po_kidAudience p)))"


definition ageAllowed ::
  "(int option \<Rightarrow> unknown_ratings \<Rightarrow> int option \<Rightarrow> bool \<Rightarrow> bool option) \<Rightarrow> content_policy option \<Rightarrow> int option \<Rightarrow> bool \<Rightarrow> bool" where
  "ageAllowed profile_policy_allows policy minimumAge explicitApproval =
    (case policy of
       None \<Rightarrow> True
     | Some p \<Rightarrow>
         if \<not> isAgeRestricted policy then True
         else profile_policy_allows (po_maximumAge p) (po_unknownRatings p) minimumAge explicitApproval = Some True)"

section \<open>Requests to den-atlas\<close>









definition orUndef :: "('a \<Rightarrow> jsval) \<Rightarrow> 'a option \<Rightarrow> jsval" where
  "orUndef enc v = (case v of None \<Rightarrow> JUndef | Some x \<Rightarrow> enc x)"





section \<open>The policy of a profile\<close>

lemma contentPolicyFor_None:
  "contentPolicyFor policy kid region approvals = None \<longleftrightarrow>
     \<not> kid \<and> (case policy of None \<Rightarrow> True | Some p \<Rightarrow> pp_maximumAge p = None \<and> pp_unknownRatings p = Allow)"
  by (cases policy; cases region) (auto simp: contentPolicyFor_def Let_def, (metis unknown_ratings.exhaust)+)

lemma contentPolicyFor_Some:
  assumes "contentPolicyFor policy kid region approvals = Some p"
  shows "po_kidAudience p = (if kid then Some (kidAudienceFor (po_maximumAge p)) else None)"
    and "po_approvals p = (if kid \<and> approvals \<noteq> [] then Some approvals else None)"
    and "po_maximumAge p = (case policy of None \<Rightarrow> Some 0 | Some b \<Rightarrow> pp_maximumAge b)"
    and "po_unknownRatings p = (case policy of None \<Rightarrow> Block | Some b \<Rightarrow> pp_unknownRatings b)"
    and "po_region p = (case region of None \<Rightarrow> None | Some r \<Rightarrow> if re_exactly isUpper 2 r then region else None)"
    and "isRestricted (Some p)"
  using assms by (auto simp: contentPolicyFor_def Let_def split: option.splits if_splits)

text \<open>A Kid's restriction is never lost. A profile runs without a policy only when it is no Kid and has neither a
  ceiling nor a block of unknown ratings; a Kid always gets a policy that fails closed, with the audience its ceiling
  gives, and a Kid whose policy cannot be read gets the strictest one.\<close>

theorem kid_fails_closed:
  "(contentPolicyFor policy kid region approvals = None \<longleftrightarrow>
      \<not> kid \<and> (case policy of None \<Rightarrow> True | Some b \<Rightarrow> pp_maximumAge b = None \<and> pp_unknownRatings b = Allow)) \<and>
   failsClosed (contentPolicyFor policy True region approvals) \<and>
   map_option po_kidAudience (contentPolicyFor policy True region approvals) =
     Some (Some (kidAudienceFor (case policy of None \<Rightarrow> Some 0 | Some b \<Rightarrow> pp_maximumAge b))) \<and>
   map_option (\<lambda>p. (po_maximumAge p, po_unknownRatings p, po_kidAudience p)) (contentPolicyFor None True region approvals) =
     Some (Some 0, Block, Some Child)"
proof -
  have some: "\<exists>p. contentPolicyFor b True region approvals = Some p" for b
    using contentPolicyFor_None [of b True region approvals] by auto
  obtain p where p: "contentPolicyFor policy True region approvals = Some p" using some by blast
  obtain q where q: "contentPolicyFor None True region approvals = Some q" using some by blast
  show ?thesis
    using contentPolicyFor_Some [OF p] contentPolicyFor_Some [OF q]
    by (simp add: contentPolicyFor_None p q TEEN_AUDIENCE_FROM_AGE_def)
qed

definition profile_policy_ok :: "profile_content_policy \<Rightarrow> bool" where
  "profile_policy_ok b \<longleftrightarrow> (case pp_maximumAge b of None \<Rightarrow> True | Some n \<Rightarrow> 0 \<le> n \<and> n \<le> 18)"

definition title_ref_ok :: "title_ref \<Rightarrow> bool" where
  "title_ref_ok t \<longleftrightarrow> 1 \<le> tr_id t \<and> tr_id t \<le> 9007199254740991"

lemma integerFrom_jint: "integerFrom (of_int a) (jint n) \<longleftrightarrow> \<bar>n\<bar> \<le> 9007199254740991 \<and> a \<le> n"
  unfolding integerFrom_def isSafeInteger_jint by simp

lemmas integerFrom_small = integerFrom_jint [of 0, simplified of_int_0] integerFrom_jint [of 1, simplified of_int_1]

lemma titleValue_ok: "title_ref_ok t \<Longrightarrow> contentTitleRef False (titleValue t)"
  by (cases "tr_type t")
    (simp_all add: title_ref_ok_def titleValue_def contentTitleRef_def exactKeys_def isMedia_def oneOf_def integerFrom_small
      del: isSafeInteger.simps)

lemma policyValue_fields:
  "fld (policyValue p) ''maximumAge'' = (case po_maximumAge p of None \<Rightarrow> JNull | Some n \<Rightarrow> jint n)"
  "fld (policyValue p) ''unknownRatings'' = JStr (ratingsText (po_unknownRatings p))"
  "fld (policyValue p) ''kidAudience'' = orUndef (JStr \<circ> audienceText) (po_kidAudience p)"
  "fld (policyValue p) ''approvals'' = orUndef (JArr \<circ> map titleValue) (po_approvals p)"
  "fld (policyValue p) ''region'' = orUndef JStr (po_region p)"
  "isRecord (policyValue p)"
  by (simp_all add: policyValue_def optField_def orUndef_def split: option.split)

lemma policyValue_keys: "exactKeys (policyValue p) [''maximumAge'', ''unknownRatings'', ''kidAudience'', ''region'', ''approvals'']"
  by (simp add: policyValue_def exactKeys_def optField_def split: option.split)

lemma policy_valid:
  assumes "contentPolicyFor policy kid region approvals = Some p"
    and "pred_option profile_policy_ok policy" and "length approvals \<le> 10000" and "list_all title_ref_ok approvals"
  shows "contentPolicyValue (policyValue p)"
proof -
  note p = contentPolicyFor_Some [OF assms(1)]
  have age: "po_maximumAge p = None \<or> (\<exists>n. po_maximumAge p = Some n \<and> 0 \<le> n \<and> n \<le> 18)"
    using assms(2) p(3) by (cases policy) (auto simp: profile_policy_ok_def split: option.splits)
  have "fld (policyValue p) ''maximumAge'' = JNull \<or>
      integerFrom 0 (fld (policyValue p) ''maximumAge'') \<and> num_le (fld (policyValue p) ''maximumAge'') 18"
    using age
  proof (elim disjE exE conjE)
    fix n assume n: "po_maximumAge p = Some n" "0 \<le> n" "n \<le> 18"
    have "rat_of_int n \<le> rat_of_int 18" unfolding of_int_le_iff by (rule n)
    then show ?thesis using n by (simp add: policyValue_fields integerFrom_small del: isSafeInteger.simps)
  qed (simp add: policyValue_fields)
  moreover have "listOf (JArr (map titleValue approvals)) (contentTitleRef False) 10000"
    using assms(3,4) titleValue_ok by (simp add: list_all_iff)
  then have "optional (fld (policyValue p) ''approvals'') (\<lambda>candidate. listOf candidate (contentTitleRef False) 10000)"
    unfolding policyValue_fields p(2) by (simp add: optional_def orUndef_def)
  moreover have "fld (policyValue p) ''region'' = JUndef \<or> isRegion (fld (policyValue p) ''region'')"
    unfolding policyValue_fields p(5) by (simp add: orUndef_def isRegion_def split: option.split)
  moreover have "fld (policyValue p) ''unknownRatings'' = JStr ''allow'' \<or> fld (policyValue p) ''unknownRatings'' = JStr ''block''"
    unfolding policyValue_fields by (cases "po_unknownRatings p") simp_all
  moreover have "fld (policyValue p) ''kidAudience'' = JUndef \<or> fld (policyValue p) ''kidAudience'' = JStr ''child'' \<or>
      fld (policyValue p) ''kidAudience'' = JStr ''child-or-teen''"
    unfolding policyValue_fields by (cases "po_kidAudience p"; cases "the (po_kidAudience p)") (simp_all add: orUndef_def)
  ultimately show ?thesis using policyValue_keys [of p] policyValue_fields(6) [of p] unfolding contentPolicyValue_def by blast
qed

text \<open>A profile's policy reaches the content worker. With ceilings of 0 to 18 and at most ten thousand approved titles,
  the policy computed for a profile is one the worker's decoder accepts.\<close>

theorem policy_accepted:
  assumes "contentPolicyFor policy kid region approvals = Some p"
    and "pred_option profile_policy_ok policy" and "length approvals \<le> 10000" and "list_all title_ref_ok approvals"
  shows "contentPolicyValue (policyValue p)"
  by (rule policy_valid [OF assms])


section \<open>Cache names\<close>

lemma join_with_inject:
  "xs \<noteq> [] \<Longrightarrow> ys \<noteq> [] \<Longrightarrow> list_all (\<lambda>s. c \<notin> set s) xs \<Longrightarrow> list_all (\<lambda>s. c \<notin> set s) ys \<Longrightarrow>
     join_with [c] xs = join_with [c] ys \<longleftrightarrow> xs = ys"
proof (induction "[c]" xs arbitrary: ys rule: join_with.induct)
  case (2 x)
  then show ?case by (cases "([c], ys)" rule: join_with.cases) auto
next
  case (3 x y zs)
  show ?case
  proof (cases "([c], ys)" rule: join_with.cases)
    case (3 sep a b ws)
    have ys: "ys = a # b # ws" using 3 by simp
    have "x @ c # u = a @ c # v \<longleftrightarrow> x = a \<and> u = v" for u v
      using "3.prems" ys by (auto simp: append_eq_append_conv2 append_eq_Cons_conv Cons_eq_append_conv)
    then show ?thesis using "3.hyps" [of "b # ws"] "3.prems" ys by simp
  qed (use "3.prems" in auto)
qed simp

definition policyParts :: "content_policy \<Rightarrow> string list" where
  "policyParts p = [orDash int_str (po_maximumAge p), ratingsText (po_unknownRatings p), orDash (\<lambda>s. s) (po_region p),
     orDash audienceText (po_kidAudience p)] @
     (case po_approvals p of None \<Rightarrow> [] | Some ts \<Rightarrow> if ts = [] then [] else [join_with ''.'' (sort (map titleKey ts))])"

lemma join_with_empty: "join_with sep xs = [] \<Longrightarrow> list_all (\<lambda>s. s \<noteq> []) xs \<Longrightarrow> xs = []"
  by (cases "(sep, xs)" rule: join_with.cases) auto

lemma sort_empty: "sort xs = [] \<longleftrightarrow> xs = []"
  by (metis set_empty set_sort)

lemma titleKey_nonempty: "titleKey t \<noteq> []"
  by (cases "tr_type t") (simp_all add: titleKey_def)

lemma policyKey_parts: "isRestricted (Some p) \<Longrightarrow> policyKey (Some p) = join_with ''_'' (policyParts p)"
proof (cases "po_approvals p")
  case (Some ts)
  have "join_with ''.'' (sort (map titleKey ts)) = [] \<longleftrightarrow> ts = []"
    using join_with_empty [of "''.''" "sort (map titleKey ts)"] titleKey_nonempty by (auto simp: list_all_iff sort_empty)
  then show "isRestricted (Some p) \<Longrightarrow> ?thesis" using Some by (simp add: policyKey_def policyParts_def Let_def)
qed (simp add: policyKey_def policyParts_def)

lemma int_str_chars: "c \<in> set (int_str n) \<Longrightarrow> isDigit c \<or> c = CHR ''-''"
  by (auto simp: int_str_def split: if_splits dest: nat_str_digits)

lemma int_str_marks: "CHR ''_'' \<notin> set (int_str n)" "CHR ''.'' \<notin> set (int_str n)"
  using int_str_chars [of _ n] by (force simp: isDigit_def less_eq_char_def)+

lemma titleKey_marks: "CHR ''_'' \<notin> set (titleKey t)" "CHR ''.'' \<notin> set (titleKey t)"
  using int_str_marks [of "tr_id t"] by (cases "tr_type t"; simp add: titleKey_def)+

lemma titleKey_inject: "titleKey s = titleKey t \<longleftrightarrow> s = t"
proof
  assume "titleKey s = titleKey t"
  then have "tr_type s = tr_type t \<and> tr_id s = tr_id t"
    by (cases "tr_type s"; cases "tr_type t") (simp_all add: titleKey_def)
  then show "s = t" by simp
qed simp

lemma join_with_chars: "c \<in> set (join_with sep xs) \<Longrightarrow> c \<in> set sep \<or> (\<exists>x \<in> set xs. c \<in> set x)"
  by (induction sep xs rule: join_with.induct) auto

definition region_ok :: "content_policy \<Rightarrow> bool" where
  "region_ok p \<longleftrightarrow> pred_option (re_exactly isUpper 2) (po_region p)"

lemma region_marks: "re_exactly isUpper 2 r \<Longrightarrow> CHR ''_'' \<notin> set r \<and> r \<noteq> ''-''"
  by (auto simp: re_exactly_def list_all_iff isUpper_def less_eq_char_def)

lemma policyParts_marks: "region_ok p \<Longrightarrow> list_all (\<lambda>s. CHR ''_'' \<notin> set s) (policyParts p)"
proof -
  assume ok: "region_ok p"
  have "CHR ''_'' \<notin> set (join_with ''.'' (sort (map titleKey ts)))" for ts
    using join_with_chars [of "CHR ''_''" "''.''" "sort (map titleKey ts)"] titleKey_marks by auto
  moreover have "CHR ''_'' \<notin> set (orDash (\<lambda>s. s) (po_region p))"
    using ok region_marks by (cases "po_region p") (simp_all add: region_ok_def orDash_def)
  moreover have "CHR ''_'' \<notin> set (ratingsText (po_unknownRatings p))" by (cases "po_unknownRatings p") simp_all
  moreover have "CHR ''_'' \<notin> set (orDash audienceText (po_kidAudience p))"
    by (cases "po_kidAudience p"; cases "the (po_kidAudience p)") (simp_all add: orDash_def)
  ultimately show ?thesis
    using int_str_marks(1) by (auto simp: policyParts_def orDash_def split: option.split)
qed

lemma int_str_not_dash: "int_str n \<noteq> ''-''"
proof
  assume dash: "int_str n = ''-''"
  then have "0 \<le> n" by (cases "n < 0") (simp_all add: int_str_def)
  with dash have "CHR ''-'' \<in> set (nat_str (nat n))" by (simp add: int_str_def)
  then show False using nat_str_digits minus_not_digit by blast
qed

lemma ratingsText_inject: "ratingsText a = ratingsText b \<longleftrightarrow> a = b"
  by (cases a; cases b) simp_all

lemma audienceText_inject: "audienceText a = audienceText b \<longleftrightarrow> a = b"
  by (cases a; cases b) simp_all

lemma orDash_inject:
  assumes "orDash enc a = orDash enc b" and "\<And>x. P x \<Longrightarrow> enc x \<noteq> ''-''" and "inj enc" and "pred_option P a" and "pred_option P b"
  shows "a = b"
proof (cases a; cases b)
  fix x assume "a = None" "b = Some x"
  then show ?thesis using assms(1,5) assms(2) [of x] by (simp add: orDash_def)
next
  fix x assume "a = Some x" "b = None"
  then show ?thesis using assms(1,4) assms(2) [of x] by (simp add: orDash_def)
qed (use assms(1,3) in \<open>simp_all add: orDash_def inj_eq\<close>)

lemma approvals_inject:
  assumes "join_with ''.'' (sort (map titleKey ts)) = join_with ''.'' (sort (map titleKey us))" and "ts \<noteq> []" and "us \<noteq> []"
  shows "mset ts = mset us"
proof -
  have "sort (map titleKey ts) = sort (map titleKey us)"
    using join_with_inject [of "sort (map titleKey ts)" "sort (map titleKey us)" "CHR ''.''"] assms titleKey_marks(2)
    by (simp add: list_all_iff sort_empty)
  then have "image_mset titleKey (mset ts) = image_mset titleKey (mset us)" by (metis mset_map mset_sort)
  then show ?thesis using multiset.inj_map [of titleKey] titleKey_inject by (auto simp: inj_def)
qed

text \<open>The titles a policy approves, as a bag: their order does not matter.\<close>

definition approved :: "content_policy \<Rightarrow> title_ref multiset" where
  "approved p = mset (case po_approvals p of None \<Rightarrow> [] | Some ts \<Rightarrow> ts)"

lemma policyParts_inject:
  assumes "region_ok p" and "region_ok q" and eq: "policyParts p = policyParts q"
  shows "po_maximumAge p = po_maximumAge q \<and> po_unknownRatings p = po_unknownRatings q \<and> po_region p = po_region q \<and>
     po_kidAudience p = po_kidAudience q \<and> approved p = approved q"
proof -
  have parts: "orDash int_str (po_maximumAge p) = orDash int_str (po_maximumAge q)"
    "ratingsText (po_unknownRatings p) = ratingsText (po_unknownRatings q)"
    "orDash (\<lambda>s. s) (po_region p) = orDash (\<lambda>s. s) (po_region q)"
    "orDash audienceText (po_kidAudience p) = orDash audienceText (po_kidAudience q)"
    using eq by (simp_all add: policyParts_def)
  have "approved p = approved q"
  proof (cases "approved p = {#} \<or> approved q = {#}")
    case True
    have "(case po_approvals p of None \<Rightarrow> [] | Some ts \<Rightarrow> if ts = [] then [] else [join_with ''.'' (sort (map titleKey ts))]) =
        (case po_approvals q of None \<Rightarrow> [] | Some ts \<Rightarrow> if ts = [] then [] else [join_with ''.'' (sort (map titleKey ts))])"
      using eq by (simp add: policyParts_def)
    then show ?thesis using True by (simp add: approved_def split: option.splits if_splits)
  next
    case False
    then obtain ts us where "po_approvals p = Some ts" "ts \<noteq> []" "po_approvals q = Some us" "us \<noteq> []"
      by (auto simp: approved_def split: option.splits)
    then show ?thesis using eq approvals_inject [of ts us] by (simp add: policyParts_def approved_def)
  qed
  moreover have "po_maximumAge p = po_maximumAge q"
    by (rule orDash_inject [OF parts(1), of "\<lambda>_. True"]) (simp_all add: int_str_not_dash inj_def option.pred_True)
  moreover have "po_region p = po_region q"
    using assms(1,2) by (intro orDash_inject [OF parts(3), of "re_exactly isUpper 2"]) (simp_all add: region_marks inj_def region_ok_def)
  moreover have dash: "audienceText k \<noteq> ''-''" for k by (cases k) simp_all
  have "po_kidAudience p = po_kidAudience q"
    by (rule orDash_inject [OF parts(4), of "\<lambda>_. True"]) (simp_all add: dash audienceText_inject inj_def option.pred_True)
  ultimately show ?thesis using parts(2) by (simp add: ratingsText_inject)
qed

lemma policyParts_cong:
  "po_maximumAge p = po_maximumAge q \<and> po_unknownRatings p = po_unknownRatings q \<and> po_region p = po_region q \<and>
     po_kidAudience p = po_kidAudience q \<and> approved p = approved q \<Longrightarrow> policyParts p = policyParts q"
  by (auto simp: policyParts_def approved_def split: option.splits intro!: arg_cong [of _ _ "join_with ''.''"] properties_for_sort)

text \<open>C25: No cache mixes two policies. Two policies have the same cache name only when they restrict alike: both nothing at
  all, or the same ceiling, unknown-rating rule, region, audience and approved titles in whatever order.\<close>

theorem policyKey_injective:
  assumes "region_ok p" and "region_ok q"
  shows "policyKey (Some p) = policyKey (Some q) \<longleftrightarrow>
     (if isRestricted (Some p)
      then po_maximumAge p = po_maximumAge q \<and> po_unknownRatings p = po_unknownRatings q \<and> po_region p = po_region q \<and>
        po_kidAudience p = po_kidAudience q \<and> approved p = approved q
      else \<not> isRestricted (Some q))"
proof -
  let ?alike = "po_maximumAge p = po_maximumAge q \<and> po_unknownRatings p = po_unknownRatings q \<and> po_region p = po_region q \<and>
    po_kidAudience p = po_kidAudience q \<and> approved p = approved q"
  have dash: "policyKey (Some r) = ''-'' \<longleftrightarrow> \<not> isRestricted (Some r)" if "region_ok r" for r
  proof (cases "isRestricted (Some r)")
    case True
    have "join_with ''_'' (policyParts r) \<noteq> join_with ''_'' [''-'']"
      using join_with_inject [of "policyParts r" "[''-'']" "CHR ''_''"] policyParts_marks [OF that] by (simp add: policyParts_def)
    then show ?thesis using True policyKey_parts [OF True] by simp
  qed (simp add: policyKey_def)
  show ?thesis
  proof (cases "isRestricted (Some p) \<and> isRestricted (Some q)")
    case True
    have same: "isRestricted (Some q)" "isRestricted (Some p)" using True by blast+
    have "policyKey (Some p) = policyKey (Some q) \<longleftrightarrow> policyParts p = policyParts q"
      unfolding policyKey_parts [OF same(1)] policyKey_parts [OF same(2)]
      using join_with_inject [of "policyParts p" "policyParts q" "CHR ''_''"] policyParts_marks assms by (simp add: policyParts_def)
    also have "\<dots> \<longleftrightarrow> ?alike" by (rule iffI [OF policyParts_inject [OF assms] policyParts_cong])
    finally show ?thesis unfolding if_P [OF same(2)] .
  next
    case False
    have keys: "policyKey (Some p) = policyKey (Some q) \<longleftrightarrow> \<not> isRestricted (Some p) \<and> \<not> isRestricted (Some q)"
      using False dash [OF assms(1)] dash [OF assms(2)] by metis
    show ?thesis
    proof (cases "isRestricted (Some p)")
      case True
      then have "\<not> ?alike" using False by auto
      then show ?thesis unfolding if_P [OF True] using keys True by blast
    next
      case no: False
      show ?thesis unfolding if_not_P [OF no] using keys no by blast
    qed
  qed
qed


section \<open>What reaches den-atlas\<close>

















section \<open>Concrete policies\<close>

definition demo_kid :: content_policy where
  "demo_kid = \<lparr> po_maximumAge = Some 7, po_unknownRatings = Allow, po_kidAudience = Some Child,
     po_approvals = Some [\<lparr> tr_type = Movie, tr_id = 603 \<rparr>, \<lparr> tr_type = Tv, tr_id = 12 \<rparr>], po_region = Some ''FI'' \<rparr>"

lemma demo_region: "re_exactly isUpper 2 ''FI''"
  by (simp add: re_exactly_def isUpper_def less_eq_char_def)

lemma demo_kid_policy:
  "contentPolicyFor (Some \<lparr> pp_maximumAge = Some 7, pp_unknownRatings = Allow \<rparr>) True (Some ''FI'')
     [\<lparr> tr_type = Movie, tr_id = 603 \<rparr>, \<lparr> tr_type = Tv, tr_id = 12 \<rparr>] = Some demo_kid"
  by (simp add: contentPolicyFor_def demo_kid_def demo_region TEEN_AUDIENCE_FROM_AGE_def)

theorem policy_accepted_witness: "contentPolicyValue (policyValue demo_kid)"
  by (rule policy_accepted [OF demo_kid_policy]) (simp_all add: profile_policy_ok_def title_ref_ok_def)

theorem policyKey_injective_witness:
  "policyKey (Some demo_kid) =
     policyKey (Some (demo_kid\<lparr> po_approvals := Some [\<lparr> tr_type = Tv, tr_id = 12 \<rparr>, \<lparr> tr_type = Movie, tr_id = 603 \<rparr>] \<rparr>)) \<and>
   policyKey (Some demo_kid) \<noteq> policyKey (Some (demo_kid\<lparr> po_maximumAge := Some 16 \<rparr>)) \<and>
   policyKey (Some demo_kid) \<noteq> policyKey (Some (demo_kid\<lparr> po_approvals := None \<rparr>))"
proof -
  have ok: "region_ok (demo_kid\<lparr> po_approvals := a \<rparr>)" "region_ok (demo_kid\<lparr> po_maximumAge := n \<rparr>)" "region_ok demo_kid" for a n
    using demo_region by (simp_all add: region_ok_def demo_kid_def)
  show ?thesis unfolding policyKey_injective [OF ok(3) ok(1)] policyKey_injective [OF ok(3) ok(2)]
    by (simp add: demo_kid_def approved_def)
qed



end
