(* ===== verification/ContentHost.thy ===== *)
theory ContentHost
  imports ContentClient ContentPolicy
begin

text \<open>
  The content half of \<^verbatim>\<open>libraryServiceWorkerHost.ts\<close> and of \<^verbatim>\<open>libraryServiceWorkerTransport.ts\<close>, and the whole content
  channel: the page's client, the messages under way in both directions, the worker's edge and its dispatcher, in every
  order of their steps. The authority behind the dispatcher is free. An answer is posted in the step that makes it.
\<close>

section \<open>The worker's edge\<close>

definition isContentServiceClientMessage :: "jsval \<Rightarrow> bool" where
  "isContentServiceClientMessage input \<longleftrightarrow>
     isRecord input \<and> (fld input ''type'' = JStr ''content-query'' \<or> fld input ''type'' = JStr ''content-cancel'')"

definition isContentServiceServerMessage :: "jsval \<Rightarrow> bool" where
  "isContentServiceServerMessage input \<longleftrightarrow>
     isRecord input \<and> (fld input ''type'' = JStr ''content-result'' \<or> fld input ''type'' = JStr ''content-progress'' \<or>
       fld input ''type'' = JStr ''content-error'' \<or> fld input ''type'' = JStr ''content-status'')"

record content_host =
  ch_core :: content_core
  ch_ready :: bool
  ch_closed :: bool

text \<open>The constructor: with a content dispatcher, the host is its listener 0.\<close>

definition new_content_host :: "bool \<Rightarrow> content_host" where
  "new_content_host ready = \<lparr> ch_core = content_listen 0 new_content, ch_ready = ready, ch_closed = False \<rparr>"

definition invalidContentReply :: "content_failure \<Rightarrow> jsval" where
  "invalidContentReply f = failureValue ''internal'' (''content service produced an invalid reply: '' @ cf_message f) True"

fun decodeContentReplies :: "jsval list \<Rightarrow> content_failure + jsval list" where
  "decodeContentReplies [] = Inr []"
| "decodeContentReplies (m # ms) =
    (case decodeContentServiceServerMessage m of
       Inl f \<Rightarrow> Inl f
     | Inr r \<Rightarrow> (case decodeContentReplies ms of Inl f \<Rightarrow> Inl f | Inr rs \<Rightarrow> Inr (r # rs)))"

text \<open>\<open>#publishContent\<close> and \<open>#post\<close>: the batches posted.\<close>

definition publishContent :: "jsval list \<Rightarrow> string option \<Rightarrow> jsval list list" where
  "publishContent output requestId =
    (case decodeContentReplies output of
       Inl f \<Rightarrow> [[contentError (invalidContentReply f) requestId]]
     | Inr messages \<Rightarrow> if messages = [] then [] else [messages])"

text \<open>What the dispatcher returned, and what it handed to listener 0, between two states of it.\<close>

definition newly_answered :: "content_core \<Rightarrow> content_core \<Rightarrow> jsval list list" where
  "newly_answered c d = map snd (drop (length (cc_answered c)) (cc_answered d))"

definition newly_published :: "content_core \<Rightarrow> content_core \<Rightarrow> jsval list list" where
  "newly_published c d = map snd (filter (\<lambda>p. fst p = 0) (drop (length (cc_published c)) (cc_published d)))"

text \<open>\<open>#receive\<close> and \<open>#dispatchContent\<close>. The dispatcher answers every query with a value, so the \<open>catch\<close> is not reached.\<close>

definition host_content :: "js_env \<Rightarrow> jsval \<Rightarrow> content_host \<Rightarrow> jsval list list \<times> content_host" where
  "host_content E input h =
    (if ch_closed h then ([], h)
     else case decodeContentServiceClientMessage E input of
         Inl f \<Rightarrow> ([[contentError (encContentFailure f) (requestIdOf input)]], h)
       | Inr request \<Rightarrow>
           let requestId = (if fld request ''type'' = JStr ''content-query'' then Some (strOf (fld request ''requestId'')) else None) in
           if \<not> ch_ready h then
             (if requestId = None then []
              else [[contentError (failureValue ''not-ready'' ''content service is not ready'' True) requestId]], h)
           else
             let core = content_dispatch request (ch_core h)
             in (concat (map (\<lambda>ms. publishContent ms requestId) (newly_answered (ch_core h) core)), h\<lparr> ch_core := core \<rparr>))"

text \<open>An answer of the authority, an improving one, and a status.\<close>

definition host_answer :: "nat \<Rightarrow> content_thrown + jsval \<Rightarrow> content_host \<Rightarrow> jsval list list \<times> content_host" where
  "host_answer ticket answer h =
    (let core = content_answer ticket answer (ch_core h); requestId = map_option fst (running (ch_core h) ticket)
     in (if ch_closed h then [] else concat (map (\<lambda>ms. publishContent ms requestId) (newly_answered (ch_core h) core)),
         h\<lparr> ch_core := core \<rparr>))"

definition host_published :: "content_core \<Rightarrow> content_host \<Rightarrow> jsval list list \<times> content_host" where
  "host_published core h =
    (if ch_closed h then [] else concat (map (\<lambda>ms. publishContent ms (requestIdOf (hd ms))) (newly_published (ch_core h) core)),
     h\<lparr> ch_core := core \<rparr>)"

definition host_partial :: "nat \<Rightarrow> jsval \<Rightarrow> content_host \<Rightarrow> jsval list list \<times> content_host" where
  "host_partial ticket part h = host_published (content_partial ticket part (ch_core h)) h"

definition host_tells :: "jsval \<Rightarrow> content_host \<Rightarrow> jsval list list \<times> content_host" where
  "host_tells status h = host_published (content_publish [contentStatusMessage status] (ch_core h)) h"

section \<open>The page's transport\<close>

text \<open>\<open>send\<close>: what it throws. \<open>clone\<close> is the \<open>DataCloneError\<close> of \<open>postMessage\<close>, if the message cannot be cloned.\<close>

definition transport_send :: "bool \<Rightarrow> string option \<Rightarrow> send_error option" where
  "transport_send transportClosed clone =
    (if transportClosed then Some (ThrownError ''library service worker is unavailable'') else map_option DataCloneError clone)"

text \<open>\<open>#message\<close> for the content listener, and the message of \<open>#fail\<close>.\<close>

definition transport_message :: "jsval list \<Rightarrow> content_client \<Rightarrow> content_client" where
  "transport_message batch c = fold client_receive (filter isContentServiceServerMessage batch) c"

definition transport_failed :: "string \<Rightarrow> jsval" where
  "transport_failed message = contentError (failureValue ''unavailable'' message True) None"

section \<open>The channel\<close>

record content_channel =
  cs_client :: content_client
  cs_toWorker :: "jsval list"
  cs_host :: content_host
  cs_toPage :: "jsval list list"
  cs_lost :: bool
  cs_cancelled :: "string list"

definition channel_ask ::
  "string option \<Rightarrow> bool option \<Rightarrow> bool \<Rightarrow> jsval \<Rightarrow> jsval \<Rightarrow> jsval \<Rightarrow> content_channel \<Rightarrow> content_channel" where
  "channel_ask clone signal onProgress request own given s =
    (case policed_query own (transport_send (cs_lost s) clone) signal onProgress request given (cs_client s) of
       (refused, sent, c) \<Rightarrow> s\<lparr> cs_client := c, cs_toWorker := cs_toWorker s @ sent \<rparr>)"

definition channel_abort :: "string \<Rightarrow> content_channel \<Rightarrow> content_channel" where
  "channel_abort requestId s =
    (case client_abort (transport_send (cs_lost s) None = None) requestId (cs_client s) of
       (sent, c) \<Rightarrow> s\<lparr> cs_client := c, cs_toWorker := cs_toWorker s @ sent,
          cs_cancelled := cs_cancelled s @ (if sent = [] then [] else [requestId]) \<rparr>)"

definition channel_post :: "jsval list list \<times> content_host \<Rightarrow> content_channel \<Rightarrow> content_channel" where
  "channel_post r s = s\<lparr> cs_host := snd r, cs_toPage := cs_toPage s @ fst r \<rparr>"

definition channel_serve :: "js_env \<Rightarrow> content_channel \<Rightarrow> content_channel" where
  "channel_serve E s =
    (case cs_toWorker s of
       [] \<Rightarrow> s
     | m # ms \<Rightarrow> channel_post (host_content E m (cs_host s)) (s\<lparr> cs_toWorker := ms \<rparr>))"

definition channel_deliver :: "content_channel \<Rightarrow> content_channel" where
  "channel_deliver s =
    (case cs_toPage s of
       [] \<Rightarrow> s
     | batch # rest \<Rightarrow> s\<lparr> cs_client := transport_message batch (cs_client s), cs_toPage := rest \<rparr>)"

text \<open>The worker fails: the transport closes, which ends the worker and all that is under way, and tells the client.\<close>

definition channel_fail :: "string \<Rightarrow> content_channel \<Rightarrow> content_channel" where
  "channel_fail message s =
    (if cs_lost s then s
     else s\<lparr> cs_client := client_receive (transport_failed message) (cs_client s), cs_toWorker := [], cs_toPage := [], cs_lost := True \<rparr>)"

definition channel_close :: "bool \<Rightarrow> content_channel \<Rightarrow> content_channel" where
  "channel_close ownsTransport s =
    (if ownsTransport \<and> \<not> cl_closed (cs_client s)
     then s\<lparr> cs_client := client_close (cs_client s), cs_toWorker := [], cs_toPage := [], cs_lost := True \<rparr>
     else s\<lparr> cs_client := client_close (cs_client s) \<rparr>)"

text \<open>\<open>P\<close> are the policies of the ports the page asks through.\<close>

inductive channel_step :: "js_env \<Rightarrow> (jsval \<Rightarrow> bool) \<Rightarrow> content_channel \<Rightarrow> content_channel \<Rightarrow> bool" for E P where
  channel_asks: "P own \<Longrightarrow> channel_step E P s (channel_ask clone signal onProgress request own given s)"
| channel_aborts: "channel_step E P s (channel_abort requestId s)"
| channel_serves: "\<not> cs_lost s \<Longrightarrow> channel_step E P s (channel_serve E s)"
| channel_answers: "\<not> cs_lost s \<Longrightarrow> channel_step E P s (channel_post (host_answer ticket answer (cs_host s)) s)"
| channel_improves: "\<not> cs_lost s \<Longrightarrow> channel_step E P s (channel_post (host_partial ticket part (cs_host s)) s)"
| channel_tells: "\<not> cs_lost s \<Longrightarrow> channel_step E P s (channel_post (host_tells status (cs_host s)) s)"
| channel_delivers: "\<not> cs_lost s \<Longrightarrow> channel_step E P s (channel_deliver s)"
| channel_fails: "channel_step E P s (channel_fail message s)"
| channel_closes: "channel_step E P s (channel_close ownsTransport s)"

definition channel_start :: "content_channel \<Rightarrow> bool" where
  "channel_start s \<longleftrightarrow> (\<exists>clientId ready. s = \<lparr> cs_client = new_content_client clientId, cs_toWorker = [],
     cs_host = new_content_host ready, cs_toPage = [], cs_lost = False, cs_cancelled = [] \<rparr>)"


section \<open>What one step of each part does\<close>

definition waits :: "content_client \<Rightarrow> string \<Rightarrow> bool" where
  "waits c requestId \<longleftrightarrow> jm_get (cl_pending c) requestId \<noteq> None"

definition asks_for :: "string \<Rightarrow> jsval \<Rightarrow> bool" where
  "asks_for requestId m \<longleftrightarrow> isRecord m \<and> fld m ''type'' = JStr ''content-query'' \<and> fld m ''requestId'' = JStr requestId"

text \<open>A message that settles a request, or every request.\<close>

definition settles :: "string \<Rightarrow> jsval \<Rightarrow> bool" where
  "settles requestId m \<longleftrightarrow> isContentServiceServerMessage m \<and>
     (fld m ''type'' = JStr ''content-error'' \<and> (\<not> truthy (fld m ''requestId'') \<or> fld m ''requestId'' = JStr requestId) \<or>
      fld m ''type'' = JStr ''content-result'' \<and> fld m ''requestId'' = JStr requestId)"

lemma contentError_fields [simp]:
  "isRecord (contentError f rid)" "fld (contentError f rid) ''type'' = JStr ''content-error''" "fld (contentError f rid) ''error'' = f"
  "fld (contentError f rid) ''requestId'' = (case rid of None \<Rightarrow> JUndef | Some r \<Rightarrow> if r = [] then JUndef else JStr r)"
  by (simp_all add: contentError_def truthy_field_def split: option.split)

lemma contentError_settles: "rid \<noteq> [] \<Longrightarrow> settles rid (contentError f (Some rid))"
  by (simp add: settles_def isContentServiceServerMessage_def)

lemma contentId_nonempty [simp]: "contentId_at c n \<noteq> []"
  by (simp add: contentId_at_def)

lemma client_settle_get:
  "client_inv c \<Longrightarrow> jm_get (cl_pending (client_settle rid outcome c)) = (jm_get (cl_pending c))(rid := None)"
  using jm.get_del [OF client_invD(1), of c rid] by (auto simp: client_settle_def fun_eq_iff split: option.split)

lemma client_settle_fields [simp]:
  "cl_closed (client_settle rid outcome c) = cl_closed c" "cl_clientId (client_settle rid outcome c) = cl_clientId c"
  "cl_nextRequest (client_settle rid outcome c) = cl_nextRequest c"
  by (simp_all add: client_settle_def split: option.split)

lemma client_failAll_fields [simp]:
  "cl_closed (client_failAll e c) = cl_closed c" "cl_clientId (client_failAll e c) = cl_clientId c"
  "cl_nextRequest (client_failAll e c) = cl_nextRequest c" "cl_pending (client_failAll e c) = []"
  by (simp_all add: client_failAll_def)

lemma client_receive_fields [simp]:
  "cl_closed (client_receive m c) = cl_closed c" "cl_clientId (client_receive m c) = cl_clientId c"
  "cl_nextRequest (client_receive m c) = cl_nextRequest c"
  by (simp_all add: client_receive_def Let_def split: option.split)

lemma waits_settle: "client_inv c \<Longrightarrow> waits (client_settle rid outcome c) r \<longleftrightarrow> r \<noteq> rid \<and> waits c r"
  by (simp add: waits_def client_settle_get)

lemma waits_failAll [simp]: "\<not> waits (client_failAll e c) r"
  by (simp add: waits_def jm_get_def)

lemma waits_told [simp]: "waits (c\<lparr> cl_statuses := x \<rparr>) r = waits c r" "waits (c\<lparr> cl_partials := y \<rparr>) r = waits c r"
  by (simp_all add: waits_def)

lemma client_receive_waits: "client_inv c \<Longrightarrow> waits (client_receive m c) rid \<Longrightarrow> waits c rid"
  by (auto simp: client_receive_def Let_def waits_settle split: if_splits option.splits)

lemma client_receive_settles:
  assumes inv: "client_inv c" and "settles rid m" and "\<not> cl_closed c" and "rid \<noteq> []"
  shows "\<not> waits (client_receive m c) rid"
proof (cases "truthy (fld m ''requestId'')")
  case True
  then have rid: "fld m ''requestId'' = JStr rid" using assms(2) by (auto simp: settles_def)
  have "fld m ''type'' = JStr ''content-error'' \<or> fld m ''type'' = JStr ''content-result''" using assms(2) by (auto simp: settles_def)
  then show ?thesis
    using assms(3,4) rid waits_settle [OF inv]
    by (cases "jm_get (cl_pending c) rid") (auto simp: client_receive_def Let_def waits_def [of c])
next
  case False
  then have "fld m ''type'' = JStr ''content-error''" using assms(2,4) by (auto simp: settles_def)
  then show ?thesis using False assms(3) by (simp add: client_receive_def Let_def)
qed

lemma client_settle_results:
  "(r, q, Inr v) \<in> set (cl_results (client_settle rid outcome c)) \<Longrightarrow> (r, q, Inr v) \<in> set (cl_results c) \<or> outcome = Inr v"
  by (auto simp: client_settle_def split: option.splits)

lemma client_failAll_results: "(r, q, Inr v) \<in> set (cl_results (client_failAll e c)) \<Longrightarrow> (r, q, Inr v) \<in> set (cl_results c)"
  by (auto simp: client_failAll_def)

lemma client_receive_results:
  assumes "isContentServiceServerMessage m" and "(r, q, Inr v) \<in> set (cl_results (client_receive m c))"
  shows "(r, q, Inr v) \<in> set (cl_results c) \<or> fld m ''type'' = JStr ''content-result'' \<and> v = fld m ''result''"
  using assms
  by (auto simp: client_receive_def Let_def isContentServiceServerMessage_def split: if_splits option.splits
      dest!: client_settle_results client_failAll_results)

lemma client_query_cases:
  assumes inv: "client_inv c" and call: "client_query sends signal onProgress request policy c = (refused, sent, d)"
  shows "sent = [] \<and> jm_get (cl_pending d) = jm_get (cl_pending c) \<and> cl_nextRequest c \<le> cl_nextRequest d \<or>
    sends = None \<and> \<not> cl_closed c \<and> cl_nextRequest d = Suc (cl_nextRequest c) \<and>
      sent = [contentQueryMessage (contentId_at (cl_clientId c) (Suc (cl_nextRequest c))) request policy] \<and>
      (\<exists>p. jm_get (cl_pending d) = (jm_get (cl_pending c))(contentId_at (cl_clientId c) (Suc (cl_nextRequest c)) \<mapsto> p))"
    and "cl_closed d = cl_closed c" and "cl_clientId d = cl_clientId c"
    and "(rid, req, Inr v) \<in> set (cl_results d) \<Longrightarrow> (rid, req, Inr v) \<in> set (cl_results c)"
proof -
  let ?rid = "contentId_at (cl_clientId c) (Suc (cl_nextRequest c))"
  let ?p = "\<lparr> cp_request = request, cp_progress = onProgress, cp_signal = signal \<noteq> None \<rparr>"
  let ?c = "c\<lparr> cl_nextRequest := Suc (cl_nextRequest c), cl_pending := jm_set ?rid ?p (cl_pending c),
    cl_watching := cl_watching c @ (if signal \<noteq> None then [?rid] else []) \<rparr>"
  note get = jm.get_put [OF client_invD(1) [OF inv]]
  have opened: "client_inv ?c" using client_opened_inv [OF inv refl refl, of ?p] by simp
  have kept: "jm_get (cl_pending (client_settle ?rid (Inl e) ?c)) = jm_get (cl_pending c)" for e
    using client_settle_get [OF opened] client_fresh [OF inv] by (simp add: get fun_upd_idem)
  have called: "sent = [] \<and> d = c \<or>
      sends = None \<and> \<not> cl_closed c \<and> sent = [contentQueryMessage ?rid request policy] \<and> d = ?c \<or>
      (\<exists>e. sent = [] \<and> d = client_settle ?rid (Inl e) ?c)"
    using call by (cases "cl_closed c \<or> signal = Some True"; cases sends) (auto simp: client_query_def Let_def)
  from called show "sent = [] \<and> jm_get (cl_pending d) = jm_get (cl_pending c) \<and> cl_nextRequest c \<le> cl_nextRequest d \<or>
    sends = None \<and> \<not> cl_closed c \<and> cl_nextRequest d = Suc (cl_nextRequest c) \<and> sent = [contentQueryMessage ?rid request policy] \<and>
      (\<exists>p. jm_get (cl_pending d) = (jm_get (cl_pending c))(?rid \<mapsto> p))"
  proof (elim disjE exE conjE)
    assume "sends = None" "\<not> cl_closed c" "sent = [contentQueryMessage ?rid request policy]" and d: "d = ?c"
    moreover have "jm_get (cl_pending d) = (jm_get (cl_pending c))(?rid \<mapsto> ?p)" unfolding d by (simp add: get)
    ultimately show ?thesis by (intro disjI2 conjI exI [of _ ?p]) simp_all
  next
    fix e assume "sent = []" and d: "d = client_settle ?rid (Inl e) ?c"
    then show ?thesis using kept [of e] by (intro disjI1) simp
  qed simp
  from called show "cl_closed d = cl_closed c" "cl_clientId d = cl_clientId c" by (elim disjE exE conjE; simp)+
  from called show "(rid, req, Inr v) \<in> set (cl_results d) \<Longrightarrow> (rid, req, Inr v) \<in> set (cl_results c)"
  proof (elim disjE exE conjE)
    fix e assume "(rid, req, Inr v) \<in> set (cl_results d)" "d = client_settle ?rid (Inl e) ?c"
    then show ?thesis using client_settle_results [of rid req v ?rid "Inl e" ?c] by simp
  qed simp_all
qed

definition client_take :: "jsval \<Rightarrow> content_client \<Rightarrow> content_client" where
  "client_take m c = (if isContentServiceServerMessage m then client_receive m c else c)"

lemma client_take_facts:
  assumes "client_inv c"
  shows "client_inv (client_take m c)" and "cl_closed (client_take m c) = cl_closed c"
    and "cl_clientId (client_take m c) = cl_clientId c" and "cl_nextRequest (client_take m c) = cl_nextRequest c"
    and "waits (client_take m c) rid \<Longrightarrow> waits c rid"
    and "settles rid m \<Longrightarrow> \<not> cl_closed c \<Longrightarrow> rid \<noteq> [] \<Longrightarrow> \<not> waits (client_take m c) rid"
    and "(r, q, Inr v) \<in> set (cl_results (client_take m c)) \<Longrightarrow>
      (r, q, Inr v) \<in> set (cl_results c) \<or> fld m ''type'' = JStr ''content-result'' \<and> v = fld m ''result''"
proof -
  show "client_inv (client_take m c)" using assms by (simp add: client_take_def client_receive_inv)
  show "waits (client_take m c) rid \<Longrightarrow> waits c rid" using client_receive_waits [OF assms, of m rid] by (simp add: client_take_def split: if_splits)
  show "settles rid m \<Longrightarrow> \<not> cl_closed c \<Longrightarrow> rid \<noteq> [] \<Longrightarrow> \<not> waits (client_take m c) rid"
    using client_receive_settles [OF assms, of rid m] by (simp add: client_take_def settles_def)
  show "(r, q, Inr v) \<in> set (cl_results (client_take m c)) \<Longrightarrow>
      (r, q, Inr v) \<in> set (cl_results c) \<or> fld m ''type'' = JStr ''content-result'' \<and> v = fld m ''result''"
    using client_receive_results [of m r q v c] by (simp add: client_take_def split: if_splits)
qed (simp_all add: client_take_def)

lemma transport_message_fold: "transport_message batch c = fold client_take batch c"
  by (induction batch arbitrary: c) (simp_all add: transport_message_def client_take_def)

lemma takes_facts:
  assumes "client_inv c"
  shows "client_inv (fold client_take batch c) \<and> cl_closed (fold client_take batch c) = cl_closed c \<and>
    cl_clientId (fold client_take batch c) = cl_clientId c \<and> cl_nextRequest (fold client_take batch c) = cl_nextRequest c \<and>
    (waits (fold client_take batch c) rid \<longrightarrow> waits c rid)"
  using assms
proof (induction batch arbitrary: c)
  case (Cons x batch)
  note F = client_take_facts [OF Cons.prems, where m = x]
  show ?case using Cons.IH [OF F(1)] F(2-4) F(5) [of rid] by simp
qed simp

lemma takes_settle:
  "client_inv c \<Longrightarrow> waits (fold client_take batch c) rid \<Longrightarrow> \<not> cl_closed c \<Longrightarrow> rid \<noteq> [] \<Longrightarrow> m \<in> set batch \<Longrightarrow> \<not> settles rid m"
proof (induction batch arbitrary: c)
  case (Cons x batch)
  note F = client_take_facts [OF Cons.prems(1), where m = x]
  have left: "waits (fold client_take batch (client_take x c)) rid" using Cons.prems(2) by simp
  show ?case
  proof (cases "m = x")
    case True
    have "waits (client_take x c) rid" using takes_facts [OF F(1), of batch rid] left by blast
    then show ?thesis using F(6) [of rid] Cons.prems(3,4) True by blast
  next
    case False
    then show ?thesis using Cons.IH [OF F(1) left] Cons.prems(3-5) F(2) by simp
  qed
qed simp

lemma takes_results:
  "client_inv c \<Longrightarrow> (r, q, Inr v) \<in> set (cl_results (fold client_take batch c)) \<Longrightarrow>
     (r, q, Inr v) \<in> set (cl_results c) \<or> (\<exists>m \<in> set batch. fld m ''type'' = JStr ''content-result'' \<and> v = fld m ''result'')"
proof (induction batch arbitrary: c)
  case (Cons x batch)
  note F = client_take_facts [OF Cons.prems(1), where m = x]
  show ?case using Cons.IH [OF F(1)] Cons.prems(2) F(7) [of r q v] by auto
qed simp

section \<open>What the worker's edge does\<close>

lemma decode_server_same: "decodeContentServiceServerMessage m = Inr r \<Longrightarrow> r = m"
  by (auto simp: decodeContentServiceServerMessage_def Let_def split: if_splits option.splits)

lemma decode_server_result:
  "decodeContentServiceServerMessage m = Inr r \<Longrightarrow> fld m ''type'' = JStr ''content-result'' \<Longrightarrow> contentResult (fld m ''result'')"
  by (auto simp: decodeContentServiceServerMessage_def Let_def split: if_splits option.splits)

lemma decode_client_same: "decodeContentServiceClientMessage E m = Inr r \<Longrightarrow> r = m"
  by (auto simp: decodeContentServiceClientMessage_def Let_def split: if_splits option.splits)

lemma decode_client_query:
  assumes "decodeContentServiceClientMessage E m = Inr r" and "fld m ''type'' = JStr ''content-query''"
  shows "isRecord m" and "textUpTo 256 (fld m ''requestId'')"
  using assms by (auto simp: decodeContentServiceClientMessage_def Let_def split: if_splits option.splits)

lemma decode_client_cancel:
  "textUpTo 256 (JStr rid) \<Longrightarrow> decodeContentServiceClientMessage E (contentCancelMessage rid) = Inr (contentCancelMessage rid)"
  by (simp add: decodeContentServiceClientMessage_def contentCancelMessage_def contentProtocol_def CPROTOCOL_def exactKeys_def)

lemma decodeContentReplies_same: "decodeContentReplies ms = Inr rs \<Longrightarrow> rs = ms"
  by (induction ms arbitrary: rs) (auto split: sum.splits dest: decode_server_same)

lemma decodeContentReplies_each: "decodeContentReplies ms = Inr rs \<Longrightarrow> m \<in> set ms \<Longrightarrow> \<exists>r. decodeContentServiceServerMessage m = Inr r"
  by (induction ms arbitrary: rs) (auto split: sum.splits)

lemma publish_settles:
  assumes "settles rid m" and "rid \<noteq> []"
  shows "\<exists>y \<in> set (concat (publishContent [m] (Some rid))). settles rid y"
proof (cases "decodeContentReplies [m]")
  case (Inl f)
  then show ?thesis using contentError_settles [OF assms(2)] by (simp add: publishContent_def)
next
  case (Inr ms)
  then show ?thesis using assms(1) decodeContentReplies_same [OF Inr] by (simp add: publishContent_def)
qed

lemma publish_valid:
  assumes "y \<in> set (concat (publishContent ms rid))" and "fld y ''type'' = JStr ''content-result''"
  shows "contentResult (fld y ''result'')"
proof (cases "decodeContentReplies ms")
  case (Inl f)
  then show ?thesis using assms by (simp add: publishContent_def)
next
  case (Inr rs)
  then have "y \<in> set ms" using assms(1) decodeContentReplies_same [OF Inr] by (auto simp: publishContent_def split: if_splits)
  then show ?thesis using decodeContentReplies_each [OF Inr] decode_server_result assms(2) by blast
qed

definition host_inv :: "content_host \<Rightarrow> bool" where
  "host_inv h \<longleftrightarrow> content_inv (ch_core h) \<and> \<not> cc_closed (ch_core h) \<and> \<not> ch_closed h \<and>
     (ch_ready h \<or> cc_running (ch_core h) = []) \<and>
     (\<forall>t rid req pol. (t, rid, req, pol) \<in> set (cc_running (ch_core h)) \<longrightarrow> textUpTo 256 (JStr rid))"

lemma host_invD:
  assumes "host_inv h"
  shows "content_inv (ch_core h)" and "\<not> cc_closed (ch_core h)" and "\<not> ch_closed h"
    and "(t, rid, req, pol) \<in> set (cc_running (ch_core h)) \<Longrightarrow> textUpTo 256 (JStr rid)"
    and "ch_ready h \<or> cc_running (ch_core h) = []"
  using assms unfolding host_inv_def by blast+

text \<open>A dispatched query is running, or answered with an error about it.\<close>

lemma content_query_cases:
  assumes "\<not> cc_closed c"
  shows "(\<exists>f. content_query rid req pol c = content_resolve (cc_next c) [contentError f (Some rid)] (c\<lparr> cc_next := Suc (cc_next c) \<rparr>)) \<or>
     content_query rid req pol c = c\<lparr> cc_next := Suc (cc_next c), cc_requests := jm_set rid (cc_next c) (cc_requests c),
       cc_running := cc_running c @ [(cc_next c, rid, req, pol)], cc_asked := cc_asked c @ [(cc_next c, rid, req, pol)] \<rparr>"
  using assms by (auto simp: content_query_def Let_def)

lemma content_dispatch_closed [simp]: "cc_closed (content_dispatch m c) = cc_closed c"
  by (simp add: content_dispatch_def content_query_def content_cancel_def Let_def)

lemma content_dispatch_new:
  assumes "\<not> cc_closed c"
    and "x \<in> set (cc_running (content_dispatch m c)) - set (cc_running c) \<or> x \<in> set (cc_asked (content_dispatch m c)) - set (cc_asked c)"
  shows "fld m ''type'' \<noteq> JStr ''content-cancel'' \<and> x = (cc_next c, strOf (fld m ''requestId''), fld m ''request'', fld m ''policy'')"
  using assms by (auto simp: content_dispatch_def content_query_def content_cancel_def Let_def split: if_splits)

lemma host_content_ok:
  assumes inv: "host_inv h" and ok: "decodeContentServiceClientMessage E m = Inr r" and ready: "ch_ready h"
  shows "snd (host_content E m h) = h\<lparr> ch_core := content_dispatch m (ch_core h) \<rparr>"
    and "fst (host_content E m h) = concat (map (\<lambda>ms. publishContent ms
      (if fld m ''type'' = JStr ''content-query'' then Some (strOf (fld m ''requestId'')) else None))
      (newly_answered (ch_core h) (content_dispatch m (ch_core h))))"
  using host_invD(3) [OF inv] ok decode_client_same [OF ok] ready by (simp_all add: host_content_def Let_def)

lemma host_content_other:
  assumes "decodeContentServiceClientMessage E m = Inl f \<or> \<not> ch_ready h"
  shows "snd (host_content E m h) = h"
  using assms by (auto simp: host_content_def Let_def split: sum.split)

lemma host_content_core:
  assumes "host_inv h"
  shows "snd (host_content E m h) = h \<or>
    (\<exists>r. decodeContentServiceClientMessage E m = Inr r) \<and> snd (host_content E m h) = h\<lparr> ch_core := content_dispatch m (ch_core h) \<rparr>"
proof (cases "decodeContentServiceClientMessage E m")
  case (Inr r)
  then show ?thesis using host_content_ok(1) [OF assms Inr] host_content_other [of E m _ h] by (cases "ch_ready h") auto
qed (use host_content_other [of E m _ h] in auto)

lemma host_content_new:
  assumes inv: "host_inv h"
    and "x \<in> set (cc_running (ch_core (snd (host_content E m h)))) - set (cc_running (ch_core h)) \<or>
      x \<in> set (cc_asked (ch_core (snd (host_content E m h)))) - set (cc_asked (ch_core h))"
  shows "\<exists>t rid. x = (t, rid, fld m ''request'', fld m ''policy'') \<and> asks_for rid m \<and> textUpTo 256 (JStr rid)"
proof -
  have core: "\<exists>r. decodeContentServiceClientMessage E m = Inr r" "snd (host_content E m h) = h\<lparr> ch_core := content_dispatch m (ch_core h) \<rparr>"
    using host_content_core [OF inv, of E m] assms(2) by auto
  then have new: "fld m ''type'' \<noteq> JStr ''content-cancel''" "x = (cc_next (ch_core h), strOf (fld m ''requestId''), fld m ''request'', fld m ''policy'')"
    using content_dispatch_new [OF host_invD(2) [OF inv], of x m] assms(2) by auto
  obtain r where r: "decodeContentServiceClientMessage E m = Inr r" using core(1) by blast
  then have q: "fld m ''type'' = JStr ''content-query''"
    using new(1) by (auto simp: decodeContentServiceClientMessage_def Let_def split: if_splits option.splits)
  note d = decode_client_query [OF r q]
  have "fld m ''requestId'' = JStr (strOf (fld m ''requestId''))" using d(2) by (auto simp: textUpTo_def elim: strWithE)
  then show ?thesis using new(2) d q by (auto simp: asks_for_def)
qed

lemma host_content_inv:
  assumes inv: "host_inv h"
  shows "host_inv (snd (host_content E m h))"
proof -
  have "textUpTo 256 (JStr rid)" if "(t, rid, req, pol) \<in> set (cc_running (ch_core (snd (host_content E m h))))" for t rid req pol
    using that host_content_new [OF inv, of "(t, rid, req, pol)" E m] host_invD(4) [OF inv, of t rid req pol] by blast
  moreover have "content_inv (ch_core (snd (host_content E m h))) \<and> \<not> cc_closed (ch_core (snd (host_content E m h))) \<and>
      \<not> ch_closed (snd (host_content E m h))"
    using host_content_core [OF inv, of E m] host_invD(1-3) [OF inv] content_dispatch_inv by auto
  moreover have "ch_ready (snd (host_content E m h)) \<or> cc_running (ch_core (snd (host_content E m h))) = []"
  proof (cases "ch_ready h")
    case True
    then show ?thesis using host_content_core [OF inv, of E m] by auto
  next
    case False
    then have "snd (host_content E m h) = h" by (intro host_content_other disjI2)
    then show ?thesis using host_invD(5) [OF inv] by simp
  qed
  ultimately show ?thesis unfolding host_inv_def by blast
qed

lemma host_content_keeps:
  assumes "host_inv h"
  shows "set (cc_running (ch_core h)) \<subseteq> set (cc_running (ch_core (snd (host_content E m h))))"
    and "set (cc_aborted (ch_core h)) \<subseteq> set (cc_aborted (ch_core (snd (host_content E m h))))"
  using host_content_core [OF assms, of E m] content_dispatch_running [of "ch_core h" m] content_dispatch_aborted [of "ch_core h" m]
  by auto

lemma requestIdOf_asks: "asks_for rid m \<Longrightarrow> rid \<noteq> [] \<Longrightarrow> requestIdOf m = Some rid"
  by (simp add: asks_for_def requestIdOf_def)

lemma host_content_tracks:
  assumes inv: "host_inv h" and asks: "asks_for rid m" and rid: "rid \<noteq> []"
  shows "(\<exists>t req pol. (t, rid, req, pol) \<in> set (cc_running (ch_core (snd (host_content E m h))))) \<or>
    (\<exists>y \<in> set (concat (fst (host_content E m h))). settles rid y)"
proof (cases "decodeContentServiceClientMessage E m")
  case (Inl f)
  then show ?thesis
    using host_invD(3) [OF inv] contentError_settles [OF rid] requestIdOf_asks [OF asks rid] by (simp add: host_content_def)
next
  case (Inr r)
  have q: "fld m ''type'' = JStr ''content-query''" "fld m ''requestId'' = JStr rid" using asks by (simp_all add: asks_for_def)
  show ?thesis
  proof (cases "ch_ready h")
    case False
    then show ?thesis using host_invD(3) [OF inv] Inr decode_client_same [OF Inr] q contentError_settles [OF rid]
      by (simp add: host_content_def)
  next
    case True
    note H = host_content_ok [OF inv Inr True]
    have disp: "content_dispatch m (ch_core h) = content_query rid (fld m ''request'') (fld m ''policy'') (ch_core h)"
      using q by (simp add: content_dispatch_def)
    from content_query_cases [OF host_invD(2) [OF inv], of rid "fld m ''request''" "fld m ''policy''"]
    show ?thesis
    proof (elim disjE exE)
      fix f assume e: "content_query rid (fld m ''request'') (fld m ''policy'') (ch_core h) =
        content_resolve (cc_next (ch_core h)) [contentError f (Some rid)] (ch_core h\<lparr> cc_next := Suc (cc_next (ch_core h)) \<rparr>)"
      have "newly_answered (ch_core h) (content_dispatch m (ch_core h)) = [[contentError f (Some rid)]]"
        unfolding disp e by (simp add: newly_answered_def)
      then show ?thesis using H(2) q publish_settles [OF contentError_settles [OF rid] rid, of f] by simp
    qed (use H(1) disp in auto)
  qed
qed

lemma host_content_cancels:
  assumes inv: "host_inv h" and run: "(t, rid, req, pol) \<in> set (cc_running (ch_core (snd (host_content E (contentCancelMessage rid) h))))"
  shows "t \<in> set (cc_aborted (ch_core (snd (host_content E (contentCancelMessage rid) h))))"
proof -
  have old: "(t, rid, req, pol) \<in> set (cc_running (ch_core h))"
    using run host_content_new [OF inv, of "(t, rid, req, pol)" E "contentCancelMessage rid"] by (auto simp: asks_for_def contentCancelMessage_def)
  then have ready: "ch_ready h" using host_invD(5) [OF inv] by auto
  have "jm_get (cc_requests (ch_core h)) rid = Some t" using old content_invD(6) [OF host_invD(1,2) [OF inv]] by blast
  then show ?thesis
    using host_content_ok(1) [OF inv decode_client_cancel [OF host_invD(4) [OF inv old]] ready, of E]
    by (simp add: content_dispatch_def contentCancelMessage_def content_cancel_def Let_def)
qed

lemma host_content_valid:
  assumes "y \<in> set (concat (fst (host_content E m h)))" and "fld y ''type'' = JStr ''content-result''"
  shows "contentResult (fld y ''result'')"
  using assms publish_valid by (auto simp: host_content_def Let_def split: if_splits sum.splits)

lemma newly_answered_answer:
  "newly_answered c (content_answer t a c) =
    (case running c t of None \<Rightarrow> [] | Some (rid, req, pol) \<Rightarrow> [[query_outcome rid req (t \<in> set (cc_aborted c)) a]])"
  by (simp add: newly_answered_def content_answer_fields split: option.split)

lemma query_outcome_settles: "rid \<noteq> [] \<Longrightarrow> settles rid (query_outcome rid req aborted a)"
  by (simp add: query_outcome_def contentError_settles split: sum.split)
    (simp add: settles_def contentResultMessage_def isContentServiceServerMessage_def)

lemma host_answer_facts:
  assumes inv: "host_inv h"
  shows "host_inv (snd (host_answer t a h))"
    and "set (cc_running (ch_core (snd (host_answer t a h)))) \<subseteq> set (cc_running (ch_core h))"
    and "cc_aborted (ch_core (snd (host_answer t a h))) = cc_aborted (ch_core h)"
    and "cc_asked (ch_core (snd (host_answer t a h))) = cc_asked (ch_core h)"
    and "(t', rid, req, pol) \<in> set (cc_running (ch_core h)) \<Longrightarrow>
      (t', rid, req, pol) \<in> set (cc_running (ch_core (snd (host_answer t a h)))) \<or>
      (\<exists>y \<in> set (concat (fst (host_answer t a h))). settles rid y)"
proof -
  note I = host_invD [OF inv]
  show "host_inv (snd (host_answer t a h))"
    using I(1,2,3,5) I(4) content_answer_inv [OF I(1)] unfolding host_inv_def
    by (auto simp: host_answer_def Let_def content_answer_fields)
  show "set (cc_running (ch_core (snd (host_answer t a h)))) \<subseteq> set (cc_running (ch_core h))"
    "cc_aborted (ch_core (snd (host_answer t a h))) = cc_aborted (ch_core h)"
    "cc_asked (ch_core (snd (host_answer t a h))) = cc_asked (ch_core h)"
    by (auto simp: host_answer_def Let_def content_answer_fields)
  assume run: "(t', rid, req, pol) \<in> set (cc_running (ch_core h))"
  have rid: "rid \<noteq> []" using I(4) [OF run] by (auto simp: textUpTo_def)
  show "(t', rid, req, pol) \<in> set (cc_running (ch_core (snd (host_answer t a h)))) \<or>
      (\<exists>y \<in> set (concat (fst (host_answer t a h))). settles rid y)"
  proof (cases "t' = t")
    case True
    then have r: "running (ch_core h) t = Some (rid, req, pol)" using running_iff [OF I(1)] run by blast
    show ?thesis
      using publish_settles [OF query_outcome_settles [OF rid] rid, of req "t \<in> set (cc_aborted (ch_core h))" a] I(3)
      by (intro disjI2) (simp add: host_answer_def Let_def newly_answered_answer r)
  qed (use run in \<open>simp add: host_answer_def Let_def content_answer_fields\<close>)
qed

lemma host_answer_valid:
  "y \<in> set (concat (fst (host_answer t a h))) \<Longrightarrow> fld y ''type'' = JStr ''content-result'' \<Longrightarrow> contentResult (fld y ''result'')"
  using publish_valid by (auto simp: host_answer_def Let_def split: if_splits)

lemma host_published_valid:
  "y \<in> set (concat (fst (host_published core h))) \<Longrightarrow> fld y ''type'' = JStr ''content-result'' \<Longrightarrow> contentResult (fld y ''result'')"
  using publish_valid by (auto simp: host_published_def split: if_splits)

lemma host_published_inv:
  assumes "host_inv h" and "content_inv core" and "cc_closed core = cc_closed (ch_core h)" and "cc_running core = cc_running (ch_core h)"
  shows "host_inv (snd (host_published core h))"
  using assms unfolding host_inv_def by (simp add: host_published_def)

lemma host_told_inv:
  assumes "host_inv h"
  shows "host_inv (snd (host_partial t part h))" and "host_inv (snd (host_tells status h))"
  using host_published_inv [OF assms content_partial_inv [OF host_invD(1) [OF assms]]]
    host_published_inv [OF assms, of "content_publish [contentStatusMessage status] (ch_core h)"] host_invD(1) [OF assms]
  by (simp_all add: host_partial_def host_tells_def)

lemma host_told_core:
  "cc_running (ch_core (snd (host_partial t part h))) = cc_running (ch_core h)" "cc_running (ch_core (snd (host_tells status h))) = cc_running (ch_core h)"
  "cc_aborted (ch_core (snd (host_partial t part h))) = cc_aborted (ch_core h)" "cc_aborted (ch_core (snd (host_tells status h))) = cc_aborted (ch_core h)"
  "cc_asked (ch_core (snd (host_partial t part h))) = cc_asked (ch_core h)" "cc_asked (ch_core (snd (host_tells status h))) = cc_asked (ch_core h)"
  by (simp_all add: host_partial_def host_tells_def host_published_def)

section \<open>Where a query is\<close>

definition base_inv :: "content_channel \<Rightarrow> bool" where
  "base_inv s \<longleftrightarrow> client_inv (cs_client s) \<and> host_inv (cs_host s) \<and>
     (cl_closed (cs_client s) \<or> cs_lost s \<longrightarrow> (\<forall>rid. \<not> waits (cs_client s) rid))"

text \<open>A waiting query is on its way to the worker, running there, or its answer is on its way back.\<close>

definition underway :: "string \<Rightarrow> content_channel \<Rightarrow> bool" where
  "underway rid s \<longleftrightarrow> (\<exists>m \<in> set (cs_toWorker s). asks_for rid m) \<or>
     (\<exists>t req pol. (t, rid, req, pol) \<in> set (cc_running (ch_core (cs_host s)))) \<or>
     (\<exists>m \<in> set (concat (cs_toPage s)). settles rid m)"

definition track_inv :: "content_channel \<Rightarrow> bool" where
  "track_inv s \<longleftrightarrow> (\<forall>rid. waits (cs_client s) rid \<longrightarrow> underway rid s)"

text \<open>A cancellation the page sent is behind its query, and has not been dropped before it aborted the call.\<close>

fun cancel_behind :: "string \<Rightarrow> jsval list \<Rightarrow> bool" where
  "cancel_behind rid [] = True"
| "cancel_behind rid (m # ms) = ((asks_for rid m \<longrightarrow> contentCancelMessage rid \<in> set ms) \<and> cancel_behind rid ms)"

definition abort_inv :: "content_channel \<Rightarrow> bool" where
  "abort_inv s \<longleftrightarrow> cs_lost s \<or> (\<forall>rid \<in> set (cs_cancelled s).
     rid \<in> contentId_at (cl_clientId (cs_client s)) ` {1..cl_nextRequest (cs_client s)} \<and> cancel_behind rid (cs_toWorker s) \<and>
     (\<forall>t req pol. (t, rid, req, pol) \<in> set (cc_running (ch_core (cs_host s))) \<longrightarrow>
       t \<in> set (cc_aborted (ch_core (cs_host s))) \<or> contentCancelMessage rid \<in> set (cs_toWorker s)))"

definition result_inv :: "content_channel \<Rightarrow> bool" where
  "result_inv s \<longleftrightarrow>
     (\<forall>m \<in> set (concat (cs_toPage s)). fld m ''type'' = JStr ''content-result'' \<longrightarrow> contentResult (fld m ''result'')) \<and>
     (\<forall>rid req v. (rid, req, Inr v) \<in> set (cl_results (cs_client s)) \<longrightarrow> contentResult v)"

definition carried :: "(jsval \<Rightarrow> bool) \<Rightarrow> jsval \<Rightarrow> bool" where
  "carried P pol \<longleftrightarrow> (\<exists>own. P own \<and> pol = (if truthy own then own else JUndef))"

definition policy_inv :: "(jsval \<Rightarrow> bool) \<Rightarrow> content_channel \<Rightarrow> bool" where
  "policy_inv P s \<longleftrightarrow>
     (\<forall>m \<in> set (cs_toWorker s). fld m ''type'' = JStr ''content-query'' \<longrightarrow> carried P (fld m ''policy'')) \<and>
     (\<forall>t rid req pol. (t, rid, req, pol) \<in> set (cc_asked (ch_core (cs_host s))) \<longrightarrow> carried P pol)"

lemma contentQueryMessage_fields [simp]:
  "fld (contentQueryMessage rid req pol) ''type'' = JStr ''content-query''" "asks_for r (contentQueryMessage rid req pol) = (r = rid)"
  "fld (contentQueryMessage rid req pol) ''policy'' = (if truthy pol then pol else JUndef)"
  by (auto simp: contentQueryMessage_def asks_for_def)

lemma contentCancelMessage_fields [simp]:
  "fld (contentCancelMessage rid) ''type'' = JStr ''content-cancel''" "\<not> asks_for r (contentCancelMessage rid)"
  by (simp_all add: contentCancelMessage_def asks_for_def)

lemma cancel_behind_query: "cancel_behind rid ms \<Longrightarrow> r \<noteq> rid \<Longrightarrow> cancel_behind rid (ms @ [contentQueryMessage r req pol])"
  by (induction ms) auto

lemma cancel_behind_cancel: "cancel_behind rid ms \<or> r = rid \<Longrightarrow> cancel_behind rid (ms @ [contentCancelMessage r])"
  by (induction ms) auto

lemma channel_ask_eq:
  "channel_ask clone signal onProgress request own given s =
    s\<lparr> cs_client := snd (snd (client_query (transport_send (cs_lost s) clone) signal onProgress request own (cs_client s))),
       cs_toWorker := cs_toWorker s @ fst (snd (client_query (transport_send (cs_lost s) clone) signal onProgress request own (cs_client s))) \<rparr>"
  by (simp add: channel_ask_def policed_query_def split: prod.split)

lemma channel_ask_cases:
  assumes "base_inv s"
  shows "\<exists>c. channel_ask clone signal onProgress request own given s = s\<lparr> cs_client := c \<rparr> \<and> client_inv c \<and>
      (\<forall>r. waits c r = waits (cs_client s) r) \<and> cl_closed c = cl_closed (cs_client s) \<and> cl_clientId c = cl_clientId (cs_client s) \<and>
      cl_nextRequest (cs_client s) \<le> cl_nextRequest c \<and>
      (\<forall>rid req v. (rid, req, Inr v) \<in> set (cl_results c) \<longrightarrow> (rid, req, Inr v) \<in> set (cl_results (cs_client s))) \<or>
    (\<exists>n. n = Suc (cl_nextRequest (cs_client s)) \<and>
      channel_ask clone signal onProgress request own given s = s\<lparr> cs_client := c,
        cs_toWorker := cs_toWorker s @ [contentQueryMessage (contentId_at (cl_clientId c) n) request own] \<rparr> \<and> client_inv c \<and> \<not> cs_lost s \<and> \<not> cl_closed c \<and>
      (\<forall>r. waits c r = (r = contentId_at (cl_clientId c) n \<or> waits (cs_client s) r)) \<and> cl_clientId c = cl_clientId (cs_client s) \<and>
      cl_nextRequest c = n \<and>
      (\<forall>rid req v. (rid, req, Inr v) \<in> set (cl_results c) \<longrightarrow> (rid, req, Inr v) \<in> set (cl_results (cs_client s))))"
proof -
  let ?q = "client_query (transport_send (cs_lost s) clone) signal onProgress request own (cs_client s)"
  have inv: "client_inv (cs_client s)" using assms by (simp add: base_inv_def)
  obtain refused sent d where q: "?q = (refused, sent, d)" by (cases ?q) auto
  note C = client_query_cases [OF inv q]
  have d: "client_inv d" using client_query_inv [OF inv, of "transport_send (cs_lost s) clone" signal onProgress request own] q by simp
  have eq: "channel_ask clone signal onProgress request own given s = s\<lparr> cs_client := d, cs_toWorker := cs_toWorker s @ sent \<rparr>"
    by (simp add: channel_ask_eq q)
  from C(1) show ?thesis
  proof
    assume "sent = [] \<and> jm_get (cl_pending d) = jm_get (cl_pending (cs_client s)) \<and> cl_nextRequest (cs_client s) \<le> cl_nextRequest d"
    then show ?thesis using eq d C(2-4) by (intro exI [of _ d] disjI1) (auto simp: waits_def)
  next
    assume "transport_send (cs_lost s) clone = None \<and> \<not> cl_closed (cs_client s) \<and> cl_nextRequest d = Suc (cl_nextRequest (cs_client s)) \<and>
      sent = [contentQueryMessage (contentId_at (cl_clientId (cs_client s)) (Suc (cl_nextRequest (cs_client s)))) request own] \<and>
      (\<exists>p. jm_get (cl_pending d) = (jm_get (cl_pending (cs_client s)))(contentId_at (cl_clientId (cs_client s)) (Suc (cl_nextRequest (cs_client s))) \<mapsto> p))"
    then show ?thesis using eq d C(2-4) by (intro exI [of _ d] disjI2) (auto simp: waits_def transport_send_def split: if_splits)
  qed
qed

definition chan_inv :: "(jsval \<Rightarrow> bool) \<Rightarrow> content_channel \<Rightarrow> bool" where
  "chan_inv P s \<longleftrightarrow> base_inv s \<and> track_inv s \<and> abort_inv s \<and> result_inv s \<and> policy_inv P s"

lemma chan_invD:
  assumes "chan_inv P s"
  shows "base_inv s" and "track_inv s" and "abort_inv s" and "result_inv s" and "policy_inv P s"
  using assms by (simp_all add: chan_inv_def)

lemma base_invD:
  assumes "base_inv s"
  shows "client_inv (cs_client s)" and "host_inv (cs_host s)" and "cl_closed (cs_client s) \<Longrightarrow> \<not> waits (cs_client s) rid"
    and "cs_lost s \<Longrightarrow> \<not> waits (cs_client s) rid"
  using assms by (auto simp: base_inv_def)

lemma abort_invD:
  assumes "abort_inv s" and "rid \<in> set (cs_cancelled s)" and "\<not> cs_lost s"
  shows "rid \<in> contentId_at (cl_clientId (cs_client s)) ` {1..cl_nextRequest (cs_client s)}" and "cancel_behind rid (cs_toWorker s)"
    and "(t, rid, req, pol) \<in> set (cc_running (ch_core (cs_host s))) \<Longrightarrow>
      t \<in> set (cc_aborted (ch_core (cs_host s))) \<or> contentCancelMessage rid \<in> set (cs_toWorker s)"
  using assms by (auto simp: abort_inv_def)

lemma waits_id: "client_inv c \<Longrightarrow> waits c rid \<Longrightarrow> rid \<in> contentId_at (cl_clientId c) ` {1..cl_nextRequest c}"
  using client_ids(2) [of c] client_pending_dom [of c] by (auto simp: waits_def)

lemma waits_nonempty: "client_inv c \<Longrightarrow> waits c rid \<Longrightarrow> rid \<noteq> []"
  using waits_id [of c rid] by auto

lemma client_change_inv:
  assumes inv: "chan_inv P s" and c: "client_inv c" "\<And>r. waits c r \<Longrightarrow> waits (cs_client s) r"
    "cl_clientId c = cl_clientId (cs_client s)" "cl_nextRequest (cs_client s) \<le> cl_nextRequest c"
    "cl_closed c \<Longrightarrow> cl_closed (cs_client s) \<or> (\<forall>r. \<not> waits c r)"
    "\<And>rid req v. (rid, req, Inr v) \<in> set (cl_results c) \<Longrightarrow> (rid, req, Inr v) \<in> set (cl_results (cs_client s))"
  shows "chan_inv P (s\<lparr> cs_client := c \<rparr>)"
proof -
  note D = chan_invD [OF inv] and B = base_invD [OF chan_invD(1) [OF inv]]
  have "base_inv (s\<lparr> cs_client := c \<rparr>)" unfolding base_inv_def using B c(1,2,5) by auto
  moreover have "track_inv (s\<lparr> cs_client := c \<rparr>)" using D(2) c(2) by (auto simp: track_inv_def underway_def)
  moreover have "abort_inv (s\<lparr> cs_client := c \<rparr>)" using D(3) c(3,4) by (fastforce simp: abort_inv_def)
  moreover have "result_inv (s\<lparr> cs_client := c \<rparr>)" using D(4) c(6) unfolding result_inv_def by simp blast
  moreover have "policy_inv P (s\<lparr> cs_client := c \<rparr>)" using D(5) by (simp add: policy_inv_def)
  ultimately show ?thesis by (simp add: chan_inv_def)
qed

lemma channel_ask_inv:
  assumes inv: "chan_inv P s" and "P own"
  shows "chan_inv P (channel_ask clone signal onProgress request own given s)"
proof -
  note D = chan_invD [OF inv] and B = base_invD [OF chan_invD(1) [OF inv]]
  obtain c where "(channel_ask clone signal onProgress request own given s = s\<lparr> cs_client := c \<rparr> \<and> client_inv c \<and>
      (\<forall>r. waits c r = waits (cs_client s) r) \<and> cl_closed c = cl_closed (cs_client s) \<and> cl_clientId c = cl_clientId (cs_client s) \<and>
      cl_nextRequest (cs_client s) \<le> cl_nextRequest c \<and>
      (\<forall>rid req v. (rid, req, Inr v) \<in> set (cl_results c) \<longrightarrow> (rid, req, Inr v) \<in> set (cl_results (cs_client s)))) \<or>
    (\<exists>n. n = Suc (cl_nextRequest (cs_client s)) \<and>
      channel_ask clone signal onProgress request own given s = s\<lparr> cs_client := c,
        cs_toWorker := cs_toWorker s @ [contentQueryMessage (contentId_at (cl_clientId c) n) request own] \<rparr> \<and> client_inv c \<and> \<not> cs_lost s \<and> \<not> cl_closed c \<and>
      (\<forall>r. waits c r = (r = contentId_at (cl_clientId c) n \<or> waits (cs_client s) r)) \<and> cl_clientId c = cl_clientId (cs_client s) \<and>
      cl_nextRequest c = n \<and>
      (\<forall>rid req v. (rid, req, Inr v) \<in> set (cl_results c) \<longrightarrow> (rid, req, Inr v) \<in> set (cl_results (cs_client s))))"
    using channel_ask_cases [OF D(1), of clone signal onProgress request own given] by blast
  then show ?thesis
  proof (elim disjE exE conjE)
    assume eq: "channel_ask clone signal onProgress request own given s = s\<lparr> cs_client := c \<rparr>" and c: "client_inv c"
      "\<forall>r. waits c r = waits (cs_client s) r" "cl_closed c = cl_closed (cs_client s)" "cl_clientId c = cl_clientId (cs_client s)"
      "cl_nextRequest (cs_client s) \<le> cl_nextRequest c"
      "\<forall>rid req v. (rid, req, Inr v) \<in> set (cl_results c) \<longrightarrow> (rid, req, Inr v) \<in> set (cl_results (cs_client s))"
    show ?thesis unfolding eq using c by (intro client_change_inv [OF inv]) auto
  next
    fix n
    let ?m = "contentQueryMessage (contentId_at (cl_clientId c) n) request own"
    let ?s = "s\<lparr> cs_client := c, cs_toWorker := cs_toWorker s @ [?m] \<rparr>"
    assume n: "n = Suc (cl_nextRequest (cs_client s))" and eq: "channel_ask clone signal onProgress request own given s = ?s"
      and c: "client_inv c" "\<not> cs_lost s" "\<not> cl_closed c" "\<forall>r. waits c r = (r = contentId_at (cl_clientId c) n \<or> waits (cs_client s) r)"
        "cl_clientId c = cl_clientId (cs_client s)" "cl_nextRequest c = n"
        "\<forall>rid req v. (rid, req, Inr v) \<in> set (cl_results c) \<longrightarrow> (rid, req, Inr v) \<in> set (cl_results (cs_client s))"
    have "base_inv ?s" using B(2) c(1-3) by (simp add: base_inv_def)
    moreover have "track_inv ?s" using D(2) c(4) by (auto simp: track_inv_def underway_def)
    moreover have "abort_inv ?s"
    proof -
      have "rid \<in> contentId_at (cl_clientId c) ` {1..n} \<and> cancel_behind rid (cs_toWorker s @ [?m]) \<and>
          (\<forall>t req pol. (t, rid, req, pol) \<in> set (cc_running (ch_core (cs_host s))) \<longrightarrow>
            t \<in> set (cc_aborted (ch_core (cs_host s))) \<or> contentCancelMessage rid \<in> set (cs_toWorker s @ [?m]))"
        if rid: "rid \<in> set (cs_cancelled s)" for rid
      proof -
        note A = abort_invD [OF D(3) rid c(2)]
        have "contentId_at (cl_clientId c) n \<noteq> rid" using A(1) n c(5) by auto
        then show ?thesis using A cancel_behind_query [OF A(2)] n c(5) by auto
      qed
      then show ?thesis using c(6) by (simp add: abort_inv_def)
    qed
    moreover have "result_inv ?s" using D(4) c(7) unfolding result_inv_def by simp blast
    moreover have "policy_inv P ?s" using D(5) assms(2) by (auto simp: policy_inv_def carried_def)
    ultimately show ?thesis unfolding eq by (simp add: chan_inv_def)
  qed
qed

lemma channel_abort_inv:
  assumes inv: "chan_inv P s"
  shows "chan_inv P (channel_abort rid s)"
proof (cases "rid \<notin> set (cl_watching (cs_client s)) \<or> jm_get (cl_pending (cs_client s)) rid = None")
  case True
  then have "channel_abort rid s = s" by (simp add: channel_abort_def client_abort_def)
  then show ?thesis using inv by simp
next
  case False
  note D = chan_invD [OF inv] and B = base_invD [OF chan_invD(1) [OF inv]]
  let ?c = "client_settle rid (Inl clientCancelled) (cs_client s)"
  have lives: "\<not> cs_lost s" using B(4) [of rid] False by (auto simp: waits_def)
  have "rid \<in> contentId_at (cl_clientId (cs_client s)) ` {1..cl_nextRequest (cs_client s)}"
    using waits_id [OF B(1), of rid] False by (simp add: waits_def)
  moreover have eq: "channel_abort rid s = s\<lparr> cs_client := ?c, cs_toWorker := cs_toWorker s @ [contentCancelMessage rid],
      cs_cancelled := cs_cancelled s @ [rid] \<rparr>"
    using False lives by (auto simp: channel_abort_def client_abort_def transport_send_def)
  have mid: "chan_inv P (s\<lparr> cs_client := ?c \<rparr>)"
    using B(1) client_settle_results [of _ _ _ rid "Inl clientCancelled" "cs_client s"]
    by (intro client_change_inv [OF inv client_settle_inv]) (auto simp: waits_settle)
  note M = chan_invD [OF mid]
  have "base_inv (channel_abort rid s)" using M(1) by (simp add: eq base_inv_def)
  moreover have "track_inv (channel_abort rid s)" using M(2) by (auto simp: eq track_inv_def underway_def)
  moreover have "result_inv (channel_abort rid s)" using M(4) by (simp add: eq result_inv_def)
  moreover have "policy_inv P (channel_abort rid s)" using M(5) by (auto simp: eq policy_inv_def)
  moreover have "r \<in> contentId_at (cl_clientId (cs_client s)) ` {1..cl_nextRequest (cs_client s)} \<and>
      cancel_behind r (cs_toWorker s @ [contentCancelMessage rid]) \<and>
      (\<forall>t req pol. (t, r, req, pol) \<in> set (cc_running (ch_core (cs_host s))) \<longrightarrow>
        t \<in> set (cc_aborted (ch_core (cs_host s))) \<or> contentCancelMessage r \<in> set (cs_toWorker s @ [contentCancelMessage rid]))"
    if "r \<in> set (cs_cancelled s @ [rid])" for r
  proof (cases "r = rid")
    case True
    then show ?thesis using calculation(1) cancel_behind_cancel [of r "cs_toWorker s" rid] by auto
  next
    case False
    then have r: "r \<in> set (cs_cancelled s)" using that by simp
    show ?thesis using abort_invD [OF D(3) r lives] cancel_behind_cancel [of r "cs_toWorker s" rid] by auto
  qed
  then have "abort_inv (channel_abort rid s)" by (simp add: eq abort_inv_def)
  ultimately show ?thesis by (simp add: chan_inv_def)
qed

lemma underway_post: "underway rid (s\<lparr> cs_toPage := ps \<rparr>) \<Longrightarrow> underway rid (s\<lparr> cs_toPage := ps @ qs \<rparr>)"
  by (auto simp: underway_def)

lemma channel_serve_inv:
  assumes inv: "chan_inv P s" and lives: "\<not> cs_lost s"
  shows "chan_inv P (channel_serve E s)"
proof (cases "cs_toWorker s")
  case (Cons m ms)
  note D = chan_invD [OF inv] and B = base_invD [OF chan_invD(1) [OF inv]]
  let ?h = "snd (host_content E m (cs_host s))"
  let ?posts = "fst (host_content E m (cs_host s))"
  let ?s = "s\<lparr> cs_toWorker := ms, cs_host := ?h, cs_toPage := cs_toPage s @ ?posts \<rparr>"
  have eq: "channel_serve E s = ?s" by (simp add: channel_serve_def channel_post_def Cons)
  note K = host_content_keeps [OF B(2), of E m]
  have "base_inv ?s" using D(1) host_content_inv [OF B(2), of E m] by (simp add: base_inv_def)
  moreover have "track_inv ?s"
    unfolding track_inv_def
  proof (intro allI impI)
    fix rid assume w: "waits (cs_client ?s) rid"
    then have "underway rid s" using D(2) by (simp add: track_inv_def)
    then consider "asks_for rid m" | "\<exists>x \<in> set ms. asks_for rid x"
      | "\<exists>t req pol. (t, rid, req, pol) \<in> set (cc_running (ch_core (cs_host s)))" | "\<exists>x \<in> set (concat (cs_toPage s)). settles rid x"
      unfolding underway_def Cons list.set by blast
    then show "underway rid ?s"
    proof cases
      case 1
      have "rid \<noteq> []" using w waits_nonempty [OF B(1)] by simp
      then show ?thesis using host_content_tracks [OF B(2) 1, of E] unfolding underway_def by auto
    next
      case 3
      then show ?thesis using K(1) unfolding underway_def by auto
    qed (auto simp: underway_def)
  qed
  moreover have "abort_inv ?s"
  proof -
    have "rid \<in> contentId_at (cl_clientId (cs_client s)) ` {1..cl_nextRequest (cs_client s)} \<and> cancel_behind rid ms \<and>
        (\<forall>t req pol. (t, rid, req, pol) \<in> set (cc_running (ch_core ?h)) \<longrightarrow> t \<in> set (cc_aborted (ch_core ?h)) \<or> contentCancelMessage rid \<in> set ms)"
      if rid: "rid \<in> set (cs_cancelled s)" for rid
    proof (intro conjI allI impI)
      note A = abort_invD [OF D(3) rid lives]
      show "rid \<in> contentId_at (cl_clientId (cs_client s)) ` {1..cl_nextRequest (cs_client s)}" by (rule A(1))
      show "cancel_behind rid ms" using A(2) Cons by simp
      fix t req pol assume run: "(t, rid, req, pol) \<in> set (cc_running (ch_core ?h))"
      show "t \<in> set (cc_aborted (ch_core ?h)) \<or> contentCancelMessage rid \<in> set ms"
      proof (cases "(t, rid, req, pol) \<in> set (cc_running (ch_core (cs_host s)))")
        case True
        show ?thesis
        proof (cases "m = contentCancelMessage rid")
          case True
          then show ?thesis using host_content_cancels [OF B(2), of t rid req pol E] run by simp
        next
          case False
          then show ?thesis using A(3) [OF True] K(2) Cons by auto
        qed
      next
        case False
        then have "asks_for rid m" using host_content_new [OF B(2), of "(t, rid, req, pol)" E m] run by auto
        then show ?thesis using A(2) Cons by simp
      qed
    qed
    then show ?thesis by (simp add: abort_inv_def)
  qed
  moreover have "result_inv ?s"
    using D(4) host_content_valid [of _ E m "cs_host s"] unfolding result_inv_def by auto
  moreover have "policy_inv P ?s"
  proof -
    have "carried P pol" if new: "(t, rid, req, pol) \<in> set (cc_asked (ch_core ?h))" for t rid req pol
    proof (cases "(t, rid, req, pol) \<in> set (cc_asked (ch_core (cs_host s)))")
      case False
      then have "asks_for rid m" "pol = fld m ''policy''" using host_content_new [OF B(2), of "(t, rid, req, pol)" E m] new by auto
      then show ?thesis using D(5) Cons by (simp add: policy_inv_def asks_for_def)
    qed (use D(5) in \<open>auto simp: policy_inv_def\<close>)
    then show ?thesis using D(5) Cons by (auto simp: policy_inv_def)
  qed
  ultimately show ?thesis unfolding eq by (simp add: chan_inv_def)
qed (simp add: channel_serve_def inv)

text \<open>A step of the dispatcher that starts no query.\<close>

lemma channel_post_inv:
  assumes inv: "chan_inv P s" and h: "host_inv h" "set (cc_running (ch_core h)) \<subseteq> set (cc_running (ch_core (cs_host s)))"
    "cc_aborted (ch_core h) = cc_aborted (ch_core (cs_host s))" "cc_asked (ch_core h) = cc_asked (ch_core (cs_host s))"
    "\<And>t rid req pol. (t, rid, req, pol) \<in> set (cc_running (ch_core (cs_host s))) \<Longrightarrow>
      (t, rid, req, pol) \<in> set (cc_running (ch_core h)) \<or> (\<exists>y \<in> set (concat posts). settles rid y)"
    "\<And>y. y \<in> set (concat posts) \<Longrightarrow> fld y ''type'' = JStr ''content-result'' \<Longrightarrow> contentResult (fld y ''result'')"
  shows "chan_inv P (channel_post (posts, h) s)"
proof -
  note D = chan_invD [OF inv]
  let ?s = "channel_post (posts, h) s"
  have "base_inv ?s" using D(1) h(1) by (simp add: base_inv_def channel_post_def)
  moreover have "track_inv ?s"
    unfolding track_inv_def
  proof (intro allI impI)
    fix rid assume "waits (cs_client ?s) rid"
    then have "underway rid s" using D(2) by (simp add: track_inv_def channel_post_def)
    then consider "\<exists>x \<in> set (cs_toWorker s). asks_for rid x" | "\<exists>x \<in> set (concat (cs_toPage s)). settles rid x"
      | t req pol where "(t, rid, req, pol) \<in> set (cc_running (ch_core (cs_host s)))"
      unfolding underway_def by blast
    then show "underway rid ?s"
    proof cases
      case 3
      then show ?thesis using h(5) [OF 3] by (auto simp: underway_def channel_post_def)
    qed (auto simp: underway_def channel_post_def)
  qed
  moreover have "abort_inv ?s" 
  proof (cases "cs_lost s")
    case False
    have "t \<in> set (cc_aborted (ch_core (cs_host s))) \<or> contentCancelMessage rid \<in> set (cs_toWorker s)"
      if "rid \<in> set (cs_cancelled s)" "(t, rid, req, pol) \<in> set (cc_running (ch_core h))" for t rid req pol
      using abort_invD(3) [OF D(3) that(1) False] subsetD [OF h(2) that(2)] by blast
    then show ?thesis using abort_invD(1,2) [OF D(3) _ False] h(3) unfolding abort_inv_def by (auto simp: channel_post_def)
  qed (simp add: abort_inv_def channel_post_def)
  moreover have "result_inv ?s" using D(4) h(6) unfolding result_inv_def channel_post_def by auto
  moreover have "policy_inv P ?s" using D(5) h(4) by (simp add: policy_inv_def channel_post_def)
  ultimately show ?thesis by (simp add: chan_inv_def)
qed

lemma channel_told_inv:
  assumes inv: "chan_inv P s"
  shows "chan_inv P (channel_post (host_answer t a (cs_host s)) s)" and "chan_inv P (channel_post (host_partial t part (cs_host s)) s)"
    and "chan_inv P (channel_post (host_tells status (cs_host s)) s)"
proof -
  note B = base_invD(2) [OF chan_invD(1) [OF inv]]
  have "chan_inv P (channel_post (fst (host_answer t a (cs_host s)), snd (host_answer t a (cs_host s))) s)"
    by (rule channel_post_inv [OF inv host_answer_facts(1-4) [OF B]])
      (erule host_answer_facts(5) [OF B], erule (1) host_answer_valid)
  then show "chan_inv P (channel_post (host_answer t a (cs_host s)) s)" by (simp only: prod.collapse)
  have told: "chan_inv P (channel_post (host_published core (cs_host s)) s)"
    if "host_inv (snd (host_published core (cs_host s)))" "cc_running core = cc_running (ch_core (cs_host s))"
      "cc_aborted core = cc_aborted (ch_core (cs_host s))" "cc_asked core = cc_asked (ch_core (cs_host s))" for core
  proof -
    have "chan_inv P (channel_post (fst (host_published core (cs_host s)), snd (host_published core (cs_host s))) s)"
    proof (rule channel_post_inv [OF inv that(1)])
      show "contentResult (fld y ''result'')" if "y \<in> set (concat (fst (host_published core (cs_host s))))" "fld y ''type'' = JStr ''content-result''" for y
        using that by (rule host_published_valid)
    qed (simp_all add: that host_published_def)
    then show ?thesis by (simp only: prod.collapse)
  qed
  show "chan_inv P (channel_post (host_partial t part (cs_host s)) s)"
    unfolding host_partial_def using told host_told_inv(1) [OF B, of t part] by (simp add: host_partial_def)
  show "chan_inv P (channel_post (host_tells status (cs_host s)) s)"
    unfolding host_tells_def using told host_told_inv(2) [OF B, of status] by (simp add: host_tells_def)
qed

lemma channel_deliver_inv:
  assumes inv: "chan_inv P s"
  shows "chan_inv P (channel_deliver s)"
proof (cases "cs_toPage s")
  case (Cons batch rest)
  note D = chan_invD [OF inv] and B = base_invD [OF chan_invD(1) [OF inv]]
  let ?c = "fold client_take batch (cs_client s)"
  let ?s = "s\<lparr> cs_client := ?c, cs_toPage := rest \<rparr>"
  have eq: "channel_deliver s = ?s" by (simp add: channel_deliver_def Cons transport_message_fold)
  note T = takes_facts [OF B(1), of batch]
  have "base_inv ?s" using B T by (auto simp: base_inv_def)
  moreover have "track_inv ?s"
    unfolding track_inv_def
  proof (intro allI impI)
    fix rid assume "waits (cs_client ?s) rid"
    then have w: "waits ?c rid" by simp
    then have old: "waits (cs_client s) rid" using T by blast
    then have "\<not> settles rid m" if "m \<in> set batch" for m
      using takes_settle [OF B(1) w _ waits_nonempty [OF B(1) old] that] B(3) by blast
    moreover have "underway rid s" using D(2) old by (simp add: track_inv_def)
    ultimately show "underway rid ?s" using Cons by (auto simp: underway_def)
  qed
  moreover have "abort_inv ?s" using D(3) T by (simp add: abort_inv_def)
  moreover have "contentResult v" if "(rid, req, Inr v) \<in> set (cl_results ?c)" for rid req v
    using takes_results [OF B(1) that] D(4) Cons unfolding result_inv_def by auto
  then have "result_inv ?s" using D(4) Cons unfolding result_inv_def by auto
  moreover have "policy_inv P ?s" using D(5) by (simp add: policy_inv_def)
  ultimately show ?thesis unfolding eq by (simp add: chan_inv_def)
qed (simp add: channel_deliver_def inv)

lemma channel_gone_inv:
  assumes inv: "chan_inv P s" and c: "client_inv c" "\<And>r. \<not> waits c r"
    "\<And>rid req v. (rid, req, Inr v) \<in> set (cl_results c) \<Longrightarrow> (rid, req, Inr v) \<in> set (cl_results (cs_client s))"
  shows "chan_inv P (s\<lparr> cs_client := c, cs_toWorker := [], cs_toPage := [], cs_lost := True \<rparr>)"
proof -
  note D = chan_invD [OF inv]
  let ?s = "s\<lparr> cs_client := c, cs_toWorker := [], cs_toPage := [], cs_lost := True \<rparr>"
  have "base_inv ?s" using D(1) c(1,2) by (simp add: base_inv_def)
  moreover have "result_inv ?s" using D(4) c(3) unfolding result_inv_def by simp blast
  moreover have "policy_inv P ?s" using D(5) by (simp add: policy_inv_def)
  moreover have "track_inv ?s" using c(2) by (simp add: track_inv_def)
  moreover have "abort_inv ?s" by (simp add: abort_inv_def)
  ultimately show ?thesis by (simp add: chan_inv_def)
qed

lemma channel_fail_inv:
  assumes inv: "chan_inv P s"
  shows "chan_inv P (channel_fail message s)"
proof (cases "cs_lost s")
  case False
  note B = base_invD [OF chan_invD(1) [OF inv]]
  let ?m = "transport_failed message"
  let ?c = "client_receive ?m (cs_client s)"
  have told: "?c = (if cl_closed (cs_client s) then cs_client s
       else client_failAll (ContentServiceError (fld ?m ''error'') TransportScope) (cs_client s))"
    by (simp add: client_receive_def transport_failed_def)
  have "\<not> waits ?c r" for r using B(3) [of r] told by simp
  moreover have "(rid, req, Inr v) \<in> set (cl_results (cs_client s))" if "(rid, req, Inr v) \<in> set (cl_results ?c)" for rid req v
    using that told client_failAll_results [of rid req v _ "cs_client s"] by (simp split: if_splits)
  ultimately have "chan_inv P (s\<lparr> cs_client := ?c, cs_toWorker := [], cs_toPage := [], cs_lost := True \<rparr>)"
    by (rule channel_gone_inv [OF inv client_receive_inv [OF B(1)]])
  then show ?thesis using False by (simp add: channel_fail_def)
qed (simp add: channel_fail_def inv)

lemma channel_close_inv:
  assumes inv: "chan_inv P s"
  shows "chan_inv P (channel_close owns s)"
proof -
  note B = base_invD [OF chan_invD(1) [OF inv]]
  let ?c = "client_close (cs_client s)"
  have c: "client_inv ?c" "cl_clientId ?c = cl_clientId (cs_client s)" "cl_nextRequest ?c = cl_nextRequest (cs_client s)"
    using client_close_inv [OF B(1)] by (simp_all add: client_close_def)
  have quiet: "\<not> waits ?c r" for r
    using B(3) by (cases "cl_closed (cs_client s)") (auto simp: client_close_def waits_def jm_get_def)
  have results: "(rid, req, Inr v) \<in> set (cl_results (cs_client s))" if "(rid, req, Inr v) \<in> set (cl_results ?c)" for rid req v
    using that client_failAll_results [of rid req v clientCancelled "cs_client s"] by (simp add: client_close_def split: if_splits)
  have "chan_inv P (s\<lparr> cs_client := ?c \<rparr>)" by (rule client_change_inv [OF inv c(1)]) (use quiet c results in auto)
  moreover have "chan_inv P (s\<lparr> cs_client := ?c, cs_toWorker := [], cs_toPage := [], cs_lost := True \<rparr>)"
    by (rule channel_gone_inv [OF inv c(1) quiet results])
  ultimately show ?thesis by (simp add: channel_close_def)
qed

lemma channel_step_inv: "chan_inv P s \<Longrightarrow> channel_step E P s t \<Longrightarrow> chan_inv P t"
  by (erule channel_step.cases)
    (simp_all add: channel_ask_inv channel_abort_inv channel_serve_inv channel_told_inv channel_deliver_inv channel_fail_inv channel_close_inv)

lemma new_host_inv: "host_inv (new_content_host ready)"
  by (simp add: host_inv_def new_content_host_def content_listen_def new_content_def content_inv_def content_tickets_def jm_get_def)

lemma channel_start_inv: "channel_start s \<Longrightarrow> chan_inv P s"
proof -
  assume "channel_start s"
  then obtain clientId ready where s: "s = \<lparr> cs_client = new_content_client clientId, cs_toWorker = [],
     cs_host = new_content_host ready, cs_toPage = [], cs_lost = False, cs_cancelled = [] \<rparr>" by (auto simp: channel_start_def)
  have "client_inv (new_content_client clientId)" by (rule ccl.inv_start) (auto simp: client_start_def)
  then show ?thesis
    unfolding s chan_inv_def base_inv_def track_inv_def abort_inv_def result_inv_def policy_inv_def
    by (simp add: new_host_inv) (simp add: new_content_client_def waits_def jm_get_def new_content_host_def content_listen_def new_content_def)
qed

interpretation chn: stepping channel_start "channel_step E P" "chan_inv P" for E P
  by unfold_locales (rule channel_start_inv, assumption, rule channel_step_inv)

section \<open>The content channel as a whole\<close>

text \<open>C10: No content query is lost between page and worker. In every order of queries, aborts, answers, malformed replies and
  failures, a query that waits on the page is on its way to the worker, running there, or its answer is on its way back; so
  when nothing is under way no query waits, and none waits once the worker failed.\<close>

theorem content_not_lost:
  assumes "channel_start s0" and "(channel_step E P)\<^sup>*\<^sup>* s0 s"
  shows "(\<forall>rid. waits (cs_client s) rid \<longrightarrow> \<not> cs_lost s \<and>
       ((\<exists>m \<in> set (cs_toWorker s). asks_for rid m) \<or>
        (\<exists>t req pol. (t, rid, req, pol) \<in> set (cc_running (ch_core (cs_host s)))) \<or>
        (\<exists>m \<in> set (concat (cs_toPage s)). settles rid m))) \<and>
     (cs_toWorker s = [] \<and> cs_toPage s = [] \<and> cc_running (ch_core (cs_host s)) = [] \<longrightarrow> cl_pending (cs_client s) = [])"
proof -
  have inv: "chan_inv P s" using chn.inv_reachable [OF assms] .
  have w: "\<not> cs_lost s \<and> underway rid s" if "waits (cs_client s) rid" for rid
    using that chan_invD(2) [OF inv] base_invD(4) [OF chan_invD(1) [OF inv]] by (auto simp: track_inv_def)
  have "cl_pending (cs_client s) = []" if "cs_toWorker s = []" "cs_toPage s = []" "cc_running (ch_core (cs_host s)) = []"
  proof -
    have "\<not> waits (cs_client s) rid" for rid using w [of rid] that by (auto simp: underway_def)
    then have "map_of (cl_pending (cs_client s)) = Map.empty" by (simp add: waits_def jm_get_def fun_eq_iff)
    then show ?thesis by (simp add: empty_eq_map_of_iff flip: fun_eq_iff)
  qed
  then show ?thesis using w unfolding underway_def by blast
qed


text \<open>C28: What a caller of the page gets was checked. Whatever the authority returns, a result that reaches a caller is of the
  kind of its query and is one the protocol's decoder accepts.\<close>

theorem content_results_checked:
  assumes "channel_start s0" and "(channel_step E P)\<^sup>*\<^sup>* s0 s" and "(rid, req, Inr v) \<in> set (cl_results (cs_client s))"
  shows "contentResult v \<and> fld v ''kind'' = fld req ''kind''"
proof -
  have inv: "chan_inv P s" using chn.inv_reachable [OF assms(1,2)] .
  show ?thesis
    using chan_invD(4) [OF inv] client_invD(4) [OF base_invD(1) [OF chan_invD(1) [OF inv]] assms(3)] assms(3)
    by (auto simp: result_inv_def)
qed

text \<open>C11: A restricted profile's policy is on every read. When all queries of a page go through a profile's own port, every call
  of the content authority is made with exactly that profile's policy, whatever the caller of the port gave.\<close>

theorem content_policy_arrives:
  assumes "channel_start s0" and "(channel_step E (\<lambda>own. own = policyValue p))\<^sup>*\<^sup>* s0 s"
    and "(t, rid, req, pol) \<in> set (cc_asked (ch_core (cs_host s)))"
  shows "pol = policyValue p"
proof -
  have "carried (\<lambda>own. own = policyValue p) pol"
    using chan_invD(5) [OF chn.inv_reachable [OF assms(1,2)]] assms(3) unfolding policy_inv_def by blast
  then show ?thesis by (simp add: carried_def policyValue_def)
qed

section \<open>A run of the channel\<close>

text \<open>A Kid's query for the regions is served; one run delivers the answer, another aborts the query.\<close>

definition demo_content_request :: jsval where
  "demo_content_request = JObj [(''kind'', JStr ''service.regions'')]"

definition demo_content_result :: jsval where
  "demo_content_result = JObj [(''kind'', JStr ''service.regions''), (''regions'', JArr [JStr ''FI''])]"

definition demo_channel :: content_channel where
  "demo_channel = \<lparr> cs_client = new_content_client ''p'', cs_toWorker = [], cs_host = new_content_host True, cs_toPage = [],
     cs_lost = False, cs_cancelled = [] \<rparr>"

definition demo_served :: content_channel where
  "demo_served = channel_serve plain_env (channel_ask None (Some False) False demo_content_request (policyValue demo_kid) JUndef demo_channel)"

definition demo_delivered :: content_channel where
  "demo_delivered = channel_deliver (channel_post (host_answer 0 (Inr demo_content_result) (cs_host demo_served)) demo_served)"

definition demo_given_up :: content_channel where
  "demo_given_up = channel_serve plain_env (channel_abort ''p:content:1'' demo_served)"

abbreviation demo_policy :: "jsval \<Rightarrow> bool" where "demo_policy \<equiv> \<lambda>own. own = policyValue demo_kid"

lemma demo_policy_value: "contentPolicyValue (policyValue demo_kid)" and demo_policy_truthy: "truthy (policyValue demo_kid)"
  by (rule policy_valid [OF demo_kid_policy]) (simp_all add: profile_policy_ok_def title_ref_ok_def policyValue_def)

lemma demo_query_decodes:
  "decodeContentServiceClientMessage plain_env (contentQueryMessage ''p:content:1'' demo_content_request (policyValue demo_kid)) =
     Inr (contentQueryMessage ''p:content:1'' demo_content_request (policyValue demo_kid))"
  using demo_policy_value demo_policy_truthy
  by (simp add: decodeContentServiceClientMessage_def contentQueryMessage_def demo_content_request_def contentRequest_def contentOperation_def
      CPROTOCOL_def contentProtocol_def exactKeys_def textUpTo_def optional_def Let_def)

lemma demo_result_decodes:
  "decodeContentServiceServerMessage (contentResultMessage ''p:content:1'' demo_content_result) = Inr (contentResultMessage ''p:content:1'' demo_content_result)"
  by (simp add: decodeContentServiceServerMessage_def contentResultMessage_def demo_content_result_def contentResult_def boundedArray_def isArray_def
      CPROTOCOL_def contentProtocol_def exactKeys_def textUpTo_def Let_def)

lemma demo_id: "contentId_at ''p'' (Suc 0) = ''p:content:1''"
  by code_simp

lemma demo_served_eq:
  "demo_served = demo_channel\<lparr>
     cs_client := (new_content_client ''p'')\<lparr> cl_nextRequest := Suc 0, cl_watching := [''p:content:1''],
       cl_pending := [(''p:content:1'', \<lparr> cp_request = demo_content_request, cp_progress = False, cp_signal = True \<rparr>)] \<rparr>,
     cs_host := \<lparr> ch_core = content_query ''p:content:1'' demo_content_request (policyValue demo_kid) (content_listen 0 new_content),
       ch_ready = True, ch_closed = False \<rparr> \<rparr>"
proof -
  let ?m = "contentQueryMessage ''p:content:1'' demo_content_request (policyValue demo_kid)"
  let ?c = "(new_content_client ''p'')\<lparr> cl_nextRequest := Suc 0, cl_watching := [''p:content:1''],
       cl_pending := [(''p:content:1'', \<lparr> cp_request = demo_content_request, cp_progress = False, cp_signal = True \<rparr>)] \<rparr>"
  have ask: "channel_ask None (Some False) False demo_content_request (policyValue demo_kid) JUndef demo_channel =
      demo_channel\<lparr> cs_client := ?c, cs_toWorker := [?m] \<rparr>"
    by (simp add: channel_ask_eq demo_channel_def new_content_client_def client_query_def transport_send_def demo_id jm_set_def Let_def)
  have "host_content plain_env ?m (new_content_host True) =
      ([], \<lparr> ch_core = content_query ''p:content:1'' demo_content_request (policyValue demo_kid) (content_listen 0 new_content),
        ch_ready = True, ch_closed = False \<rparr>)"
    by (simp add: host_content_def new_content_host_def demo_query_decodes content_dispatch_def Let_def newly_answered_def)
      (simp add: contentQueryMessage_def demo_policy_truthy content_query_def content_listen_def new_content_def jm_get_def Let_def)
  then show ?thesis unfolding demo_served_def ask by (simp add: channel_serve_def channel_post_def demo_channel_def)
qed

lemma demo_reached:
  "(channel_step plain_env demo_policy)\<^sup>*\<^sup>* demo_channel demo_served" "(channel_step plain_env demo_policy)\<^sup>*\<^sup>* demo_channel demo_delivered"
  "(channel_step plain_env demo_policy)\<^sup>*\<^sup>* demo_channel demo_given_up" "channel_start demo_channel"
proof -
  have lives: "\<not> cs_lost (channel_ask None (Some False) False demo_content_request (policyValue demo_kid) JUndef demo_channel)"
    "\<not> cs_lost demo_served" "\<not> cs_lost (channel_abort ''p:content:1'' demo_served)" "\<not> cs_lost (channel_post r demo_served)" for r
    by (simp_all add: demo_served_eq channel_ask_eq demo_channel_def channel_abort_def channel_post_def split: prod.split)
  let ?step = "channel_step plain_env demo_policy"
  let ?ask = "channel_ask None (Some False) False demo_content_request (policyValue demo_kid) JUndef demo_channel"
  have "?step demo_channel ?ask" by (rule channel_asks) simp
  moreover have "?step ?ask demo_served" unfolding demo_served_def by (rule channel_serves) (rule lives)
  ultimately show served: "?step\<^sup>*\<^sup>* demo_channel demo_served" by (rule converse_rtranclp_into_rtranclp [OF _ r_into_rtranclp])
  have a: "?step demo_served (channel_post (host_answer 0 (Inr demo_content_result) (cs_host demo_served)) demo_served)"
    by (rule channel_answers) (rule lives)
  have b: "?step (channel_post (host_answer 0 (Inr demo_content_result) (cs_host demo_served)) demo_served) demo_delivered"
    unfolding demo_delivered_def by (rule channel_delivers) (rule lives)
  show "?step\<^sup>*\<^sup>* demo_channel demo_delivered"
    by (rule rtranclp.rtrancl_into_rtrancl [OF rtranclp.rtrancl_into_rtrancl [OF served a] b])
  have c: "?step demo_served (channel_abort ''p:content:1'' demo_served)" by (rule channel_aborts)
  have d: "?step (channel_abort ''p:content:1'' demo_served) demo_given_up"
    unfolding demo_given_up_def by (rule channel_serves) (rule lives)
  have e: "?step\<^sup>*\<^sup>* demo_channel (channel_abort ''p:content:1'' demo_served)"
    using served c by (rule rtranclp.rtrancl_into_rtrancl)
  show "?step\<^sup>*\<^sup>* demo_channel demo_given_up" using e d by (rule rtranclp.rtrancl_into_rtrancl)
  show "channel_start demo_channel" by (auto simp: channel_start_def demo_channel_def)
qed

lemma demo_runs:
  "cc_running (ch_core (cs_host demo_served)) = [(0, ''p:content:1'', demo_content_request, policyValue demo_kid)]"
  "cc_asked (ch_core (cs_host demo_served)) = [(0, ''p:content:1'', demo_content_request, policyValue demo_kid)]"
  "cc_aborted (ch_core (cs_host demo_served)) = []" "waits (cs_client demo_served) ''p:content:1''"
  by (simp_all add: demo_served_eq content_query_def content_listen_def new_content_def jm_get_def waits_def Let_def)

theorem content_not_lost_witness:
  "\<not> cs_lost demo_served \<and> waits (cs_client demo_served) ''p:content:1'' \<and>
     ((\<exists>m \<in> set (cs_toWorker demo_served). asks_for ''p:content:1'' m) \<or>
      (\<exists>t req pol. (t, ''p:content:1'', req, pol) \<in> set (cc_running (ch_core (cs_host demo_served)))) \<or>
      (\<exists>m \<in> set (concat (cs_toPage demo_served)). settles ''p:content:1'' m))"
  using content_not_lost [OF demo_reached(4,1)] demo_runs(4) by blast

theorem content_policy_arrives_witness:
  "cc_asked (ch_core (cs_host demo_served)) = [(0, ''p:content:1'', demo_content_request, policyValue demo_kid)]"
  using content_policy_arrives [OF demo_reached(4,1)] demo_runs(2) by simp


theorem content_results_checked_witness: "contentResult demo_content_result \<and> fld demo_content_result ''kind'' = fld demo_content_request ''kind''"
proof -
  let ?h = "cs_host demo_served"
  have run: "running (ch_core ?h) 0 = Some (''p:content:1'', demo_content_request, policyValue demo_kid)" by (simp add: running_def demo_runs)
  have "query_outcome ''p:content:1'' demo_content_request False (Inr demo_content_result) = contentResultMessage ''p:content:1'' demo_content_result"
    by (simp add: query_outcome_def demo_content_request_def demo_content_result_def)
  moreover have "\<not> ch_closed ?h" by (simp add: demo_served_eq)
  ultimately have post: "fst (host_answer 0 (Inr demo_content_result) ?h) = [[contentResultMessage ''p:content:1'' demo_content_result]]"
    by (simp add: host_answer_def newly_answered_answer run demo_runs(3) publishContent_def demo_result_decodes Let_def)
  have page: "cs_toPage demo_served = []" "cs_client demo_served = (new_content_client ''p'')\<lparr> cl_nextRequest := Suc 0,
      cl_watching := [''p:content:1''], cl_pending := [(''p:content:1'', \<lparr> cp_request = demo_content_request, cp_progress = False, cp_signal = True \<rparr>)] \<rparr>"
    by (simp_all add: demo_served_eq demo_channel_def)
  have "cl_results (cs_client demo_delivered) = [(''p:content:1'', demo_content_request, Inr demo_content_result)]"
    unfolding demo_delivered_def channel_deliver_def channel_post_def post transport_message_def
    by (simp add: page isContentServiceServerMessage_def contentResultMessage_def client_receive_def Let_def
        jm_get_def client_settle_def new_content_client_def demo_content_request_def demo_content_result_def)
  then show ?thesis using content_results_checked [OF demo_reached(4,2), of "''p:content:1''" demo_content_request demo_content_result] by simp
qed

end
