(* ===== verification/Spec2Isabelle.thy ===== *)
theory Spec2Isabelle
  imports CoreReplies Actor ClockStore OperationJournal Scheduler EndToEnd ContentHost
begin

text \<open>
  \<^bold>\<open>The services behind den-edge's web client.\<close> A page of den-edge does not touch the user's library itself. It
  talks to a worker by messages: the \<^emph>\<open>library service\<close> owns the library of the device (commands, queries, tasks,
  subscriptions), the \<^emph>\<open>content service\<close> reads catalogues and titles for it. This development models both services
  from the TypeScript under \<^verbatim>\<open>src/web/src/lib/\<close>, from the page's client to what is written in the vault, and proves what
  the parts owe each other.

  \<^bold>\<open>Parts and how they interact.\<close> The page's client numbers its requests and posts them; the worker's host decodes each,
  gives it to a service core, decodes the replies and posts them back; the client matches replies to requests and
  updates to subscriptions. The library core calls an \<^emph>\<open>authority\<close>: the refresh loop around the journal of operations
  around the log. The journal makes a command happen at most once across restarts, the clock gives every write its
  stamp, and the refresh loop decides when to read the relay and deliver. The content core calls a content authority
  with the policy of the asking profile.

  \<^bold>\<open>Theories.\<close>
  \<^item> \<open>JsPrelude\<close>, \<open>JsMap\<close>, \<open>JsonText\<close>, \<open>Base64\<close>: JavaScript values (\<open>jsval\<close>), numbers, strings, \<open>Map\<close> with its insertion order
    (locale \<open>insertion_map\<close>, interpreted as \<open>jm\<close>), \<open>JSON.stringify\<close> and \<open>JSON.parse\<close>, UTF-8 and base64. \<open>Transitions\<close> has the locales
    \<open>stepping\<close> and \<open>growing\<close> that every step relation below interprets. Platform functions the code calls (URL parsing,
    the printing of numbers that are not integers and the like) are fields of \<open>js_env\<close>.
  \<^item> \<open>ProfilePrefs\<close>: \<^verbatim>\<open>profilePreferenceSchema.ts\<close> with \<^verbatim>\<open>settings/catalogs.ts\<close>. \<open>CodecBase\<close>, \<open>CodecKeys\<close>, \<open>CodecClient\<close>, \<open>CodecServer\<close>,
    \<open>CodecFacts\<close>: every validator of \<^verbatim>\<open>libraryServiceProtocolCodec.ts\<close> and its two decoders. Shown: the substring search of
    \<open>exact\<close> accepts exactly the listed property names, on every key string the codec uses.
  \<^item> \<open>ServiceCore\<close>, \<open>CoreFacts\<close>, \<open>CoreReplies\<close>, \<open>Actor\<close>: \<^verbatim>\<open>libraryServiceCore.ts\<close>, one function per handler (\<open>core_dispatch\<close>,
    \<open>core_command\<close>, \<open>updates\<close>, ...) on the record \<open>core\<close>, and its lane and provider work as a step relation. Shown: commands
    run at most once, subscriptions are replaced all or none and are fresh, replies pass the server-message decoder,
    each request is answered once, and the queue drains.
  \<^item> \<open>OperationJournal\<close>: \<^verbatim>\<open>libraryOperationAuthority.ts\<close> (\<open>perform\<close>, \<open>bounded\<close>, \<open>durableAuthority\<close>) over \<open>keep\<close> and \<open>kept\<close> of \<^verbatim>\<open>log.ts\<close>.
    Shown: durable replay, intent before effect, refusal of a reused id, what eviction keeps, and that its loop ends.
    \<open>LocalValue\<close>: \<^verbatim>\<open>libraryLocalValue.ts\<close>, sealing and opening.
  \<^item> \<open>Wire\<close>: stamps, row names, \<open>believe\<close> and base64url of \<^verbatim>\<open>wire.ts\<close>. \<open>ClockStore\<close>: \<^verbatim>\<open>clockStore.ts\<close>; both ways it writes the
    vault refine one transaction (locale \<open>transaction\<close>), issued stamps increase over all tabs, and imported events get
    distinct ones.
  \<^item> \<open>Scheduler\<close>: \<^verbatim>\<open>libraryServiceScheduledAuthority.ts\<close>; every stretch between two awaits is a step. Shown: at most one
    timer and only for an eligible page, polling continues, its spacing, stale deliveries, what a pass announces, and that
    nothing happens after close.
  \<^item> \<open>PageClient\<close>: \<^verbatim>\<open>libraryServiceClient.ts\<close>. \<open>WorkerHost\<close>: the library half of \<^verbatim>\<open>libraryServiceWorkerHost.ts\<close>. \<open>Channel\<close> and \<open>EndToEnd\<close>:
    page and worker joined, messages served and delivered in any order. Shown: each call settles once, listeners only
    see newer values, no request is lost, both sides agree on subscriptions once all is delivered, and exchanges end with
    every request answered.
  \<^item> \<open>ContentCodec\<close>: \<^verbatim>\<open>contentServiceProtocolCodec.ts\<close>. \<open>ContentCore\<close>, \<open>ContentFacts\<close>: \<^verbatim>\<open>contentServiceCore.ts\<close>. \<open>ContentClient\<close>:
    \<^verbatim>\<open>contentServiceClient.ts\<close>. \<open>ContentPolicy\<close>: \<^verbatim>\<open>contentPolicy.ts\<close>. \<open>ContentHost\<close>: the content half of the host and of
    \<^verbatim>\<open>libraryServiceWorkerTransport.ts\<close>, and the whole channel. Shown: no content query is lost, aborts reach the running
    call and silence it, results are checked, a profile's policy is on every read and every request to den-atlas, and
    cache names keep policies apart.
  \<^item> This theory: \<open>runtimeAuthority\<close>, how \<^verbatim>\<open>libraryServiceRuntimeAuthority.ts\<close> stacks the authorities, and the property that
    spans core, refresh loop and journal.

  \<^bold>\<open>Parameters and what is relied on.\<close> The library authority below the journal is any record of functions on a world;
  \<open>authority_ok\<close> says it keeps its TypeScript types and \<open>authority_fits\<close> that it answers queries and selections with
  values of the kind asked for. AES-GCM opens what it sealed (\<open>aead\<close>); SHA-256 gives 32 bytes (\<open>host_ok\<close>); den-core's issued
  stamp is later than the last (\<open>later_issuer\<close>), and Web Locks are exclusive. Every hypothesis is met in a witness by a
  concrete instance.

  \<^bold>\<open>Bounds and fuel.\<close> Loops are structural or proved to end. \<open>JSON.parse\<close> has the length of its text as fuel, which is
  proved enough. The limits of the code (1024 remembered operations, 64 entries and 256 KiB of journal, 30 s between
  reads) are its constants. Request numbers and the revision are natural numbers; statements that need the protocol's
  integers bound the revision by 2^53 - 1. Strings have code units below 256, and \<open>-0\<close> is \<open>0\<close>.

  \<^bold>\<open>Granularity.\<close> A handler on the lane of the library core is one step, with its awaits inside: an assistant publication
  that runs beside the lane is not interleaved with the inside of one. An operation of the journal and one of the clock
  are one step each, under their lock. The errors of the authority are values, so the \<open>catch\<close> around the dispatch of a
  core is not reached. Reads of the vault succeed (the source reads a failing one as an absent value); writes may fail.
  Listeners do not call back into the part that calls them, and the authority's \<open>listen\<close> does not throw. Settled
  promises resume after the batch that settled them. A content answer is posted in the step that makes it. In the
  statement on den-atlas bodies, numbers are integers, and methods have ASCII letters.

  \<^bold>\<open>Not modelled.\<close> The worker host's retirement lease, policy offer and closing; den-core (WebAssembly: folding of rows,
  merging, ages) and the authorities built on it; the content authority's remote reads; sealing of rows and key derivation
  (Web Crypto); the shared-worker transports and supervision; playback, downloads, pairing, imports, routes, the Svelte
  pages, and the Rust server.
\<close>

section \<open>The authority of the running service\<close>

text \<open>\<open>libraryServiceRuntimeAuthority.ts\<close> puts the refresh loop around the operation journal around the log.\<close>

definition runtimeAuthority ::
  "js_env \<Rightarrow> host \<Rightarrow> sched_config \<Rightarrow> tick \<Rightarrow> 'w authority \<Rightarrow> 'w jworld sworld authority" where
  "runtimeAuthority E H G K A = scheduledAuthority G K (durableAuthority E H A)"

lemma runtime_command:
  "a_command (runtimeAuthority E H G K A) cmd op w =
    (case a_command (durableAuthority E H A) cmd op (w_inner w) of
       (r, u) \<Rightarrow> (r, w\<lparr> w_inner := u, w_sched := (case r of
          Inr result \<Rightarrow> if c_outcome result = Applied then requestDelivery G (w_sched w) else w_sched w
        | Inl _ \<Rightarrow> w_sched w) \<rparr>))"
  by (simp add: runtimeAuthority_def scheduledAuthority_def sched_inside_def)

text \<open>C3: A command survives a restart of the service. If the runtime completed a command and the worker is then
  lost, a new instance of the service, with no memory of it and a refresh loop in whatever state, answers the
  repeated request with the outcome and delivery of the first, and neither the authority below is called
  again nor the journal written.\<close>

theorem command_survives_restart:
  assumes "host_ok H" and "h_local H" and "journal_ok E H (w_inner w)"
    and "plain_commands A (fld m ''command'') (strOf (fld m ''operationId''))"
    and "a_command (runtimeAuthority E H G K A) (fld m ''command'') (strOf (fld m ''operationId'')) w = (Inr r, w1)"
    and "client_message E m" and "fld m ''type'' = JStr ''command''"
    and "core_inv E st" and "\<not> closed st" and "opened st"
    and "jm_get (operations st) (strOf (fld m ''operationId'')) = None"
    and "entries E H (w_inner (world st)) = entries E H (w_inner w1)"
  shows "(\<exists>ms v st'. core_dispatch (runtimeAuthority E H G' K' A) E m st =
       (ms @ [commandMessage (fld m ''requestId'') (strOf (fld m ''operationId'')) (c_outcome r) (c_delivery r) v], st')) \<and>
     (\<exists>u. a_command (runtimeAuthority E H G' K' A) (fld m ''command'') (strOf (fld m ''operationId'')) (world st) = (Inr r, u) \<and>
       w_inner u = w_inner (world st))"
proof -
  let ?op = "strOf (fld m ''operationId'')" and ?cmd = "fld m ''command''"
  have "a_command (durableAuthority E H A) ?cmd ?op (w_inner w) = (Inr r, w_inner w1)"
    using assms(5) by (auto simp: runtime_command split: prod.splits)
  from durable_command_again [OF assms(1-4) this assms(12)]
  obtain u where again: "a_command (runtimeAuthority E H G' K' A) ?cmd ?op (world st) = (Inr r, u)" "w_inner u = w_inner (world st)"
    by (simp add: runtime_command)
  from core_command_records [OF assms(8,11) this(1)] core_dispatch_command [OF assms(6,7,9,10)] again
  show ?thesis by blast
qed

theorem command_survives_restart_witness:
  "\<exists>w1 ms v st'. fst (a_command (runtimeAuthority plain_env demo_host demo_config (demo_tick 0) demo_authority) demo_command ''o1''
        \<lparr> w_inner = demo_jworld, w_sched = new_scheduler \<rparr>) = Inr demo_result \<and>
    core_dispatch (runtimeAuthority plain_env demo_host demo_config (demo_tick 9) demo_authority) plain_env demo_request
      ((new_core ''i2'' \<lparr> w_inner = w1, w_sched = new_scheduler \<rparr>)\<lparr> opened := True, client := Some demo_client \<rparr>) =
      (ms @ [commandMessage (JStr ''r1'') ''o1'' Applied Synced v], st') \<and> j_inner w1 = 1"
proof -
  let ?R = "runtimeAuthority plain_env demo_host demo_config" and ?w = "\<lparr> w_inner = demo_jworld, w_sched = new_scheduler \<rparr>"
  obtain w1 where w1: "a_command (durableAuthority plain_env demo_host demo_authority) demo_command ''o1'' demo_jworld = (Inr demo_result, w1)"
    "j_inner w1 = 1" by (rule demo_durable_command)
  then obtain s1 where first: "a_command (?R (demo_tick 0) demo_authority) demo_command ''o1'' ?w =
      (Inr demo_result, \<lparr> w_inner = w1, w_sched = s1 \<rparr>)"
    by (simp add: runtime_command)
  have m: "fld demo_request ''command'' = demo_command" "fld demo_request ''operationId'' = JStr ''o1''"
    "fld demo_request ''requestId'' = JStr ''r1''" by (simp_all add: demo_request_def)
  let ?st = "(new_core ''i2'' \<lparr> w_inner = w1, w_sched = new_scheduler \<rparr>)\<lparr> opened := True, client := Some demo_client \<rparr>"
  have st: "core_inv plain_env ?st" "\<not> closed ?st" "opened ?st" "operations ?st = []" "w_inner (world ?st) = w1"
    by (simp_all add: core_inv_def new_core_def digests_ok_def versions_ok_def jm_inv_def)
  have "\<exists>ms v st'. core_dispatch (?R (demo_tick 9) demo_authority) plain_env demo_request ?st =
      (ms @ [commandMessage (JStr ''r1'') ''o1'' (c_outcome demo_result) (c_delivery demo_result) v], st')"
    using command_survives_restart [OF demo_host_ok, of plain_env ?w demo_authority demo_request demo_config "demo_tick 0"
        demo_result "\<lparr> w_inner = w1, w_sched = s1 \<rparr>" ?st demo_config "demo_tick 9", unfolded m strOf.simps]
      demo_journal_ok(2) demo_plain first demo_request_ok st
    by (simp add: jm_get_def)
  then show ?thesis using first w1(2) by (auto simp: demo_result_def)
qed

end
